(* ===== verification/Prelude.thy ===== *)
theory Prelude
  imports "HOL-Library.Word"
begin

text \<open>
  Shared vocabulary of the development: the exceptions the package raises or lets through,
  the outcome of an asynchronous operation, and the few combinators (sequencing,
  \<^verbatim>\<open>try/finally\<close>, \<^verbatim>\<open>try/except\<close>) that the components are composed with.

  An operation of the package is an \<open>action\<close>: a function from the state it works on to an
  outcome and the new state. An outcome is one of
    \<^item> \<open>Returns x\<close>: the coroutine returned \<open>x\<close>;
    \<^item> \<open>Raises e\<close>: it raised \<open>e\<close>;
    \<^item> \<open>Blocks\<close>: it is suspended at an \<^verbatim>\<open>await\<close> that only another task can end. The state that
      comes with it is the state at the moment of suspension.
\<close>

section \<open>Exceptions and outcomes\<close>

text \<open>
  The exception classes that the code raises or distinguishes. \<open>Cancelled\<close> is Trio's
  cancellation, a \<^verbatim>\<open>BaseException\<close>, so an \<^verbatim>\<open>except Exception\<close> clause does not catch it.
  \<open>OtherError\<close> stands for any further exception of code outside the package.
\<close>

datatype exn =
    RuntimeError string
  | ValueError string
  | TypeError string
  | KeyError string
  | AttributeError string
  | IndexError
  | ZeroDivisionError
  | AssertionError
  | OSError int
  | FileExistsError string
  | EndOfChannel
  | ClosedResourceError
  | BrokenResourceError
  | BusyResourceError string
  | UnknownConnectionTypeError string
  | UnknownMiddlewareTypeError string
  | NoBroadcastAddressError
  | ConnectionError string
  | OtherError nat
  | Cancelled

definition is_Exception :: "exn \<Rightarrow> bool" where
  "is_Exception e \<longleftrightarrow> e \<noteq> Cancelled"

datatype 'a outcome = Returns 'a | Raises exn | Blocks

type_synonym ('s, 'a) action = "'s \<Rightarrow> 'a outcome \<times> 's"

named_theorems action_simps \<open>unfolding equations of the action combinators\<close>

section \<open>Combinators\<close>

definition ret :: "'a \<Rightarrow> ('s, 'a) action" where
  [action_simps]: "ret x s = (Returns x, s)"

definition throw :: "exn \<Rightarrow> ('s, 'a) action" where
  [action_simps]: "throw e s = (Raises e, s)"

definition block :: "('s, 'a) action" where
  [action_simps]: "block s = (Blocks, s)"

definition modify :: "('s \<Rightarrow> 's) \<Rightarrow> ('s, unit) action" where
  [action_simps]: "modify f s = (Returns (), f s)"

definition and_then :: "('s, 'a) action \<Rightarrow> ('a \<Rightarrow> ('s, 'b) action) \<Rightarrow> ('s, 'b) action" where
  [action_simps]: "and_then m f s =
     (case m s of
        (Returns x, s') \<Rightarrow> f x s'
      | (Raises e, s') \<Rightarrow> (Raises e, s')
      | (Blocks, s') \<Rightarrow> (Blocks, s'))"

text \<open>
  \<^verbatim>\<open>try: m finally: f\<close>. The clean-up \<open>f\<close> is told whether \<open>m\<close> completed. An exception of
  the clean-up replaces the one in flight; a suspended body has not reached its clean-up.
\<close>

definition try_finally :: "('s, 'a) action \<Rightarrow> (bool \<Rightarrow> ('s, unit) action) \<Rightarrow> ('s, 'a) action" where
  [action_simps]: "try_finally m f s =
     (case m s of
        (Returns x, s') \<Rightarrow> and_then (f True) (\<lambda>_. ret x) s'
      | (Raises e, s') \<Rightarrow> and_then (f False) (\<lambda>_. throw e) s'
      | (Blocks, s') \<Rightarrow> (Blocks, s'))"

text \<open>\<^verbatim>\<open>try: m except Exception as e: h(e)\<close>.\<close>

definition try_except :: "('s, 'a) action \<Rightarrow> (exn \<Rightarrow> ('s, 'a) action) \<Rightarrow> ('s, 'a) action" where
  [action_simps]: "try_except m h s =
     (case m s of
        (Raises e, s') \<Rightarrow> if is_Exception e then h e s' else (Raises e, s')
      | r \<Rightarrow> r)"

lemma is_Exception_simps [simp]:
  "\<not> is_Exception Cancelled"
  "is_Exception (RuntimeError m)" "is_Exception (ValueError m)" "is_Exception (TypeError m)"
  "is_Exception (KeyError m)" "is_Exception (AttributeError m)" "is_Exception IndexError"
  "is_Exception ZeroDivisionError"
  "is_Exception AssertionError" "is_Exception (OSError n)" "is_Exception (FileExistsError m)" "is_Exception EndOfChannel"
  "is_Exception ClosedResourceError" "is_Exception BrokenResourceError" "is_Exception (BusyResourceError m)"
  "is_Exception (UnknownConnectionTypeError m)" "is_Exception (UnknownMiddlewareTypeError m)"
  "is_Exception NoBroadcastAddressError" "is_Exception (ConnectionError m)"
  "is_Exception (OtherError k)"
  by (simp_all add: is_Exception_def)

lemma and_then_return [simp]: "and_then (ret x) f = f x"
  by (rule ext) (simp add: action_simps)

lemma and_then_retright [simp]: "and_then m ret = m"
  by (rule ext) (simp add: action_simps split: prod.split outcome.split)

lemma and_then_assoc: "and_then (and_then m f) g = and_then m (\<lambda>x. and_then (f x) g)"
  by (rule ext) (simp add: action_simps split: prod.split outcome.split)

lemma and_then_raise [simp]: "and_then (throw e) f = throw e"
  by (rule ext) (simp add: action_simps)

lemma and_then_block [simp]: "and_then block f = block"
  by (rule ext) (simp add: action_simps)

lemma and_then_returns:
  assumes "and_then m f s = (Returns y, s')"
  obtains x t where "m s = (Returns x, t)" and "f x t = (Returns y, s')"
  using assms by (auto simp: action_simps split: prod.splits outcome.splits)

text \<open>An invariant of both parts is an invariant of the composition.\<close>

definition preserves :: "('s \<Rightarrow> bool) \<Rightarrow> ('s, 'a) action \<Rightarrow> bool" where
  "preserves P m \<longleftrightarrow> (\<forall>s. P s \<longrightarrow> P (snd (m s)))"

lemma preservesI: "(\<And>s. P s \<Longrightarrow> P (snd (m s))) \<Longrightarrow> preserves P m"
  by (simp add: preserves_def)

lemma preservesD: "preserves P m \<Longrightarrow> P s \<Longrightarrow> P (snd (m s))"
  by (simp add: preserves_def)

lemma preservesE: "preserves P m \<Longrightarrow> P s \<Longrightarrow> m s = (r, s') \<Longrightarrow> P s'"
  by (auto simp: preserves_def dest: spec[of _ s])

lemma preserves_return [intro]: "preserves P (ret x)"
  by (simp add: preserves_def action_simps)

lemma preserves_raise [intro]: "preserves P (throw e)"
  by (simp add: preserves_def action_simps)

lemma preserves_block [intro]: "preserves P block"
  by (simp add: preserves_def action_simps)

lemma preserves_modify: "(\<And>c. P c \<Longrightarrow> P (f c)) \<Longrightarrow> preserves P (modify f)"
  by (simp add: preserves_def action_simps)

lemma preserves_and_then:
  "preserves P m \<Longrightarrow> (\<And>x. preserves P (f x)) \<Longrightarrow> preserves P (and_then m f)"
  by (auto simp: preserves_def action_simps split: prod.splits outcome.splits)

lemma preserves_try_finally:
  assumes "preserves P m" and "\<And>b. preserves P (f b)"
  shows "preserves P (try_finally m f)"
proof (rule preservesI)
  fix s
  assume "P s"
  obtain r s' where ms: "m s = (r, s')" by (cases "m s")
  have s': "P s'" by (rule preservesE[OF assms(1) \<open>P s\<close> ms])
  have f': "P (snd (f b s'))" for b by (rule preservesD[OF assms(2) s'])
  show "P (snd (try_finally m f s))"
    using f'[of True] f'[of False] s'
    by (auto simp: action_simps ms split: outcome.splits prod.splits)
qed

section \<open>Python strings and slices\<close>

text \<open>
  A \<open>char\<close> stands for one of the code points U+0000 to U+00FF, a byte for an \<open>8 word\<close>. Slices are
  taken with bounds that are not negative, as everywhere in the code.
\<close>

type_synonym bytes = "8 word list"

definition py_slice :: "nat \<Rightarrow> nat \<Rightarrow> 'a list \<Rightarrow> 'a list" where
  "py_slice i j xs = take (j - i) (drop i xs)"

text \<open>\<^verbatim>\<open>str.isspace()\<close> on one code point, which is what \<^verbatim>\<open>strip()\<close> removes.\<close>

definition is_space :: "char \<Rightarrow> bool" where
  "is_space c \<longleftrightarrow> (let n = (of_char c :: nat) in
     (9 \<le> n \<and> n \<le> 13) \<or> (28 \<le> n \<and> n \<le> 32) \<or> n = 133 \<or> n = 160)"

definition lstrip :: "string \<Rightarrow> string" where
  "lstrip s = dropWhile is_space s"

definition rstrip :: "string \<Rightarrow> string" where
  "rstrip s = rev (dropWhile is_space (rev s))"

definition strip :: "string \<Rightarrow> string" where
  "strip s = lstrip (rstrip s)"

text \<open>\<^verbatim>\<open>sep.join(parts)\<close> and \<^verbatim>\<open>s.split(c)\<close> for a one-character separator.\<close>

fun join :: "'a list \<Rightarrow> 'a list list \<Rightarrow> 'a list" where
  "join sep [] = []"
| "join sep [x] = x"
| "join sep (x # y # zs) = x @ sep @ join sep (y # zs)"

fun split_on :: "'a \<Rightarrow> 'a list \<Rightarrow> 'a list list" where
  "split_on c [] = [[]]"
| "split_on c (x # xs) =
     (if x = c then [] # split_on c xs
      else (case split_on c xs of y # ys \<Rightarrow> (x # y) # ys | [] \<Rightarrow> [[x]]))"

text \<open>\<^verbatim>\<open>s.partition(c)\<close>: the part before the first \<open>c\<close>, whether there is one, the part after it.\<close>

definition partition_on :: "'a \<Rightarrow> 'a list \<Rightarrow> 'a list \<times> bool \<times> 'a list" where
  "partition_on c s =
     (let h = takeWhile (\<lambda>x. x \<noteq> c) s
      in if length h < length s then (h, True, drop (Suc (length h)) s) else (s, False, []))"

text \<open>\<^verbatim>\<open>s.rpartition(c)\<close>: the part before the last \<open>c\<close>, whether there is one, the part after it.\<close>

definition rpartition_on :: "'a \<Rightarrow> 'a list \<Rightarrow> 'a list \<times> bool \<times> 'a list" where
  "rpartition_on c s =
     (case partition_on c (rev s) of
        (t, True, h) \<Rightarrow> (rev h, True, rev t)
      | (t, False, _) \<Rightarrow> ([], False, s))"

lemma split_on_not_Nil [simp]: "split_on c s \<noteq> []"
  by (cases s) (auto split: list.split)

lemma split_on_no_sep: "c \<notin> set s \<Longrightarrow> split_on c s = [s]"
  by (induction s) auto

lemma split_on_append_sep: "c \<notin> set s \<Longrightarrow> split_on c (s @ c # t) = s # split_on c t"
  by (induction s) auto

lemma split_on_join:
  "xs \<noteq> [] \<Longrightarrow> \<forall>x \<in> set xs. c \<notin> set x \<Longrightarrow> split_on c (join [c] xs) = xs"
  by (induction "[c]" xs rule: join.induct) (simp_all add: split_on_no_sep split_on_append_sep)

lemma partition_on_sep: "c \<notin> set s \<Longrightarrow> partition_on c (s @ c # t) = (s, True, t)"
proof -
  assume "c \<notin> set s"
  then have "takeWhile (\<lambda>x. x \<noteq> c) (s @ c # t) = s"
    by (subst takeWhile_append2) auto
  then show ?thesis by (simp add: partition_on_def Let_def)
qed

lemma partition_on_no_sep: "c \<notin> set s \<Longrightarrow> partition_on c s = (s, False, [])"
proof -
  assume "c \<notin> set s"
  then have tw: "takeWhile (\<lambda>x. x \<noteq> c) s = s" by (auto simp: takeWhile_eq_all_conv)
  show ?thesis unfolding partition_on_def Let_def tw by simp
qed

lemma rpartition_on_sep: "c \<notin> set t \<Longrightarrow> rpartition_on c (s @ c # t) = (s, True, t)"
  using partition_on_sep[of c "rev t" "rev s"] by (simp add: rpartition_on_def)

lemma rpartition_on_no_sep: "c \<notin> set s \<Longrightarrow> rpartition_on c s = ([], False, s)"
  using partition_on_no_sep[of c "rev s"] by (simp add: rpartition_on_def)

lemma join_append:
  "xs \<noteq> [] \<Longrightarrow> ys \<noteq> [] \<Longrightarrow> join sep (xs @ ys) = join sep xs @ sep @ join sep ys"
proof (induction sep xs rule: join.induct)
  case (2 sep x)
  then show ?case by (cases ys) simp_all
qed simp_all

lemma join_Cons: "ys \<noteq> [] \<Longrightarrow> join sep (x # ys) = x @ sep @ join sep ys"
  by (cases ys) simp_all

lemma rstrip_append: "rstrip t \<noteq> [] \<Longrightarrow> rstrip (s @ t) = s @ rstrip t"
  by (auto simp: rstrip_def dropWhile_append dropWhile_eq_Nil_conv)

lemma rstrip_id: "s \<noteq> [] \<Longrightarrow> \<not> is_space (last s) \<Longrightarrow> rstrip s = s"
  by (cases s rule: rev_cases) (simp_all add: rstrip_def)

lemma rstrip_spaces: "\<forall>c \<in> set t. is_space c \<Longrightarrow> rstrip (s @ t) = rstrip s"
  by (simp add: rstrip_def dropWhile_append)

lemma lstrip_id: "s \<noteq> [] \<Longrightarrow> \<not> is_space (hd s) \<Longrightarrow> lstrip s = s"
  by (cases s) (simp_all add: lstrip_def)

lemma is_space_blank [simp]: "is_space CHR '' ''"
  by (simp add: is_space_def)

end
