(* ===== verification/Lifecycle.thy ===== *)
theory Lifecycle
  imports Prelude
begin

text \<open>
  The contract shared by connections and listeners: a four-state life cycle whose every change
  is announced to observers. The locale \<open>announced_state\<close> is the interface of a state setter
  that announces each change, \<open>lifecycle\<close> that of the two operations \<^verbatim>\<open>open()\<close> and
  \<^verbatim>\<open>close()\<close> over it. The theories \<open>Connection_Base\<close> and \<open>Listener_Base\<close> interpret both on
  their own definitions; the lemmas proved here hold for either.
\<close>

section \<open>The announcements of a sequence of states\<close>

text \<open>
  What observers see when the state takes the values \<open>ts\<close> one after the other, starting from
  \<open>s\<close>: nothing where the value repeats, the announcement of the change otherwise.
\<close>

fun announce_path :: "('s \<Rightarrow> 's \<Rightarrow> 'e list) \<Rightarrow> 's \<Rightarrow> 's list \<Rightarrow> 'e list" where
  "announce_path a s [] = []"
| "announce_path a s (t # ts) =
     (if t = s then announce_path a s ts else a s t @ announce_path a t ts)"

lemma announce_path_append:
  "announce_path a s (ts @ us) = announce_path a s ts @ announce_path a (last (s # ts)) us"
  by (induction ts arbitrary: s) auto

section \<open>An announced state\<close>

locale announced_state =
  fixes state :: "'c \<Rightarrow> 's"
    and set_to :: "'s \<Rightarrow> 'c \<Rightarrow> 'c"
    and log :: "'c \<Rightarrow> 'e list"
    and announce :: "'s \<Rightarrow> 's \<Rightarrow> 'e list"
    and consistent :: "'c \<Rightarrow> bool"
  assumes state_set: "consistent c \<Longrightarrow> state (set_to s c) = s"
    and consistent_set: "consistent c \<Longrightarrow> consistent (set_to s c)"
    and set_same: "set_to (state c) c = c"
    and log_set: "consistent c \<Longrightarrow> s \<noteq> state c \<Longrightarrow> log (set_to s c) = log c @ announce (state c) s"
begin

lemma log_set_path:
  "consistent c \<Longrightarrow> log (set_to s c) = log c @ announce_path announce (state c) [s]"
  by (cases "s = state c") (simp_all add: set_same log_set)

lemma fold_set_consistent: "consistent c \<Longrightarrow> consistent (fold set_to ts c)"
  by (induction ts arbitrary: c) (simp_all add: consistent_set)

lemma fold_set_state: "consistent c \<Longrightarrow> state (fold set_to ts c) = last (state c # ts)"
  by (induction ts arbitrary: c) (simp_all add: consistent_set state_set)

lemma fold_set_log:
  "consistent c \<Longrightarrow> log (fold set_to ts c) = log c @ announce_path announce (state c) ts"
proof (induction ts arbitrary: c)
  case Nil
  then show ?case by simp
next
  case (Cons t ts)
  have "log (fold set_to ts (set_to t c)) =
      log (set_to t c) @ announce_path announce (state (set_to t c)) ts"
    using Cons by (simp add: consistent_set)
  then show ?case
    using Cons.prems by (simp add: state_set log_set set_same)
qed

text \<open>A hook that leaves the life cycle alone: it may change everything else.\<close>

definition frame :: "('c, 'a) action \<Rightarrow> bool" where
  "frame m \<longleftrightarrow> (\<forall>c. consistent c \<longrightarrow>
     consistent (snd (m c)) \<and> state (snd (m c)) = state c \<and> log (snd (m c)) = log c)"

lemma frameD:
  assumes "frame m" and "consistent c" and "m c = (r, c')"
  shows "consistent c'" and "state c' = state c" and "log c' = log c"
proof -
  have "consistent (snd (m c)) \<and> state (snd (m c)) = state c \<and> log (snd (m c)) = log c"
    using assms(1,2) unfolding frame_def by blast
  then show "consistent c'" and "state c' = state c" and "log c' = log c"
    using assms(3) by simp_all
qed

end

section \<open>Opening and closing\<close>

text \<open>
  A phase of the life cycle: announce the transitional state, run the hook, announce the
  state the hook's success leads to, or the state to fall back to.
\<close>

definition phase :: "('s \<Rightarrow> 'c \<Rightarrow> 'c) \<Rightarrow> 's \<Rightarrow> 's \<Rightarrow> 's \<Rightarrow> ('c, unit) action \<Rightarrow> ('c, unit) action" where
  "phase set_to via good bad hook =
     and_then (modify (set_to via))
       (\<lambda>_. try_finally hook (\<lambda>success. modify (set_to (if success then good else bad))))"

locale lifecycle = announced_state state set_to log announce consistent
  for state :: "'c \<Rightarrow> 's"
    and set_to :: "'s \<Rightarrow> 'c \<Rightarrow> 'c"
    and log :: "'c \<Rightarrow> 'e list"
    and announce :: "'s \<Rightarrow> 's \<Rightarrow> 'e list"
    and consistent :: "'c \<Rightarrow> bool" +
  fixes up down going_up going_down :: 's
    and op cl :: "('c, unit) action \<Rightarrow> ('c, unit) action"
  assumes distinct_states: "distinct [up, down, going_up, going_down]"
    and states: "s \<in> {up, down, going_up, going_down}"
    and op_up: "state c = up \<Longrightarrow> op hook c = (Returns (), c)"
    and op_down: "state c = down \<Longrightarrow> op hook c = phase set_to going_up up down hook c"
    and op_moving: "consistent c \<Longrightarrow> state c \<in> {going_up, going_down} \<Longrightarrow> op hook c = (Blocks, c)"
    and cl_down: "state c = down \<Longrightarrow> cl hook c = (Returns (), c)"
    and cl_up: "state c = up \<Longrightarrow> cl hook c = phase set_to going_down down up hook c"
    and cl_moving: "consistent c \<Longrightarrow> state c \<in> {going_up, going_down} \<Longrightarrow> cl hook c = (Blocks, c)"
begin

lemma state_neqs [simp]:
  "up \<noteq> down" "down \<noteq> up" "up \<noteq> going_up" "going_up \<noteq> up" "up \<noteq> going_down" "going_down \<noteq> up"
  "down \<noteq> going_up" "going_up \<noteq> down" "down \<noteq> going_down" "going_down \<noteq> down"
  "going_up \<noteq> going_down" "going_down \<noteq> going_up"
  using distinct_states by auto

text \<open>How a phase ends, by the outcome of its hook.\<close>

lemma phase_result:
  assumes "frame hook" and "consistent c"
    and "hook (set_to via c) = (r, d)"
  shows "phase set_to via good bad hook c =
      (r, case r of Returns _ \<Rightarrow> set_to good d | Raises _ \<Rightarrow> set_to bad d | Blocks \<Rightarrow> d)"
    and "consistent d" and "state d = via"
    and "log d = log c @ announce_path announce (state c) [via]"
proof -
  have c': "consistent (set_to via c)" using assms(2) by (rule consistent_set)
  show "phase set_to via good bad hook c =
      (r, case r of Returns _ \<Rightarrow> set_to good d | Raises _ \<Rightarrow> set_to bad d | Blocks \<Rightarrow> d)"
    using assms(3) by (cases r) (simp_all add: phase_def action_simps)
  show "consistent d" and "state d = via"
    using frameD[OF assms(1) c' assms(3)] by (simp_all add: state_set assms(2))
  show "log d = log c @ announce_path announce (state c) [via]"
    using frameD(3)[OF assms(1) c' assms(3)] log_set_path[OF assms(2)] by simp
qed

lemma op_consistent:
  assumes "frame hook" and "consistent c"
  shows "consistent (snd (op hook c))"
proof -
  obtain r d where h: "hook (set_to going_up c) = (r, d)" by (cases "hook (set_to going_up c)")
  note ph1 = phase_result(1)[OF assms h, of up down] and ph = phase_result(2-4)[OF assms h]
  from states[of "state c"] show ?thesis
    using ph1 ph(1) assms(2)
    by (auto simp: op_up op_down op_moving consistent_set split: outcome.splits)
qed

lemma cl_consistent:
  assumes "frame hook" and "consistent c"
  shows "consistent (snd (cl hook c))"
proof -
  obtain r d where h: "hook (set_to going_down c) = (r, d)" by (cases "hook (set_to going_down c)")
  note ph1 = phase_result(1)[OF assms h, of down up] and ph = phase_result(2-4)[OF assms h]
  from states[of "state c"] show ?thesis
    using ph1 ph(1) assms(2)
    by (auto simp: cl_up cl_down cl_moving consistent_set split: outcome.splits)
qed

text \<open>Where \<^verbatim>\<open>open()\<close> returns, the object is up; where it raises, it is down again.\<close>

lemma op_outcome:
  assumes "frame hook" and "consistent c" and "op hook c = (r, c')"
  shows "case r of Returns _ \<Rightarrow> state c' = up
      | Raises _ \<Rightarrow> state c = down \<and> state c' = down
      | Blocks \<Rightarrow> state c' \<in> {going_up, going_down}"
proof -
  obtain q d where h: "hook (set_to going_up c) = (q, d)" by (cases "hook (set_to going_up c)")
  note ph1 = phase_result(1)[OF assms(1,2) h, of up down] and ph = phase_result(2-4)[OF assms(1,2) h]
  from states[of "state c"] show ?thesis
    using ph1 ph assms(2,3)
    by (auto simp: op_up op_down op_moving state_set split: outcome.splits)
qed

lemma cl_outcome:
  assumes "frame hook" and "consistent c" and "cl hook c = (r, c')"
  shows "case r of Returns _ \<Rightarrow> state c' = down
      | Raises _ \<Rightarrow> state c = up \<and> state c' = up
      | Blocks \<Rightarrow> state c' \<in> {going_up, going_down}"
proof -
  obtain q d where h: "hook (set_to going_down c) = (q, d)" by (cases "hook (set_to going_down c)")
  note ph1 = phase_result(1)[OF assms(1,2) h, of down up] and ph = phase_result(2-4)[OF assms(1,2) h]
  from states[of "state c"] show ?thesis
    using ph1 ph assms(2,3)
    by (auto simp: cl_up cl_down cl_moving state_set split: outcome.splits)
qed

text \<open>Opening from the down state: the whole effect, announcements included.\<close>

lemma op_from_down:
  assumes "frame hook" and "consistent c" and "state c = down" and "op hook c = (r, c')"
  shows "log c' = log c @ announce_path announce down
      (going_up # (case r of Returns _ \<Rightarrow> [up] | Raises _ \<Rightarrow> [down] | Blocks \<Rightarrow> []))"
proof -
  obtain q d where h: "hook (set_to going_up c) = (q, d)" by (cases "hook (set_to going_up c)")
  note ph1 = phase_result(1)[OF assms(1,2) h, of up down] and ph = phase_result(2-4)[OF assms(1,2) h]
  have "r = q" and c': "c' = (case r of Returns _ \<Rightarrow> set_to up d | Raises _ \<Rightarrow> set_to down d | Blocks \<Rightarrow> d)"
    using assms(3,4) ph1 by (auto simp: op_down)
  show ?thesis
    using ph assms(3) unfolding c'
    by (cases r) (simp_all add: log_set)
qed

lemma cl_from_up:
  assumes "frame hook" and "consistent c" and "state c = up" and "cl hook c = (r, c')"
  shows "log c' = log c @ announce_path announce up
      (going_down # (case r of Returns _ \<Rightarrow> [down] | Raises _ \<Rightarrow> [up] | Blocks \<Rightarrow> []))"
proof -
  obtain q d where h: "hook (set_to going_down c) = (q, d)" by (cases "hook (set_to going_down c)")
  note ph1 = phase_result(1)[OF assms(1,2) h, of down up] and ph = phase_result(2-4)[OF assms(1,2) h]
  have "r = q" and c': "c' = (case r of Returns _ \<Rightarrow> set_to down d | Raises _ \<Rightarrow> set_to up d | Blocks \<Rightarrow> d)"
    using assms(3,4) ph1 by (auto simp: cl_up)
  show ?thesis
    using ph assms(3) unfolding c'
    by (cases r) (simp_all add: log_set)
qed

text \<open>Opening twice is opening once.\<close>

lemma op_idempotent:
  assumes "frame hook" and "consistent c" and "op hook c = (Returns u, c')"
  shows "op hook' c' = (Returns (), c')"
  using op_outcome[OF assms] by (simp add: op_up)

lemma cl_idempotent:
  assumes "frame hook" and "consistent c" and "cl hook c = (Returns u, c')"
  shows "cl hook' c' = (Returns (), c')"
  using cl_outcome[OF assms] by (simp add: cl_down)

end

end
