(* ===== verification/Connection_Base.thy ===== *)
theory Connection_Base
  imports Lifecycle
begin

text \<open>
  \<^verbatim>\<open>ConnectionState\<close> and \<^verbatim>\<open>ConnectionBase\<close> of \<^verbatim>\<open>connections/base.py\<close>: the four-state life
  cycle, the two \<^verbatim>\<open>AsyncBool\<close> flags, the signals, and \<^verbatim>\<open>open()\<close> / \<^verbatim>\<open>close()\<close> as one task runs
  them. The hooks \<^verbatim>\<open>_open()\<close> and \<^verbatim>\<open>_close()\<close>, abstract in the class, are arguments. A subclass
  is an extension of the record \<open>connection\<close> with its own fields and hooks.

  What the interleaving of several tasks adds is in the theory \<open>Connection_Tasks\<close>.
\<close>

section \<open>State\<close>

datatype connection_state = DISCONNECTED | CONNECTING | CONNECTED | DISCONNECTING

fun is_transitioning :: "connection_state \<Rightarrow> bool" where
  "is_transitioning CONNECTING = True"
| "is_transitioning DISCONNECTING = True"
| "is_transitioning _ = False"

text \<open>The signals of the class, as they are sent.\<close>

datatype conn_signal =
    StateChanged connection_state connection_state
  | Connected
  | Disconnected

text \<open>
  \<open>conn_state\<close> is \<^verbatim>\<open>_state\<close>; the two flags are the values of \<^verbatim>\<open>_is_connected\<close> and
  \<^verbatim>\<open>_is_disconnected\<close>; \<open>sent\<close> lists the signals sent so far, oldest first. The receivers of
  the signals are outside the package: they are taken not to raise and not to call back.
\<close>

record connection =
  conn_state :: connection_state
  is_connected_flag :: bool
  is_disconnected_flag :: bool
  sent :: "conn_signal list"

definition init_connection :: connection where
  "init_connection =
     \<lparr>conn_state = DISCONNECTED, is_connected_flag = False,
      is_disconnected_flag = True, sent = []\<rparr>"

definition is_disconnected :: "'a connection_scheme \<Rightarrow> bool" where
  "is_disconnected c \<longleftrightarrow> conn_state c = DISCONNECTED"

definition is_connected :: "'a connection_scheme \<Rightarrow> bool" where
  "is_connected c \<longleftrightarrow> conn_state c = CONNECTED"

definition send_signal :: "conn_signal \<Rightarrow> 'a connection_scheme \<Rightarrow> 'a connection_scheme" where
  "send_signal sig c = c\<lparr>sent := sent c @ [sig]\<rparr>"

text \<open>\<^verbatim>\<open>_set_state()\<close>: its four conditional statements, then the method itself in their order.\<close>

definition note_connected :: "connection_state \<Rightarrow> 'a connection_scheme \<Rightarrow> 'a connection_scheme" where
  "note_connected new_state c =
     (if \<not> is_connected_flag c \<and> new_state = CONNECTED
      then send_signal Connected (c\<lparr>is_connected_flag := True\<rparr>) else c)"

definition note_disconnected :: "connection_state \<Rightarrow> 'a connection_scheme \<Rightarrow> 'a connection_scheme" where
  "note_disconnected new_state c =
     (if \<not> is_disconnected_flag c \<and> new_state = DISCONNECTED
      then send_signal Disconnected (c\<lparr>is_disconnected_flag := True\<rparr>) else c)"

definition clear_connected :: "connection_state \<Rightarrow> 'a connection_scheme \<Rightarrow> 'a connection_scheme" where
  "clear_connected new_state c =
     (if is_connected_flag c \<and> new_state \<noteq> CONNECTED then c\<lparr>is_connected_flag := False\<rparr> else c)"

definition clear_disconnected :: "connection_state \<Rightarrow> 'a connection_scheme \<Rightarrow> 'a connection_scheme" where
  "clear_disconnected new_state c =
     (if is_disconnected_flag c \<and> new_state \<noteq> DISCONNECTED then c\<lparr>is_disconnected_flag := False\<rparr> else c)"

definition set_state :: "connection_state \<Rightarrow> 'a connection_scheme \<Rightarrow> 'a connection_scheme" where
  "set_state new_state c =
     (let old_state = conn_state c in
      if new_state = old_state then c
      else clear_disconnected new_state
            (clear_connected new_state
              (note_disconnected new_state
                (note_connected new_state
                  (send_signal (StateChanged old_state new_state)
                    (c\<lparr>conn_state := new_state\<rparr>))))))"

section \<open>Opening and closing\<close>

definition wait_until_connected :: "('a connection_scheme, unit) action" where
  "wait_until_connected c = (if is_connected_flag c then (Returns (), c) else (Blocks, c))"

definition wait_until_disconnected :: "('a connection_scheme, unit) action" where
  "wait_until_disconnected c = (if is_disconnected_flag c then (Returns (), c) else (Blocks, c))"

text \<open>The part of \<^verbatim>\<open>open()\<close> and \<^verbatim>\<open>close()\<close> after the dispatch on the state.\<close>

definition open_body :: "('a connection_scheme, unit) action \<Rightarrow> ('a connection_scheme, unit) action" where
  "open_body hook =
     and_then (modify (set_state CONNECTING))
       (\<lambda>_. try_finally hook
          (\<lambda>success. modify (set_state (if success then CONNECTED else DISCONNECTED))))"

definition close_body :: "('a connection_scheme, unit) action \<Rightarrow> ('a connection_scheme, unit) action" where
  "close_body hook =
     and_then (modify (set_state DISCONNECTING))
       (\<lambda>_. try_finally hook
          (\<lambda>success. modify (set_state (if success then DISCONNECTED else CONNECTED))))"

definition conn_open :: "('a connection_scheme, unit) action \<Rightarrow> ('a connection_scheme, unit) action" where
  "conn_open hook c =
     (case conn_state c of
        CONNECTED \<Rightarrow> (Returns (), c)
      | CONNECTING \<Rightarrow> wait_until_connected c
      | DISCONNECTING \<Rightarrow> and_then wait_until_disconnected (\<lambda>_. open_body hook) c
      | DISCONNECTED \<Rightarrow> open_body hook c)"

definition conn_close :: "('a connection_scheme, unit) action \<Rightarrow> ('a connection_scheme, unit) action" where
  "conn_close hook c =
     (case conn_state c of
        DISCONNECTED \<Rightarrow> (Returns (), c)
      | DISCONNECTING \<Rightarrow> wait_until_disconnected c
      | CONNECTING \<Rightarrow> and_then wait_until_connected (\<lambda>_. close_body hook) c
      | CONNECTED \<Rightarrow> close_body hook c)"

text \<open>
  \<^verbatim>\<open>async with connection: body\<close>: \<^verbatim>\<open>__aenter__\<close> opens, \<^verbatim>\<open>__aexit__\<close> closes whether or not
  the body raised; an exception of \<^verbatim>\<open>open()\<close> skips the body and the exit.
\<close>

definition with_connection ::
  "('a connection_scheme, unit) action \<Rightarrow> ('a connection_scheme, unit) action \<Rightarrow>
   ('a connection_scheme, 'b) action \<Rightarrow> ('a connection_scheme, 'b) action" where
  "with_connection open_hook close_hook body =
     and_then (conn_open open_hook)
       (\<lambda>_. try_finally body (\<lambda>_. conn_close close_hook))"

section \<open>The contract\<close>

text \<open>What the signals say of one change of state: \<^verbatim>\<open>state_changed\<close>, then the signal of the new state.\<close>

definition announce :: "connection_state \<Rightarrow> connection_state \<Rightarrow> conn_signal list" where
  "announce old_state new_state =
     StateChanged old_state new_state #
     (case new_state of CONNECTED \<Rightarrow> [Connected] | DISCONNECTED \<Rightarrow> [Disconnected] | _ \<Rightarrow> [])"

definition flags_ok :: "'a connection_scheme \<Rightarrow> bool" where
  "flags_ok c \<longleftrightarrow>
     is_connected_flag c = (conn_state c = CONNECTED) \<and>
     is_disconnected_flag c = (conn_state c = DISCONNECTED)"

text \<open>A hook that leaves the fields of \<^verbatim>\<open>ConnectionBase\<close> alone, as the class asks of its subclasses.\<close>

definition leaves_lifecycle :: "('a connection_scheme, 'b) action \<Rightarrow> bool" where
  "leaves_lifecycle m \<longleftrightarrow> (\<forall>c. flags_ok c \<longrightarrow>
     flags_ok (snd (m c)) \<and> conn_state (snd (m c)) = conn_state c \<and> sent (snd (m c)) = sent c)"

lemma flags_ok_init [simp]: "flags_ok init_connection"
  by (simp add: flags_ok_def init_connection_def)

lemma init_connection_simps [simp]:
  "conn_state init_connection = DISCONNECTED" "sent init_connection = []"
  "is_connected_flag init_connection = False" "is_disconnected_flag init_connection = True"
  by (simp_all add: init_connection_def)

lemma send_signal_simps [simp]:
  "conn_state (send_signal x c) = conn_state c"
  "is_connected_flag (send_signal x c) = is_connected_flag c"
  "is_disconnected_flag (send_signal x c) = is_disconnected_flag c"
  "sent (send_signal x c) = sent c @ [x]"
  "connection.more (send_signal x c) = connection.more c"
  by (simp_all add: send_signal_def)

lemma note_connected_simps [simp]:
  "conn_state (note_connected s c) = conn_state c"
  "is_connected_flag (note_connected s c) \<longleftrightarrow> is_connected_flag c \<or> s = CONNECTED"
  "is_disconnected_flag (note_connected s c) = is_disconnected_flag c"
  "sent (note_connected s c) =
     sent c @ (if \<not> is_connected_flag c \<and> s = CONNECTED then [Connected] else [])"
  "connection.more (note_connected s c) = connection.more c"
  by (auto simp: note_connected_def)

lemma note_disconnected_simps [simp]:
  "conn_state (note_disconnected s c) = conn_state c"
  "is_connected_flag (note_disconnected s c) = is_connected_flag c"
  "is_disconnected_flag (note_disconnected s c) \<longleftrightarrow> is_disconnected_flag c \<or> s = DISCONNECTED"
  "sent (note_disconnected s c) =
     sent c @ (if \<not> is_disconnected_flag c \<and> s = DISCONNECTED then [Disconnected] else [])"
  "connection.more (note_disconnected s c) = connection.more c"
  by (auto simp: note_disconnected_def)

lemma clear_connected_simps [simp]:
  "conn_state (clear_connected s c) = conn_state c"
  "is_connected_flag (clear_connected s c) \<longleftrightarrow> is_connected_flag c \<and> s = CONNECTED"
  "is_disconnected_flag (clear_connected s c) = is_disconnected_flag c"
  "sent (clear_connected s c) = sent c"
  "connection.more (clear_connected s c) = connection.more c"
  by (auto simp: clear_connected_def)

lemma clear_disconnected_simps [simp]:
  "conn_state (clear_disconnected s c) = conn_state c"
  "is_connected_flag (clear_disconnected s c) = is_connected_flag c"
  "is_disconnected_flag (clear_disconnected s c) \<longleftrightarrow> is_disconnected_flag c \<and> s = DISCONNECTED"
  "sent (clear_disconnected s c) = sent c"
  "connection.more (clear_disconnected s c) = connection.more c"
  by (auto simp: clear_disconnected_def)

lemma set_state_same [simp]: "set_state (conn_state c) c = c"
  by (simp add: set_state_def)

lemma set_state_fields:
  "conn_state (set_state s c) = s"
  "connection.more (set_state s c) = connection.more c"
  "s \<noteq> conn_state c \<Longrightarrow> is_connected_flag (set_state s c) = (s = CONNECTED)"
  "s \<noteq> conn_state c \<Longrightarrow> is_disconnected_flag (set_state s c) = (s = DISCONNECTED)"
  "s \<noteq> conn_state c \<Longrightarrow> sent (set_state s c) = sent c @ [StateChanged (conn_state c) s] @
     (if \<not> is_connected_flag c \<and> s = CONNECTED then [Connected] else []) @
     (if \<not> is_disconnected_flag c \<and> s = DISCONNECTED then [Disconnected] else [])"
  by (auto simp: set_state_def Let_def)

declare set_state_fields(1,2) [simp]

lemma flags_ok_set_state [simp]: "flags_ok c \<Longrightarrow> flags_ok (set_state s c)"
  by (cases "s = conn_state c") (simp_all add: flags_ok_def set_state_fields)

lemma flags_set_state [simp]:
  "flags_ok c \<Longrightarrow> is_connected_flag (set_state s c) = (s = CONNECTED)"
  "flags_ok c \<Longrightarrow> is_disconnected_flag (set_state s c) = (s = DISCONNECTED)"
  using flags_ok_set_state[of c s] by (simp_all add: flags_ok_def)

lemma sent_set_state:
  "flags_ok c \<Longrightarrow> s \<noteq> conn_state c \<Longrightarrow> sent (set_state s c) = sent c @ announce (conn_state c) s"
  by (cases s) (auto simp: flags_ok_def set_state_fields announce_def)

interpretation conn: lifecycle conn_state set_state sent announce flags_ok
    CONNECTED DISCONNECTED CONNECTING DISCONNECTING conn_open conn_close
proof (unfold_locales, goal_cases)
  case (4 c s)
  then show ?case by (rule sent_set_state)
next
  case (6 s)
  show ?case by (cases s) simp_all
qed (auto simp: conn_open_def conn_close_def open_body_def close_body_def phase_def
       wait_until_connected_def wait_until_disconnected_def flags_ok_def action_simps)

text \<open>What a call that returned has done.\<close>

lemma conn_open_returns:
  assumes "conn_open hook c = (Returns (), c')" and "conn_state c = DISCONNECTED"
  obtains d where "hook (set_state CONNECTING c) = (Returns (), d)" and "c' = set_state CONNECTED d"
proof -
  obtain r d where h: "hook (set_state CONNECTING c) = (r, d)" by (cases "hook (set_state CONNECTING c)")
  show thesis using assms h that by (cases r) (auto simp: conn_open_def open_body_def action_simps)
qed

lemma conn_close_returns:
  assumes "conn_close hook c = (Returns (), c')" and "conn_state c = CONNECTED"
  obtains d where "hook (set_state DISCONNECTING c) = (Returns (), d)" and "c' = set_state DISCONNECTED d"
proof -
  obtain r d where h: "hook (set_state DISCONNECTING c) = (r, d)" by (cases "hook (set_state DISCONNECTING c)")
  show thesis using assms h that by (cases r) (auto simp: conn_close_def close_body_def action_simps)
qed

text \<open>An invariant of the hook that the states do not touch is an invariant of opening and closing.\<close>

lemma preserves_waits [intro]:
  "preserves P wait_until_connected" "preserves P wait_until_disconnected"
  by (simp_all add: preserves_def wait_until_connected_def wait_until_disconnected_def)

lemma preserves_open_close:
  assumes "\<And>s c. P c \<Longrightarrow> P (set_state s c)" and "preserves P hook"
  shows "preserves P (conn_open hook)" and "preserves P (conn_close hook)"
proof -
  have b: "preserves P (open_body hook)" "preserves P (close_body hook)"
    unfolding open_body_def close_body_def
    by (auto intro!: preserves_and_then preserves_try_finally preserves_modify assms)
  have w: "preserves P (and_then wait_until_disconnected (\<lambda>_. open_body hook))"
    "preserves P (and_then wait_until_connected (\<lambda>_. close_body hook))"
    using b by (auto intro!: preserves_and_then)
  show "preserves P (conn_open hook)"
  proof (rule preservesI)
    fix c assume "P c"
    then show "P (snd (conn_open hook c))"
      using preservesD[OF b(1) \<open>P c\<close>] preservesD[OF w(1) \<open>P c\<close>] preservesD[OF preserves_waits(1)[of P] \<open>P c\<close>]
      by (simp add: conn_open_def split: connection_state.split)
  qed
  show "preserves P (conn_close hook)"
  proof (rule preservesI)
    fix c assume "P c"
    then show "P (snd (conn_close hook c))"
      using preservesD[OF b(2) \<open>P c\<close>] preservesD[OF w(2) \<open>P c\<close>] preservesD[OF preserves_waits(2)[of P] \<open>P c\<close>]
      by (simp add: conn_close_def split: connection_state.split)
  qed
qed

lemma frame_iff: "conn.frame m \<longleftrightarrow> leaves_lifecycle m"
  by (simp add: conn.frame_def leaves_lifecycle_def)

section \<open>Properties\<close>

text \<open>
  The signals of a connection are exactly the announcements of the states it went through:
  whatever sequence of states the code sets on a fresh connection, observers see one
  \<^verbatim>\<open>state_changed\<close> per real change, each followed by \<^verbatim>\<open>connected\<close> when the new state is
  \<open>CONNECTED\<close> and by \<^verbatim>\<open>disconnected\<close> when it is \<open>DISCONNECTED\<close>, and nothing for a repeated
  state; the two flags agree with the last state.
\<close>

theorem signals_announce_states:
  "sent (fold set_state ts init_connection) = announce_path announce DISCONNECTED ts \<and>
   conn_state (fold set_state ts init_connection) = last (DISCONNECTED # ts) \<and>
   flags_ok (fold set_state ts init_connection)"
  using conn.fold_set_log[OF flags_ok_init, of ts] conn.fold_set_state[OF flags_ok_init, of ts]
    conn.fold_set_consistent[OF flags_ok_init, of ts]
  by (simp add: init_connection_def)

text \<open>
  The outcome of \<^verbatim>\<open>open()\<close> for a single task: where it returns, the connection is
  \<open>CONNECTED\<close>; where it raises, the connection was \<open>DISCONNECTED\<close> and is so again, the
  exception is the hook's own; where it is suspended, the connection is in transition. A second
  \<^verbatim>\<open>open()\<close> after a successful one changes nothing.
\<close>

theorem conn_open_outcome:
  assumes "leaves_lifecycle hook" and "flags_ok c" and "conn_open hook c = (r, c')"
  shows "flags_ok c' \<and>
    (case r of
       Returns _ \<Rightarrow> conn_state c' = CONNECTED \<and> conn_open hook' c' = (Returns (), c')
     | Raises e \<Rightarrow> conn_state c = DISCONNECTED \<and> conn_state c' = DISCONNECTED \<and>
                   fst (hook (set_state CONNECTING c)) = Raises e
     | Blocks \<Rightarrow> is_transitioning (conn_state c'))"
proof -
  have fr: "conn.frame hook" using assms(1) by (simp add: frame_iff)
  have cons: "flags_ok c'" using conn.op_consistent[OF fr assms(2)] assms(3) by simp
  note out = conn.op_outcome[OF fr assms(2,3)]
  show ?thesis
  proof (cases r)
    case (Returns u)
    then show ?thesis using cons out conn.op_idempotent[OF fr assms(2), of u c' hook'] assms(3) by simp
  next
    case (Raises e)
    obtain q d where h: "hook (set_state CONNECTING c) = (q, d)" by (cases "hook (set_state CONNECTING c)")
    have "q = r" using assms(3) out Raises conn.phase_result(1)[OF fr assms(2) h]
      by (simp add: conn.op_down)
    then show ?thesis using cons out Raises h by simp
  next
    case Blocks
    then show ?thesis using cons out by auto
  qed
qed

lemma leaves_lifecycle_ret [simp]: "leaves_lifecycle (ret x)"
  by (simp add: leaves_lifecycle_def action_simps)

lemma leaves_lifecycle_throw [simp]: "leaves_lifecycle (throw e)"
  by (simp add: leaves_lifecycle_def action_simps)

theorem conn_open_outcome_witness:
  "conn_open (throw (OSError 13)) init_connection =
     (Raises (OSError 13), set_state DISCONNECTED (set_state CONNECTING init_connection)) \<and>
   conn_state (set_state DISCONNECTED (set_state CONNECTING init_connection)) = DISCONNECTED"
proof -
  have run: "conn_open (throw (OSError 13)) init_connection =
     (Raises (OSError 13), set_state DISCONNECTED (set_state CONNECTING init_connection))"
    by (simp add: conn_open_def open_body_def action_simps init_connection_def)
  show ?thesis using run conn_open_outcome[OF _ _ run] by simp
qed

text \<open>Each phase by the outcome of its hook.\<close>

lemma leaves_lifecycleD:
  assumes "leaves_lifecycle m" and "flags_ok c" and "m c = (r, c')"
  shows "flags_ok c'" and "conn_state c' = conn_state c" and "sent c' = sent c"
  using conn.frameD[of m c r c'] assms by (simp_all add: frame_iff)

lemma opening_phase:
  assumes "leaves_lifecycle hook" and "flags_ok c" and "conn_state c = DISCONNECTED" and "conn_open hook c = (r, d)"
  shows "flags_ok d \<and>
    (case r of
       Returns _ \<Rightarrow> conn_state d = CONNECTED \<and>
         sent d = sent c @ [StateChanged DISCONNECTED CONNECTING, StateChanged CONNECTING CONNECTED, Connected]
     | Raises e \<Rightarrow> conn_state d = DISCONNECTED
     | Blocks \<Rightarrow> conn_state d = CONNECTING)"
proof -
  obtain q h where h: "hook (set_state CONNECTING c) = (q, h)" by (cases "hook (set_state CONNECTING c)")
  have f: "flags_ok h" "conn_state h = CONNECTING"
    "sent h = sent c @ [StateChanged DISCONNECTED CONNECTING]"
    using leaves_lifecycleD[OF assms(1) _ h] assms(2,3) by (simp_all add: sent_set_state announce_def)
  show ?thesis using assms(3,4) h f
    by (cases q) (auto simp: conn_open_def open_body_def action_simps sent_set_state announce_def)
qed

lemma closing_phase:
  assumes "leaves_lifecycle hook" and "flags_ok c" and "conn_state c = CONNECTED" and "conn_close hook c = (r, d)"
  shows "r = fst (hook (set_state DISCONNECTING c)) \<and>
    (case r of
       Returns _ \<Rightarrow> conn_state d = DISCONNECTED \<and>
         sent d = sent c @ [StateChanged CONNECTED DISCONNECTING, StateChanged DISCONNECTING DISCONNECTED, Disconnected]
     | Raises e \<Rightarrow> conn_state d = CONNECTED
     | Blocks \<Rightarrow> conn_state d = DISCONNECTING)"
proof -
  obtain q h where h: "hook (set_state DISCONNECTING c) = (q, h)" by (cases "hook (set_state DISCONNECTING c)")
  have f: "flags_ok h" "conn_state h = DISCONNECTING"
    "sent h = sent c @ [StateChanged CONNECTED DISCONNECTING]"
    using leaves_lifecycleD[OF assms(1) _ h] assms(2,3) by (simp_all add: sent_set_state announce_def)
  show ?thesis using assms(3,4) h f
    by (cases q) (auto simp: conn_close_def close_body_def action_simps sent_set_state announce_def)
qed

text \<open>
  C29. \<^verbatim>\<open>async with connection: body\<close> on a closed connection, in a task that is alone with it, with hooks
  that do not touch the life cycle themselves. If \<^verbatim>\<open>open()\<close> raises, so does the block, without running
  the body. Otherwise the body runs on an open connection. It may do with the connection what it likes,
  as reading up to the end of a stream does, which closes it; then it depends on the state it leaves. A
  connection that it leaves closed stays so, and the outcome of the body is that of the block. One that it
  leaves open goes through the hook of \<^verbatim>\<open>close()\<close>: if that returns, the connection is closed and the
  outcome of the body, a result or an exception, is that of the block; if that raises, as a hook with a
  checkpoint does when the body was cancelled, its exception replaces the outcome of the body and the
  connection stays open. A block whose body, hook or wait does not end does not end either.
\<close>

theorem with_connection_cycle:
  assumes "leaves_lifecycle oh" and "leaves_lifecycle ch" and "\<And>d. flags_ok d \<Longrightarrow> flags_ok (snd (body d))"
    and "flags_ok c" and "conn_state c = DISCONNECTED"
    and "with_connection oh ch body c = (r, c')"
  shows "case conn_open oh c of
      (Raises e, d) \<Rightarrow> r = Raises e \<and> c' = d \<and> conn_state d = DISCONNECTED
    | (Blocks, d) \<Rightarrow> r = Blocks \<and> c' = d \<and> conn_state d = CONNECTING
    | (Returns _, d) \<Rightarrow>
        conn_state d = CONNECTED \<and>
        sent d = sent c @ [StateChanged DISCONNECTED CONNECTING, StateChanged CONNECTING CONNECTED, Connected] \<and>
        (case body d of (b, d') \<Rightarrow>
           if b = Blocks then r = Blocks \<and> c' = d'
           else (case conn_state d' of
                   DISCONNECTED \<Rightarrow> r = b \<and> c' = d'
                 | CONNECTED \<Rightarrow>
                     (case fst (ch (set_state DISCONNECTING d')) of
                        Returns _ \<Rightarrow> r = b \<and> conn_state c' = DISCONNECTED \<and>
                          sent c' = sent d' @ [StateChanged CONNECTED DISCONNECTING,
                            StateChanged DISCONNECTING DISCONNECTED, Disconnected]
                      | Raises e \<Rightarrow> r = Raises e \<and> conn_state c' = CONNECTED
                      | Blocks \<Rightarrow> r = Blocks \<and> conn_state c' = DISCONNECTING)
                 | _ \<Rightarrow> r = Blocks \<and> c' = d'))"
proof -
  obtain q d where o: "conn_open oh c = (q, d)" by (cases "conn_open oh c")
  obtain b d' where b: "body d = (b, d')" by (cases "body d")
  obtain k x where k: "conn_close ch d' = (k, x)" by (cases "conn_close ch d'")
  have op: "flags_ok d" "case q of
       Returns _ \<Rightarrow> conn_state d = CONNECTED \<and>
         sent d = sent c @ [StateChanged DISCONNECTED CONNECTING, StateChanged CONNECTING CONNECTED, Connected]
     | Raises e \<Rightarrow> conn_state d = DISCONNECTED
     | Blocks \<Rightarrow> conn_state d = CONNECTING"
    using opening_phase[OF assms(1,4,5) o] by auto
  have fl: "flags_ok d'" using assms(3)[OF op(1)] b by simp
  show ?thesis
  proof (cases q)
    case (Returns u)
    show ?thesis
    proof (cases "conn_state d'")
      case CONNECTED
      note cp = closing_phase[OF assms(2) fl CONNECTED k]
      note hook = cp[THEN conjunct1, symmetric]
      show ?thesis using assms(6) o op(2) b k Returns CONNECTED cp[THEN conjunct2]
        by (cases b; cases k) (auto simp: with_connection_def action_simps hook)
    qed (use assms(6) o op(2) b k fl Returns in
          \<open>cases b; auto simp: with_connection_def action_simps conn_close_def wait_until_disconnected_def
             wait_until_connected_def flags_ok_def\<close>)+
  qed (use assms(6) o op(2) in \<open>auto simp: with_connection_def action_simps\<close>)
qed

text \<open>A cancelled body, and a hook of \<^verbatim>\<open>close()\<close> that is cancelled, too, in its first checkpoint.\<close>

theorem with_connection_cycle_witness:
  "\<exists>c'. with_connection (ret ()) (throw Cancelled) (throw Cancelled :: (connection, nat) action) init_connection
          = (Raises Cancelled, c') \<and> conn_state c' = CONNECTED"
proof -
  obtain r c' where run: "with_connection (ret ()) (throw Cancelled)
      (throw Cancelled :: (connection, nat) action) init_connection = (r, c')" by fastforce
  have "r = Raises Cancelled \<and> conn_state c' = CONNECTED"
    using with_connection_cycle[OF _ _ _ _ _ run]
    by (simp add: action_simps conn_open_def open_body_def)
  with run show ?thesis by simp
qed

end
