(* ===== verification/Connection_Tasks.thy ===== *)
theory Connection_Tasks
  imports Connection_Base
begin

text \<open>
  \<^verbatim>\<open>open()\<close> and \<^verbatim>\<open>close()\<close> of \<^verbatim>\<open>ConnectionBase\<close> called by several Trio tasks on one connection.
  A task runs without interruption from one \<^verbatim>\<open>await\<close> to the next, so a step of the system is one
  task moving between two suspension points: a call, a resumption after a wait, the end of a hook.

  The wait primitive is \<^verbatim>\<open>AsyncBool.wait_value\<close> of \<^verbatim>\<open>trio_util\<close>: a task that waits for a value is
  released when the value is set, at once if it has the value already, and resumes later, when
  the scheduler gets to it; it does not look at the value again. The scheduler is arbitrary: any
  released task may be the next one to move.
\<close>

section \<open>The system\<close>

datatype call = Open | Close

text \<open>
  Where a task is: not in a call; suspended in \<^verbatim>\<open>wait_until_connected()\<close> or
  \<^verbatim>\<open>wait_until_disconnected()\<close> within a call (the flag says whether it has been released);
  inside the hook \<^verbatim>\<open>_open()\<close> or \<^verbatim>\<open>_close()\<close>; back from the call, normally or by an exception.
\<close>

datatype pc =
    Idle
  | Waiting call connection_state bool
  | InHook call
  | Done call
  | Failed call

record sys =
  link :: connection
  pcs :: "nat \<Rightarrow> pc"

definition init_sys :: sys where
  "init_sys = \<lparr>link = init_connection, pcs = (\<lambda>_. Idle)\<rparr>"

fun flag_of :: "connection_state \<Rightarrow> connection \<Rightarrow> bool" where
  "flag_of CONNECTED c = is_connected_flag c"
| "flag_of DISCONNECTED c = is_disconnected_flag c"
| "flag_of _ c = False"

text \<open>Setting a flag releases the tasks that wait for it.\<close>

fun release1 :: "connection \<Rightarrow> connection \<Rightarrow> pc \<Rightarrow> pc" where
  "release1 c c' (Waiting k st r) = Waiting k st (r \<or> (\<not> flag_of st c \<and> flag_of st c'))"
| "release1 c c' p = p"

definition change :: "connection_state \<Rightarrow> sys \<Rightarrow> sys" where
  "change new_state s =
     (let c' = set_state new_state (link s)
      in \<lparr>link = c', pcs = (\<lambda>t. release1 (link s) c' (pcs s t))\<rparr>)"

definition move :: "nat \<Rightarrow> pc \<Rightarrow> sys \<Rightarrow> sys" where
  "move t p s = s\<lparr>pcs := (pcs s)(t := p)\<rparr>"

text \<open>The states a call announces before its hook, after its success, after its failure.\<close>

fun via :: "call \<Rightarrow> connection_state" where
  "via Open = CONNECTING" | "via Close = DISCONNECTING"

fun good :: "call \<Rightarrow> connection_state" where
  "good Open = CONNECTED" | "good Close = DISCONNECTED"

fun bad :: "call \<Rightarrow> connection_state" where
  "bad Open = DISCONNECTED" | "bad Close = CONNECTED"

definition enter_hook :: "call \<Rightarrow> nat \<Rightarrow> sys \<Rightarrow> sys" where
  "enter_hook k t s = move t (InHook k) (change (via k) s)"

definition wait_for :: "call \<Rightarrow> connection_state \<Rightarrow> nat \<Rightarrow> sys \<Rightarrow> sys" where
  "wait_for k st t s = move t (Waiting k st (flag_of st (link s))) s"

text \<open>A call up to its first suspension or its return: the dispatch on the state.\<close>

definition begin_call :: "call \<Rightarrow> nat \<Rightarrow> sys \<Rightarrow> sys" where
  "begin_call k t s =
     (case (k, conn_state (link s)) of
        (Open, CONNECTED) \<Rightarrow> move t (Done Open) s
      | (Open, CONNECTING) \<Rightarrow> wait_for Open CONNECTED t s
      | (Open, DISCONNECTING) \<Rightarrow> wait_for Open DISCONNECTED t s
      | (Open, DISCONNECTED) \<Rightarrow> enter_hook Open t s
      | (Close, DISCONNECTED) \<Rightarrow> move t (Done Close) s
      | (Close, DISCONNECTING) \<Rightarrow> wait_for Close DISCONNECTED t s
      | (Close, CONNECTING) \<Rightarrow> wait_for Close CONNECTED t s
      | (Close, CONNECTED) \<Rightarrow> enter_hook Close t s)"

text \<open>
  What follows a wait. \<^verbatim>\<open>open()\<close> returns after waiting for \<open>CONNECTED\<close> and goes on to its body
  after waiting for \<open>DISCONNECTED\<close>; \<^verbatim>\<open>close()\<close> the other way round.
\<close>

definition after_wait :: "call \<Rightarrow> connection_state \<Rightarrow> nat \<Rightarrow> sys \<Rightarrow> sys" where
  "after_wait k st t s = (if st = good k then move t (Done k) s else enter_hook k t s)"

datatype event =
    Call call nat
  | Resume nat
  | HookReturns nat
  | HookRaises nat
  | Cancel nat

fun in_call :: "pc \<Rightarrow> bool" where
  "in_call (Waiting _ _ _) = True"
| "in_call (InHook _) = True"
| "in_call _ = False"

fun step :: "event \<Rightarrow> sys \<Rightarrow> sys option" where
  "step (Call k t) s = (if in_call (pcs s t) then None else Some (begin_call k t s))"
| "step (Resume t) s =
     (case pcs s t of Waiting k st True \<Rightarrow> Some (after_wait k st t s) | _ \<Rightarrow> None)"
| "step (HookReturns t) s =
     (case pcs s t of InHook k \<Rightarrow> Some (move t (Done k) (change (good k) s)) | _ \<Rightarrow> None)"
| "step (HookRaises t) s =
     (case pcs s t of InHook k \<Rightarrow> Some (move t (Failed k) (change (bad k) s)) | _ \<Rightarrow> None)"
| "step (Cancel t) s =
     (case pcs s t of Waiting k st r \<Rightarrow> Some (move t (Failed k) s) | _ \<Rightarrow> None)"

fun run :: "event list \<Rightarrow> sys \<Rightarrow> sys option" where
  "run [] s = Some s"
| "run (e # es) s = (case step e s of None \<Rightarrow> None | Some s' \<Rightarrow> run es s')"

inductive reachable :: "sys \<Rightarrow> bool" where
  start: "reachable init_sys"
| next_step: "reachable s \<Longrightarrow> step e s = Some s' \<Longrightarrow> reachable s'"

text \<open>
  A step is prompt if a task that waited in order to go on to a hook finds the connection in the
  state it waited for. Every other step is prompt.
\<close>

fun prompt :: "event \<Rightarrow> sys \<Rightarrow> bool" where
  "prompt (Resume t) s =
     (case pcs s t of Waiting k st r \<Rightarrow> st = good k \<or> conn_state (link s) = st | _ \<Rightarrow> True)"
| "prompt _ s = True"

inductive reachable_promptly :: "sys \<Rightarrow> bool" where
  start_prompt: "reachable_promptly init_sys"
| prompt_step: "reachable_promptly s \<Longrightarrow> prompt e s \<Longrightarrow> step e s = Some s' \<Longrightarrow> reachable_promptly s'"

section \<open>What one change of state does\<close>

lemma link_move [simp]: "link (move t p s) = link s"
  by (simp add: move_def)

lemma pcs_move: "pcs (move t p s) u = (if u = t then p else pcs s u)"
  by (simp add: move_def)

lemma link_change [simp]: "link (change st s) = set_state st (link s)"
  by (simp add: change_def Let_def)

lemma pcs_change: "pcs (change st s) t = release1 (link s) (set_state st (link s)) (pcs s t)"
  by (simp add: change_def Let_def)

lemma release1_InHook [simp]: "release1 c c' p = InHook k \<longleftrightarrow> p = InHook k"
  by (cases p) simp_all

lemma release1_Waiting:
  "release1 c c' p = Waiting k st r \<longleftrightarrow>
     (\<exists>q. p = Waiting k st q \<and> r = (q \<or> (\<not> flag_of st c \<and> flag_of st c')))"
  by (cases p) auto

lemmas sys_simps = pcs_move pcs_change release1_Waiting enter_hook_def wait_for_def after_wait_def

lemma begin_call_eq:
  "begin_call k t s =
     (let c = conn_state (link s) in
      if c = good k then move t (Done k) s
      else if c = via k then wait_for k (good k) t s
      else if c = bad k then enter_hook k t s
      else wait_for k (bad k) t s)"
  by (cases k; cases "conn_state (link s)") (simp_all add: begin_call_def)

lemma call_states [simp]:
  "good k \<noteq> bad k" "bad k \<noteq> good k" "via k \<noteq> good k" "via k \<noteq> bad k" "good k \<noteq> via k" "bad k \<noteq> via k"
  by (cases k; simp)+

lemma stable_good_bad: "good k = CONNECTED \<or> good k = DISCONNECTED" "bad k = CONNECTED \<or> bad k = DISCONNECTED"
  by (cases k; simp)+

definition waits_wf :: "sys \<Rightarrow> bool" where
  "waits_wf s \<longleftrightarrow> (\<forall>t k st r. pcs s t = Waiting k st r \<longrightarrow> st = good k \<or> st = bad k)"

text \<open>Every successful step has one of four shapes.\<close>

lemma step_cases:
  assumes "step e s = Some s'" and "waits_wf s"
  obtains
    (finish) t k p where "s' = move t p s" "p = Done k \<or> p = Failed k" "\<And>k. pcs s t \<noteq> InHook k"
  | (suspend) t k st where "s' = wait_for k st t s" "conn_state (link s) \<noteq> st"
        "st = good k \<or> st = bad k" "\<And>k. pcs s t \<noteq> InHook k"
  | (enter) t k where "s' = enter_hook k t s" "\<And>k. pcs s t \<noteq> InHook k"
        "prompt e s \<Longrightarrow> conn_state (link s) = bad k"
  | (leave) t k p st where "s' = move t p (change st s)" "pcs s t = InHook k"
        "p = Done k \<or> p = Failed k" "st = good k \<or> st = bad k"
proof (cases e)
  case (Call k t)
  with assms have no: "\<And>k. pcs s t \<noteq> InHook k" and s': "s' = begin_call k t s"
    by (auto split: if_splits)
  consider "conn_state (link s) = good k" | "conn_state (link s) = via k"
    | "conn_state (link s) = bad k"
    | "conn_state (link s) \<noteq> good k" "conn_state (link s) \<noteq> via k" "conn_state (link s) \<noteq> bad k"
    by blast
  then show thesis
  proof cases
    case 1
    then show thesis using s' no finish[of t "Done k" k] by (simp add: begin_call_eq)
  next
    case 2
    then show thesis using s' no suspend[of k "good k" t] by (simp add: begin_call_eq)
  next
    case 3
    then show thesis using s' no enter[of k t] by (simp add: begin_call_eq)
  next
    case 4
    then show thesis using s' no suspend[of k "bad k" t] by (simp add: begin_call_eq)
  qed
next
  case (Resume t)
  with assms(1) obtain k st where w: "pcs s t = Waiting k st True" and s': "s' = after_wait k st t s"
    by (auto split: pc.splits bool.splits)
  have st: "st = good k \<or> st = bad k" using assms(2) w by (auto simp: waits_wf_def)
  show thesis
  proof (cases "st = good k")
    case True
    then show thesis using s' w finish[of t "Done k" k] by (simp add: after_wait_def)
  next
    case False
    then show thesis using s' w st Resume enter[of k t] by (auto simp: after_wait_def)
  qed
next
  case (HookReturns t)
  with assms show thesis by (auto split: pc.splits intro: leave)
next
  case (HookRaises t)
  with assms show thesis by (auto split: pc.splits intro: leave)
next
  case (Cancel t)
  with assms show thesis by (auto split: pc.splits intro: finish)
qed

section \<open>Invariants of every interleaving\<close>

text \<open>A task that is still waiting waits for something that is not the case.\<close>

definition no_lost_wakeup :: "sys \<Rightarrow> bool" where
  "no_lost_wakeup s \<longleftrightarrow> (\<forall>t k st. pcs s t = Waiting k st False \<longrightarrow> conn_state (link s) \<noteq> st)"

text \<open>A connection in transition has a task inside the hook of that transition.\<close>

definition transition_owned :: "sys \<Rightarrow> bool" where
  "transition_owned s \<longleftrightarrow> (\<forall>k. conn_state (link s) = via k \<longrightarrow> (\<exists>t. pcs s t = InHook k))"

text \<open>The signals sent are the announcements of some sequence of states ending in the current one.\<close>

definition history_announced :: "sys \<Rightarrow> bool" where
  "history_announced s \<longleftrightarrow> (\<exists>ts. sent (link s) = announce_path announce DISCONNECTED ts \<and>
     conn_state (link s) = last (DISCONNECTED # ts))"

definition tasks_inv :: "sys \<Rightarrow> bool" where
  "tasks_inv s \<longleftrightarrow> waits_wf s \<and> flags_ok (link s) \<and> no_lost_wakeup s \<and>
     transition_owned s \<and> history_announced s"

lemma flag_of_stable:
  "flags_ok c \<Longrightarrow> st = good k \<or> st = bad k \<Longrightarrow> flag_of st c \<longleftrightarrow> conn_state c = st"
  by (cases k) (auto simp: flags_ok_def)

lemma waits_wf_change: "waits_wf s \<Longrightarrow> waits_wf (change st s)"
  by (fastforce simp: waits_wf_def pcs_change release1_Waiting)

lemma waits_wf_move:
  "waits_wf s \<Longrightarrow> (\<And>k st r. p = Waiting k st r \<Longrightarrow> st = good k \<or> st = bad k) \<Longrightarrow> waits_wf (move t p s)"
  by (auto simp: waits_wf_def pcs_move)

lemma no_lost_wakeup_change:
  assumes "waits_wf s" and "flags_ok (link s)" and "no_lost_wakeup s"
  shows "no_lost_wakeup (change st s)"
  unfolding no_lost_wakeup_def
proof (intro allI impI)
  fix t k st'
  assume "pcs (change st s) t = Waiting k st' False"
  then have w: "pcs s t = Waiting k st' False"
    and not: "flag_of st' (link s) \<or> \<not> flag_of st' (set_state st (link s))"
    by (auto simp: pcs_change release1_Waiting)
  have st': "st' = good k \<or> st' = bad k" using assms(1) w by (auto simp: waits_wf_def)
  have "conn_state (link s) \<noteq> st'" using assms(3) w by (simp add: no_lost_wakeup_def)
  then show "conn_state (link (change st s)) \<noteq> st'"
    using not flag_of_stable[OF assms(2) st'] flag_of_stable[OF flags_ok_set_state[OF assms(2)] st']
    by simp
qed

lemma no_lost_wakeup_move:
  "no_lost_wakeup s \<Longrightarrow> (\<And>k st. p = Waiting k st False \<Longrightarrow> conn_state (link s) \<noteq> st) \<Longrightarrow>
     no_lost_wakeup (move t p s)"
  by (auto simp: no_lost_wakeup_def pcs_move)

lemma history_change:
  assumes "flags_ok (link s)" and "history_announced s"
  shows "history_announced (change st s)"
proof -
  from assms(2) obtain ts where ts: "sent (link s) = announce_path announce DISCONNECTED ts"
    "conn_state (link s) = last (DISCONNECTED # ts)" by (auto simp: history_announced_def)
  have "sent (link (change st s)) = announce_path announce DISCONNECTED (ts @ [st])"
    using conn.log_set_path[OF assms(1), of st] ts
    by (simp del: announce_path.simps add: announce_path_append)
  then show ?thesis unfolding history_announced_def
    by (intro exI[of _ "ts @ [st]"]) simp
qed

lemma history_move [simp]: "history_announced (move t p s) = history_announced s"
  by (simp add: history_announced_def)

lemma tasks_inv_change_move:
  assumes inv: "tasks_inv s"
    and p: "\<And>k st r. p \<noteq> Waiting k st r"
    and own: "\<And>k. st = via k \<Longrightarrow> p = InHook k"
  shows "tasks_inv (move t p (change st s))"
proof -
  have "transition_owned (move t p (change st s))"
    unfolding transition_owned_def
  proof (intro allI impI)
    fix k assume "conn_state (link (move t p (change st s))) = via k"
    then have "p = InHook k" using own by simp
    then show "\<exists>t'. pcs (move t p (change st s)) t' = InHook k" by (auto simp: pcs_move)
  qed
  then show ?thesis
    using inv p unfolding tasks_inv_def
    by (auto intro!: waits_wf_move waits_wf_change no_lost_wakeup_move no_lost_wakeup_change
        history_change)
qed

lemma tasks_inv_move:
  assumes inv: "tasks_inv s"
    and "\<And>k. pcs s t \<noteq> InHook k"
    and "\<And>k st r. p = Waiting k st r \<Longrightarrow>
           (st = good k \<or> st = bad k) \<and> (\<not> r \<longrightarrow> conn_state (link s) \<noteq> st)"
  shows "tasks_inv (move t p s)"
proof -
  have "transition_owned (move t p s)"
    using inv assms(2) unfolding tasks_inv_def transition_owned_def
    by (metis link_move pcs_move)
  then show ?thesis
    using inv assms(3) unfolding tasks_inv_def
    by (auto intro!: waits_wf_move no_lost_wakeup_move)
qed

lemma tasks_inv_init: "tasks_inv init_sys"
proof -
  have "history_announced init_sys"
    unfolding history_announced_def
    by (rule exI[of _ "[]"]) (simp add: init_sys_def init_connection_def)
  moreover have "transition_owned init_sys"
    unfolding transition_owned_def
  proof (intro allI impI)
    fix k assume "conn_state (link init_sys) = via k"
    then show "\<exists>t. pcs init_sys t = InHook k" by (cases k) (simp_all add: init_sys_def init_connection_def)
  qed
  ultimately show ?thesis
    by (simp add: tasks_inv_def waits_wf_def no_lost_wakeup_def) (simp add: init_sys_def)
qed

lemma tasks_inv_step:
  assumes inv: "tasks_inv s" and "step e s = Some s'"
  shows "tasks_inv s'"
proof -
  have wf: "waits_wf s" using inv by (simp add: tasks_inv_def)
  from assms(2) wf show ?thesis
  proof (cases rule: step_cases)
    case (finish t k p)
    then show ?thesis using inv by (auto intro!: tasks_inv_move)
  next
    case (suspend t k st)
    then have "\<not> flag_of st (link s)"
      using inv by (simp add: tasks_inv_def flag_of_stable)
    then show ?thesis using suspend inv by (auto simp: wait_for_def intro!: tasks_inv_move)
  next
    case (enter t k)
    have "k' = k" if "via k = via k'" for k' using that by (cases k; cases k') auto
    with inv show ?thesis unfolding enter(1) enter_hook_def
      by (intro tasks_inv_change_move) auto
  next
    case (leave t k p st)
    have "st \<noteq> via k'" for k' using leave(4) by (cases k; cases k') auto
    with leave(3) inv show ?thesis unfolding leave(1) by (intro tasks_inv_change_move) auto
  qed
qed

lemma reachable_inv: "reachable s \<Longrightarrow> tasks_inv s"
  by (induction rule: reachable.induct) (auto intro: tasks_inv_init tasks_inv_step)

lemma run_reachable: "reachable s \<Longrightarrow> run es s = Some s' \<Longrightarrow> reachable s'"
  by (induction es arbitrary: s) (auto split: option.splits intro: reachable.next_step)

section \<open>Prompt schedules: one hook at a time\<close>

definition hooks_match :: "sys \<Rightarrow> bool" where
  "hooks_match s \<longleftrightarrow> (\<forall>t k. pcs s t = InHook k \<longrightarrow>
     conn_state (link s) = via k \<and> (\<forall>u k'. pcs s u = InHook k' \<longrightarrow> u = t))"

lemma via_stable [simp]: "via k' \<noteq> bad k" "bad k \<noteq> via k'" "via k' \<noteq> good k" "good k \<noteq> via k'"
  by (cases k; cases k'; simp)+

lemma hooks_match_no_hook:
  assumes "hooks_match s" and "conn_state (link s) = bad k"
  shows "pcs s t \<noteq> InHook k'"
proof
  assume "pcs s t = InHook k'"
  then have "conn_state (link s) = via k'" using assms(1) unfolding hooks_match_def by blast
  with assms(2) show False by simp
qed

lemma hooks_match_step:
  assumes "waits_wf s" and "hooks_match s" and "prompt e s" and "step e s = Some s'"
  shows "hooks_match s'"
  using assms(4,1)
proof (cases rule: step_cases)
  case (finish t k p)
  then show ?thesis using assms(2) by (auto simp: hooks_match_def pcs_move)
next
  case (suspend t k st)
  then show ?thesis using assms(2) by (auto simp: hooks_match_def pcs_move wait_for_def)
next
  case (enter t k)
  then have "pcs s u \<noteq> InHook k'" for u k'
    using hooks_match_no_hook assms(2,3) by blast
  then show ?thesis using enter(1)
    by (auto simp: hooks_match_def enter_hook_def pcs_move pcs_change)
next
  case (leave t k p st)
  then show ?thesis using assms(2)
    by (auto simp: hooks_match_def pcs_move pcs_change)
qed

lemma reachable_promptly_inv: "reachable_promptly s \<Longrightarrow> reachable s \<and> hooks_match s"
proof (induction rule: reachable_promptly.induct)
  case start_prompt
  show ?case by (simp add: reachable.start hooks_match_def) (simp add: init_sys_def)
next
  case (prompt_step s e s')
  then have "waits_wf s" using reachable_inv by (simp add: tasks_inv_def)
  with prompt_step show ?case by (auto intro: reachable.next_step hooks_match_step)
qed

lemma run_promptly:
  "reachable_promptly s \<Longrightarrow> step e s = Some s' \<Longrightarrow> prompt e s \<Longrightarrow> reachable_promptly s'"
  by (rule reachable_promptly.prompt_step)

text \<open>A hook that ends at once is a hook that is entered and left.\<close>

lemma move_change_move: "move t p (change st (move t q s)) = move t p (change st s)"
  by (simp add: move_def change_def Let_def fun_eq_iff)

text \<open>A run all of whose steps are prompt.\<close>

fun run_prompt :: "event list \<Rightarrow> sys \<Rightarrow> bool" where
  "run_prompt [] s = True"
| "run_prompt (e # es) s \<longleftrightarrow> prompt e s \<and> (case step e s of None \<Rightarrow> True | Some s' \<Rightarrow> run_prompt es s')"

lemma run_prompt_reachable:
  "reachable_promptly s \<Longrightarrow> run es s = Some s' \<Longrightarrow> run_prompt es s \<Longrightarrow> reachable_promptly s'"
  by (induction es arbitrary: s) (auto split: option.splits intro: run_promptly)

text \<open>Several calls of \<^verbatim>\<open>close()\<close> during an opening, and their resumptions after it.\<close>

lemma run_append: "run (es @ fs) s = Option.bind (run es s) (run fs)"
  by (induction es arbitrary: s) (auto split: option.split)

lemma calls_wait:
  assumes "flags_ok (link s)" and "conn_state (link s) = CONNECTING" and "distinct us"
    and "\<And>u. u \<in> set us \<Longrightarrow> \<not> in_call (pcs s u)"
  shows "\<exists>s0. run (map (Call Close) us) s = Some s0 \<and> link s0 = link s \<and>
    (\<forall>w. pcs s0 w = (if w \<in> set us then Waiting Close CONNECTED False else pcs s w))"
  using assms
proof (induction us arbitrary: s)
  case (Cons u us)
  let ?s = "wait_for Close CONNECTED u s"
  have b: "step (Call Close u) s = Some ?s" using Cons.prems(2,4) by (simp add: begin_call_def)
  have p: "link ?s = link s" "pcs ?s w = (if w = u then Waiting Close CONNECTED False else pcs s w)" for w
    using Cons.prems(1,2) by (simp_all add: wait_for_def pcs_move flags_ok_def)
  have "\<exists>s0. run (map (Call Close) us) ?s = Some s0 \<and> link s0 = link ?s \<and>
      (\<forall>w. pcs s0 w = (if w \<in> set us then Waiting Close CONNECTED False else pcs ?s w))"
    by (rule Cons.IH) (use Cons.prems p in auto)
  then show ?case using b p Cons.prems(3) by auto
qed simp

lemma resumptions_close:
  assumes "distinct us" and "\<And>u. u \<in> set us \<Longrightarrow> pcs s u = Waiting Close CONNECTED True"
  shows "\<exists>s1. run (map Resume us) s = Some s1 \<and>
    (\<forall>w. w \<in> set us \<or> pcs s w = InHook Close \<longrightarrow> pcs s1 w = InHook Close)"
  using assms
proof (induction us arbitrary: s)
  case (Cons u us)
  let ?s = "enter_hook Close u s"
  have r: "step (Resume u) s = Some ?s" using Cons.prems(2) by (simp add: after_wait_def)
  have p: "pcs ?s w = (if w = u then InHook Close else release1 (link s) (set_state DISCONNECTING (link s)) (pcs s w))" for w
    by (simp add: enter_hook_def pcs_move pcs_change)
  have "\<exists>s1. run (map Resume us) ?s = Some s1 \<and>
      (\<forall>w. w \<in> set us \<or> pcs ?s w = InHook Close \<longrightarrow> pcs s1 w = InHook Close)"
    by (rule Cons.IH) (use Cons.prems p in auto)
  then show ?case using r p by auto
qed simp

section \<open>Properties\<close>

text \<open>
  C1. In every state that any interleaving of \<^verbatim>\<open>open()\<close> and \<^verbatim>\<open>close()\<close> calls, hook outcomes and
  cancellations can reach: the flags that \<^verbatim>\<open>wait_until_connected()\<close> and
  \<^verbatim>\<open>wait_until_disconnected()\<close> look at agree with the state, and the signals sent are the
  announcements of the states the connection went through.
\<close>

theorem interleaved_signals:
  assumes "reachable s"
  shows "flags_ok (link s) \<and>
    (\<exists>ts. sent (link s) = announce_path announce DISCONNECTED ts \<and>
          conn_state (link s) = last (DISCONNECTED # ts))"
  using reachable_inv[OF assms] by (simp only: tasks_inv_def history_announced_def)

text \<open>
  C2. No wake-up is lost and no transition is orphaned, under any interleaving: a task still
  suspended in a wait waits for a state the connection is not in, and while the connection is
  \<open>CONNECTING\<close> (\<open>DISCONNECTING\<close>) some task is inside \<^verbatim>\<open>_open()\<close> (\<^verbatim>\<open>_close()\<close>).
\<close>

theorem interleaved_progress:
  assumes "reachable s"
  shows "(pcs s t = Waiting k st False \<longrightarrow> conn_state (link s) \<noteq> st) \<and>
    (conn_state (link s) = CONNECTING \<longrightarrow> (\<exists>u. pcs s u = InHook Open)) \<and>
    (conn_state (link s) = DISCONNECTING \<longrightarrow> (\<exists>u. pcs s u = InHook Close))"
proof -
  have "no_lost_wakeup s" and own: "transition_owned s"
    using reachable_inv[OF assms] by (simp_all add: tasks_inv_def)
  then show ?thesis
    using own[unfolded transition_owned_def, THEN spec, of Open]
      own[unfolded transition_owned_def, THEN spec, of Close]
    by (simp add: no_lost_wakeup_def)
qed

text \<open>
  C27. On schedules where every task that waited before its hook resumes while the connection is
  still in the state it waited for, at most one task is inside \<^verbatim>\<open>_open()\<close> or \<^verbatim>\<open>_close()\<close> at any
  time, and the state says which.
\<close>

theorem hooks_exclusive:
  assumes "reachable_promptly s" and "pcs s t = InHook k" and "pcs s u = InHook k'"
  shows "t = u \<and> k = k' \<and> conn_state (link s) = via k"
proof -
  have m: "hooks_match s" using reachable_promptly_inv[OF assms(1)] by simp
  then have "t = u" using assms(2,3) unfolding hooks_match_def by blast
  with m assms(2,3) show ?thesis by (auto simp: hooks_match_def)
qed

text \<open>
  C9. Without that, \<^verbatim>\<open>close()\<close> is not safe. In whatever reachable state a task is inside \<^verbatim>\<open>_open()\<close> and
  the connection is \<open>CONNECTING\<close>: if any number of tasks call \<^verbatim>\<open>close()\<close> before the opening ends, they can
  all come to be inside \<^verbatim>\<open>_close()\<close> at the same time, because a task does not look at the state again after
  \<^verbatim>\<open>wait_until_connected()\<close>. If then, of any two of them, one finishes and the other fails on what the
  first has already torn down, the \<^verbatim>\<open>close()\<close> of the first has returned, but the connection is \<open>CONNECTED\<close>.
\<close>

theorem close_close_race:
  assumes "reachable s" and "conn_state (link s) = CONNECTING" and "pcs s t = InHook Open"
    and "distinct us" and "\<And>u. u \<in> set us \<Longrightarrow> \<not> in_call (pcs s u)"
  shows "\<exists>s1. run (map (Call Close) us @ HookReturns t # map Resume us) s = Some s1 \<and>
    (\<forall>u \<in> set us. pcs s1 u = InHook Close) \<and>
    (\<forall>u \<in> set us. \<forall>v \<in> set us. u \<noteq> v \<longrightarrow>
       (\<exists>s2. run [HookReturns u, HookRaises v] s1 = Some s2 \<and> pcs s2 u = Done Close \<and>
          pcs s2 v = Failed Close \<and> conn_state (link s2) = CONNECTED))"
proof -
  have f: "flags_ok (link s)" using reachable_inv[OF assms(1)] by (simp add: tasks_inv_def)
  have t: "t \<notin> set us" using assms(3,5) by force
  obtain s0 where s0: "run (map (Call Close) us) s = Some s0" "link s0 = link s" "pcs s0 t = InHook Open"
      "\<And>u. u \<in> set us \<Longrightarrow> pcs s0 u = Waiting Close CONNECTED False"
    using calls_wait[OF f assms(2,4,5)] t assms(3) by metis
  let ?o = "move t (Done Open) (change CONNECTED s0)"
  have "pcs ?o u = Waiting Close CONNECTED True" if "u \<in> set us" for u
    using that t s0(2,4) f assms(2) by (auto simp: pcs_move pcs_change flags_ok_def[of "link s"])
  then obtain s1 where s1: "run (map Resume us) ?o = Some s1" "\<And>u. u \<in> set us \<Longrightarrow> pcs s1 u = InHook Close"
    using resumptions_close[OF assms(4), of ?o] by blast
  have "run (map (Call Close) us @ HookReturns t # map Resume us) s = Some s1"
    using s0(1,3) s1(1) by (simp add: run_append)
  moreover have "\<exists>s2. run [HookReturns u, HookRaises v] s1 = Some s2 \<and> pcs s2 u = Done Close \<and>
      pcs s2 v = Failed Close \<and> conn_state (link s2) = CONNECTED"
    if "u \<in> set us" "v \<in> set us" "u \<noteq> v" for u v
    using s1(2)[OF that(1)] s1(2)[OF that(2)] that(3) by (simp add: pcs_move pcs_change)
  ultimately show ?thesis using s1(2) by blast
qed

text \<open>
  When the attempt of the task that opens the connection fails, a second task that called
  \<^verbatim>\<open>open()\<close> meanwhile neither returns nor gets the exception: it stays suspended, and it cannot
  be resumed while the connection is down.
\<close>

theorem failed_open_strands_waiter:
  assumes "reachable s" and "pcs s t = InHook Open" and "pcs s u = Waiting Open CONNECTED False"
    and "step (HookRaises t) s = Some s'"
  shows "conn_state (link s') = DISCONNECTED \<and> pcs s' t = Failed Open \<and>
    pcs s' u = Waiting Open CONNECTED False \<and> step (Resume u) s' = None"
proof -
  have f: "flags_ok (link s)" using reachable_inv[OF assms(1)] by (simp add: tasks_inv_def)
  have s': "s' = move t (Failed Open) (change DISCONNECTED s)"
    using assms(2,4) by simp
  have "u \<noteq> t" using assms(2,3) by auto
  then show ?thesis using s' assms(3) f by (simp add: pcs_move pcs_change)
qed

section \<open>Witnesses\<close>

lemmas eval_simps = init_sys_def begin_call_def enter_hook_def wait_for_def after_wait_def move_def
  change_def init_connection_def Let_def flags_ok_def set_state_def note_connected_def
  note_disconnected_def clear_connected_def clear_disconnected_def send_signal_def

text \<open>A state with one task in \<^verbatim>\<open>_open()\<close> and two waiting for its outcome.\<close>

definition three_tasks :: sys where
  "three_tasks = the (run [Call Open 0, Call Open 1, Call Close 2] init_sys)"

lemma three_tasks_run: "run [Call Open 0, Call Open 1, Call Close 2] init_sys = Some three_tasks"
  by (simp add: three_tasks_def eval_simps)

lemma three_tasks_simps:
  "pcs three_tasks 0 = InHook Open" "pcs three_tasks 1 = Waiting Open CONNECTED False"
  "pcs three_tasks 2 = Waiting Close CONNECTED False" "conn_state (link three_tasks) = CONNECTING"
  by (simp_all add: three_tasks_def eval_simps)

lemma three_tasks_reachable: "reachable three_tasks"
  by (rule run_reachable[OF reachable.start three_tasks_run])

text \<open>One task in \<^verbatim>\<open>_open()\<close>.\<close>

definition one_opener :: sys where
  "one_opener = the (run [Call Open 0] init_sys)"

lemma one_opener_simps:
  "conn_state (link one_opener) = CONNECTING" "pcs one_opener 0 = InHook Open"
  "pcs one_opener 1 = Idle" "pcs one_opener (Suc 0) = Idle" "pcs one_opener 2 = Idle"
  by (simp_all add: one_opener_def eval_simps)

lemma one_opener_reachable: "reachable one_opener"
proof -
  have "run [Call Open 0] init_sys = Some one_opener" by (simp add: one_opener_def eval_simps)
  then show ?thesis by (rule run_reachable[OF reachable.start])
qed

theorem interleaved_signals_witness:
  "reachable three_tasks \<and> flags_ok (link three_tasks) \<and>
   (\<exists>ts. sent (link three_tasks) = announce_path announce DISCONNECTED ts)"
  using three_tasks_reachable interleaved_signals[OF three_tasks_reachable] by blast

theorem interleaved_progress_witness:
  "conn_state (link three_tasks) \<noteq> CONNECTED \<and> (\<exists>u. pcs three_tasks u = InHook Open)"
  using interleaved_progress[OF three_tasks_reachable, of 1 Open CONNECTED]
  by (simp add: three_tasks_simps)

theorem failed_open_strands_waiter_witness:
  "\<exists>s'. step (HookRaises 0) three_tasks = Some s' \<and> pcs s' 1 = Waiting Open CONNECTED False \<and>
    step (Resume 1) s' = None"
proof -
  obtain s' where s': "step (HookRaises 0) three_tasks = Some s'"
    by (simp add: three_tasks_simps)
  show ?thesis
    using s' failed_open_strands_waiter[OF three_tasks_reachable three_tasks_simps(1,2) s'] by blast
qed

theorem hooks_exclusive_witness:
  "\<exists>s. reachable_promptly s \<and> pcs s 3 = InHook Open \<and> conn_state (link s) = CONNECTING"
proof -
  define s where "s = enter_hook Open 3 init_sys"
  have st: "step (Call Open 3) init_sys = Some s"
    by (simp add: s_def begin_call_def) (simp add: init_sys_def init_connection_def)
  have r: "reachable_promptly s"
    by (rule reachable_promptly.prompt_step[OF reachable_promptly.start_prompt _ st]) simp
  have p: "pcs s 3 = InHook Open" by (simp add: s_def enter_hook_def pcs_move)
  show ?thesis using r p hooks_exclusive[OF r p p] by auto
qed

theorem close_close_race_witness:
  "\<exists>s1 s2. run (map (Call Close) [1, 2] @ HookReturns 0 # map Resume [1, 2]) one_opener = Some s1 \<and>
     pcs s1 1 = InHook Close \<and> pcs s1 2 = InHook Close \<and>
     run [HookReturns 1, HookRaises 2] s1 = Some s2 \<and> pcs s2 1 = Done Close \<and> conn_state (link s2) = CONNECTED"
proof -
  have idle: "\<not> in_call (pcs one_opener u)" if "u \<in> set [1, 2]" for u using that by (auto simp: one_opener_simps)
  have d: "distinct [1, 2 :: nat]" by simp
  have two: "(1 :: nat) \<in> set [1, 2]" "(2 :: nat) \<in> set [1, 2]" "(1 :: nat) \<noteq> 2" by simp_all
  from close_close_race[OF one_opener_reachable one_opener_simps(1,2) d idle] obtain s1
    where s1: "run (map (Call Close) [1, 2] @ HookReturns 0 # map Resume [1, 2]) one_opener = Some s1"
      "\<And>u. u \<in> set [1, 2] \<Longrightarrow> pcs s1 u = InHook Close"
      "\<And>u v. u \<in> set [1, 2] \<Longrightarrow> v \<in> set [1, 2] \<Longrightarrow> u \<noteq> v \<Longrightarrow>
         \<exists>s2. run [HookReturns u, HookRaises v] s1 = Some s2 \<and> pcs s2 u = Done Close \<and>
           pcs s2 v = Failed Close \<and> conn_state (link s2) = CONNECTED"
    by blast
  show ?thesis using s1(1) s1(2)[OF two(1)] s1(2)[OF two(2)] s1(3)[OF two] by blast
qed

end
