(* ===== verification/Task_Connection.thy ===== *)
theory Task_Connection
  imports Connection_Base
begin

text \<open>
  \<^verbatim>\<open>TaskConnectionBase\<close> of \<^verbatim>\<open>connections/base.py\<close>: a connection that is open while a task runs.
  \<^verbatim>\<open>open()\<close> starts the task in the nursery and waits until it reports \<^verbatim>\<open>started()\<close>, \<^verbatim>\<open>close()\<close>
  cancels its scope and waits until \<^verbatim>\<open>_run()\<close> has ended, and a task whose \<^verbatim>\<open>_run()\<close> has returned
  calls \<^verbatim>\<open>close()\<close> itself.

  A step is what happens between two suspension points. \<^verbatim>\<open>_run()\<close> is the subclass's: it may report
  \<^verbatim>\<open>started()\<close>, return or raise at any time. The schedules covered: no caller is cancelled,
  \<^verbatim>\<open>open()\<close> and \<^verbatim>\<open>close()\<close> are called by others only in a settled state (\<open>Task_Callers\<close> has
  the other schedules), and a task that waits in its own \<^verbatim>\<open>close()\<close> goes on before
  anybody else calls it.
\<close>

section \<open>State\<close>

text \<open>
  The task is not there, inside \<^verbatim>\<open>_run()\<close>, or behind it and waiting in \<^verbatim>\<open>close()\<close> for a connection
  that is being opened to be connected. A task that waits there for a connection that is being
  closed does nothing more once it resumes, and counts as gone.
\<close>

datatype run_task = Absent | InRun | AwaitsConnected

text \<open>
  \<open>scope_set\<close> tells whether \<^verbatim>\<open>_cancel_scope\<close> is an object; \<open>closed_event\<close> is \<^verbatim>\<open>_closed_event\<close>, an
  event with its flag. \<open>started_called\<close> tells that the task has called \<^verbatim>\<open>started()\<close>, \<open>start_failed\<close>
  that \<^verbatim>\<open>nursery.start\<close> is about to raise, \<open>crashed\<close> that the task raised after \<^verbatim>\<open>started()\<close>, an
  exception that goes to the nursery.
\<close>

record task_connection = connection +
  has_nursery :: bool
  scope_set :: bool
  closed_event :: "bool option"
  run_task :: run_task
  run_cancelled :: bool
  started_called :: bool
  start_failed :: bool
  crashed :: bool

definition init_task_connection :: task_connection where
  "init_task_connection =
     connection.extend init_connection
       \<lparr>has_nursery = False, scope_set = False, closed_event = None, run_task = Absent,
        run_cancelled = False, started_called = False, start_failed = False, crashed = False\<rparr>"

section \<open>The pieces of the methods\<close>

definition assign_nursery :: "(task_connection, unit) action" where
  "assign_nursery c =
     (if conn_state c \<noteq> DISCONNECTED
      then (Raises (RuntimeError ''You can assign a nursery only when the connection is closed''), c)
      else (Returns (), c\<lparr>has_nursery := True, scope_set := False, closed_event := None\<rparr>))"

text \<open>\<^verbatim>\<open>_open()\<close> with a nursery, up to the wait for the task.\<close>

definition start_run :: "task_connection \<Rightarrow> task_connection" where
  "start_run c =
     c\<lparr>closed_event := Some False, run_task := InRun, run_cancelled := False, started_called := False,
       crashed := False\<rparr>"

text \<open>\<^verbatim>\<open>_close()\<close> up to its wait.\<close>

definition cancel_run :: "task_connection \<Rightarrow> task_connection" where
  "cancel_run c =
     (if scope_set c then c\<lparr>scope_set := False, run_cancelled := (run_task c = InRun)\<rparr> else c)"

definition begin_task_close :: "task_connection \<Rightarrow> task_connection" where
  "begin_task_close c = cancel_run (set_state DISCONNECTING c)"

text \<open>The \<^verbatim>\<open>finally\<close> clause of the task.\<close>

definition leave_run :: "task_connection \<Rightarrow> task_connection" where
  "leave_run c = c\<lparr>closed_event := map_option (\<lambda>_. True) (closed_event c), run_task := Absent\<rparr>"

text \<open>
  The task's own \<^verbatim>\<open>close()\<close>, its event being set: on a connected connection it has nothing to wait
  for; otherwise it waits.
\<close>

definition close_after_run :: "task_connection \<Rightarrow> task_connection" where
  "close_after_run c =
     (case conn_state c of
        CONNECTED \<Rightarrow> set_state DISCONNECTED (begin_task_close c)
      | CONNECTING \<Rightarrow> c\<lparr>run_task := AwaitsConnected\<rparr>
      | _ \<Rightarrow> c)"

section \<open>Steps\<close>

inductive task_step :: "task_connection \<Rightarrow> task_connection \<Rightarrow> bool" where
  nursery_assigned:
    "assign_nursery c = (Returns (), c') \<Longrightarrow> task_step c c'"
| task_open_without_nursery:
    "conn_state c = DISCONNECTED \<Longrightarrow> \<not> has_nursery c \<Longrightarrow>
       task_step c (set_state DISCONNECTED (set_state CONNECTING c))"
| task_open_call:
    "conn_state c = DISCONNECTED \<Longrightarrow> has_nursery c \<Longrightarrow>
       task_step c (start_run (set_state CONNECTING c))"
| run_reports_started:
    "run_task c = InRun \<Longrightarrow> \<not> started_called c \<Longrightarrow> task_step c (c\<lparr>started_called := True\<rparr>)"
| open_returns:
    "conn_state c = CONNECTING \<Longrightarrow> started_called c \<Longrightarrow>
       task_step c (set_state CONNECTED (c\<lparr>scope_set := True\<rparr>))"
| open_raises:
    "conn_state c = CONNECTING \<Longrightarrow> start_failed c \<Longrightarrow>
       task_step c (set_state DISCONNECTED (c\<lparr>start_failed := False\<rparr>))"
| run_returns:
    "run_task c = InRun \<Longrightarrow> task_step c (close_after_run (leave_run c))"
| run_raises:
    "run_task c = InRun \<Longrightarrow>
       task_step c ((leave_run c)\<lparr>start_failed := \<not> started_called c, crashed := started_called c\<rparr>)"
| task_closes:
    "run_task c = AwaitsConnected \<Longrightarrow> conn_state c = CONNECTED \<Longrightarrow>
       task_step c (set_state DISCONNECTED (begin_task_close (c\<lparr>run_task := Absent\<rparr>)))"
| task_close_call:
    "conn_state c = CONNECTED \<Longrightarrow> run_task c \<noteq> AwaitsConnected \<Longrightarrow> task_step c (begin_task_close c)"
| task_close_done:
    "conn_state c = DISCONNECTING \<Longrightarrow> closed_event c \<noteq> Some False \<Longrightarrow>
       task_step c (set_state DISCONNECTED c)"

inductive task_reachable :: "task_connection \<Rightarrow> bool" where
  task_fresh: "task_reachable init_task_connection"
| task_moved: "task_reachable c \<Longrightarrow> task_step c c' \<Longrightarrow> task_reachable c'"

inductive_cases task_stepE [consumes 1]: "task_step c c'"

section \<open>Fields\<close>

lemma task_more:
  "connection.more c = connection.more d \<Longrightarrow>
    has_nursery c = has_nursery d \<and> scope_set c = scope_set d \<and> closed_event c = closed_event d \<and>
    run_task c = run_task d \<and> run_cancelled c = run_cancelled d \<and>
    started_called c = started_called d \<and> start_failed c = start_failed d \<and> crashed c = crashed d"
  by (cases c; cases d) simp

lemma task_set_state [simp]:
  "has_nursery (set_state s c) = has_nursery c" "scope_set (set_state s c) = scope_set c"
  "closed_event (set_state s c) = closed_event c" "run_task (set_state s c) = run_task c"
  "run_cancelled (set_state s c) = run_cancelled c" "started_called (set_state s c) = started_called c"
  "start_failed (set_state s c) = start_failed c" "crashed (set_state s c) = crashed c"
  using task_more[of "set_state s c" c] by simp_all

lemma init_task_simps [simp]:
  "conn_state init_task_connection = DISCONNECTED" "has_nursery init_task_connection = False"
  "scope_set init_task_connection = False" "closed_event init_task_connection = None"
  "run_task init_task_connection = Absent" "run_cancelled init_task_connection = False"
  "started_called init_task_connection = False" "start_failed init_task_connection = False"
  "crashed init_task_connection = False"
  by (simp_all add: init_task_connection_def connection.extend_def init_connection_def)

lemma piece_states [simp]:
  "conn_state (start_run c) = conn_state c" "conn_state (cancel_run c) = conn_state c"
  "conn_state (leave_run c) = conn_state c" "conn_state (begin_task_close c) = DISCONNECTING"
  by (simp_all add: start_run_def cancel_run_def leave_run_def begin_task_close_def)

section \<open>Invariant\<close>

definition task_inv :: "task_connection \<Rightarrow> bool" where
  "task_inv c \<longleftrightarrow>
     (conn_state c = DISCONNECTED \<longrightarrow> run_task c = Absent \<and> \<not> start_failed c) \<and>
     (conn_state c = CONNECTING \<longrightarrow>
        \<not> (run_task c = InRun \<and> run_cancelled c) \<and> (start_failed c \<longrightarrow> run_task c = Absent \<and> \<not> started_called c) \<and>
        (run_task c = Absent \<longrightarrow> start_failed c \<or> crashed c) \<and> (crashed c \<longrightarrow> started_called c)) \<and>
     (conn_state c = CONNECTED \<longrightarrow>
        scope_set c \<and> \<not> start_failed c \<and> started_called c \<and> \<not> (run_task c = InRun \<and> run_cancelled c) \<and>
        (run_task c = Absent \<longrightarrow> crashed c)) \<and>
     (conn_state c = DISCONNECTING \<longrightarrow>
        \<not> start_failed c \<and> started_called c \<and> run_task c \<noteq> AwaitsConnected \<and> (run_task c = InRun \<longrightarrow> run_cancelled c)) \<and>
     (crashed c \<longrightarrow> run_task c = Absent) \<and>
     (closed_event c = Some False) = (run_task c = InRun)"

lemma task_inv_init: "task_inv init_task_connection"
  by (simp add: task_inv_def)

lemma task_inv_step:
  assumes "task_step c c'" and "task_inv c"
  shows "task_inv c'"
  using assms
  by (cases rule: task_stepE; cases "run_task c"; cases "conn_state c"; cases "closed_event c")
    (auto simp: task_inv_def assign_nursery_def start_run_def begin_task_close_def cancel_run_def leave_run_def
      close_after_run_def)

lemma task_reachable_inv: "task_reachable c \<Longrightarrow> task_inv c"
  by (induction rule: task_reachable.induct) (auto intro: task_inv_init task_inv_step)

section \<open>Properties\<close>

text \<open>
  A closed task connection has no task inside \<^verbatim>\<open>_run()\<close>. An open one has a task there that is
  not cancelled, or one that is about to close it, unless its task crashed with an exception; and
  one that is being closed can always finish, without a task inside \<^verbatim>\<open>_run()\<close>.
\<close>

theorem task_connection_follows_task:
  assumes "task_reachable c"
  shows "(conn_state c = DISCONNECTED \<longrightarrow> run_task c = Absent) \<and>
    (conn_state c = CONNECTED \<longrightarrow>
       (run_task c = InRun \<and> \<not> run_cancelled c) \<or> run_task c = AwaitsConnected \<or> crashed c) \<and>
    (conn_state c = DISCONNECTING \<longrightarrow>
       (\<exists>c'. task_step\<^sup>*\<^sup>* c c' \<and> conn_state c' = DISCONNECTED \<and> run_task c' = Absent))"
proof -
  note inv = task_reachable_inv[OF assms, unfolded task_inv_def]
  have "\<exists>c'. task_step\<^sup>*\<^sup>* c c' \<and> conn_state c' = DISCONNECTED \<and> run_task c' = Absent"
    if d: "conn_state c = DISCONNECTING"
  proof (cases "run_task c = InRun")
    case True
    let ?m = "close_after_run (leave_run c)"
    have m: "conn_state ?m = DISCONNECTING" "closed_event ?m \<noteq> Some False" "run_task ?m = Absent"
      using d by (auto simp: close_after_run_def leave_run_def)
    have "task_step\<^sup>*\<^sup>* c (set_state DISCONNECTED ?m)"
      using run_returns[OF True] task_close_done[OF m(1,2)] by (meson r_into_rtranclp rtranclp.rtrancl_into_rtrancl)
    then show ?thesis using m(3) by (intro exI[of _ "set_state DISCONNECTED ?m"]) simp
  next
    case False
    then have "task_step c (set_state DISCONNECTED c)" using inv d by (intro task_close_done) simp_all
    then show ?thesis using False inv d
      by (intro exI[of _ "set_state DISCONNECTED c"]) (cases "run_task c"; auto)
  qed
  then show ?thesis using inv by (cases "run_task c") auto
qed

text \<open>
  A task that raises after \<^verbatim>\<open>started()\<close> does not close its connection: the connection stays
  \<open>CONNECTED\<close> without a task, and the only thing that can happen to it is a call of \<^verbatim>\<open>close()\<close> by
  somebody else, which then ends \<open>DISCONNECTED\<close>.
\<close>

theorem crash_leaves_connected:
  assumes "task_reachable c" and "conn_state c = CONNECTED" and "run_task c = InRun"
  shows "\<exists>z. task_step c z \<and> conn_state z = CONNECTED \<and> run_task z = Absent \<and>
    (\<forall>z'. task_step z z' \<longrightarrow> z' = begin_task_close z \<and> task_step z' (set_state DISCONNECTED z'))"
proof -
  let ?z = "(leave_run c)\<lparr>start_failed := \<not> started_called c, crashed := started_called c\<rparr>"
  have z: "conn_state ?z = CONNECTED" "run_task ?z = Absent" "closed_event ?z = Some True"
    using assms task_reachable_inv[OF assms(1)] by (auto simp: task_inv_def leave_run_def)
  have "z' = begin_task_close ?z \<and> task_step z' (set_state DISCONNECTED z')" if "task_step ?z z'" for z'
  proof
    show "z' = begin_task_close ?z"
      using that z by (cases rule: task_stepE) (simp_all add: assign_nursery_def)
    then show "task_step z' (set_state DISCONNECTED z')"
      using z by (intro task_close_done) (simp_all add: begin_task_close_def cancel_run_def)
  qed
  then show ?thesis using run_raises[OF assms(3)] z by blast
qed

section \<open>Witnesses\<close>

definition opening_task :: task_connection where
  "opening_task = start_run (set_state CONNECTING (init_task_connection\<lparr>has_nursery := True\<rparr>))"

definition open_task :: task_connection where
  "open_task = set_state CONNECTED (opening_task\<lparr>started_called := True, scope_set := True\<rparr>)"

lemma opening_task_reachable: "task_reachable opening_task"
proof -
  have n: "assign_nursery init_task_connection = (Returns (), init_task_connection\<lparr>has_nursery := True\<rparr>)"
    by (simp add: assign_nursery_def init_task_connection_def connection.extend_def init_connection_def)
  have r: "task_reachable (init_task_connection\<lparr>has_nursery := True\<rparr>)"
    by (rule task_moved[OF task_fresh nursery_assigned[OF n]])
  show ?thesis
    unfolding opening_task_def by (rule task_moved[OF r task_open_call]) simp_all
qed

lemma opening_task_simps [simp]:
  "conn_state opening_task = CONNECTING" "run_task opening_task = InRun" "started_called opening_task = False"
  "start_failed opening_task = False" "run_cancelled opening_task = False" "crashed opening_task = False"
  by (simp_all add: opening_task_def start_run_def)

lemma open_task_reachable: "task_reachable open_task"
proof -
  have r: "task_reachable (opening_task\<lparr>started_called := True\<rparr>)"
    by (rule task_moved[OF opening_task_reachable run_reports_started]) simp_all
  show ?thesis
    using task_moved[OF r open_returns] by (simp add: open_task_def)
qed

theorem task_connection_follows_task_witness:
  "\<exists>c'. task_step\<^sup>*\<^sup>* (begin_task_close open_task) c' \<and> conn_state c' = DISCONNECTED \<and> run_task c' = Absent"
proof -
  have "task_reachable (begin_task_close open_task)"
    by (rule task_moved[OF open_task_reachable task_close_call]) (simp_all add: open_task_def)
  from task_connection_follows_task[OF this] show ?thesis by simp
qed

theorem crash_leaves_connected_witness:
  "\<exists>z. task_step open_task z \<and> conn_state z = CONNECTED \<and> run_task z = Absent"
  using crash_leaves_connected[OF open_task_reachable] by (auto simp: open_task_def)

end
