(* ===== verification/Task_Callers.thy ===== *)
theory Task_Callers
  imports Connection_Tasks
begin

text \<open>
  \<^verbatim>\<open>TaskConnectionBase\<close> of \<^verbatim>\<open>connections/base.py\<close> with any number of tasks that call \<^verbatim>\<open>open()\<close> and \<^verbatim>\<open>close()\<close> in
  any state and may be cancelled, where \<open>Task_Connection\<close> has one call at a time. The state and the callers are
  those of \<open>Connection_Tasks\<close>; the runs of \<^verbatim>\<open>_create_cancel_scope_and_run\<close> are numbered, each with its scope and
  with the event that the \<^verbatim>\<open>_open()\<close> before it has created. A run that is over calls \<^verbatim>\<open>close()\<close> as one more caller.
\<close>

section \<open>State\<close>

text \<open>A run is inside \<^verbatim>\<open>_run()\<close>; or behind it, in its own call of \<^verbatim>\<open>close()\<close> as the named caller; or ended by an exception.\<close>

datatype run_place = Inside | OwnClose nat | Broken

record trun =
  place_of :: run_place
  reported :: bool
  cancel_asked :: bool
  closed_set :: bool

text \<open>
  \<open>base\<close> is the connection with its callers, \<open>tscope\<close> is \<^verbatim>\<open>_cancel_scope\<close> and \<open>tevent\<close> is \<^verbatim>\<open>_closed_event\<close>, by the
  number of the run. A caller inside a hook waits for the run \<open>hook_run\<close>: for its start, or for its event.
\<close>

record tsys =
  base :: sys
  nursery_given :: bool
  truns :: "trun list"
  tscope :: "nat option"
  tevent :: "nat option"
  hook_run :: "nat \<Rightarrow> nat"

definition init_tsys :: tsys where
  "init_tsys =
     \<lparr>base = init_sys, nursery_given = False, truns = [], tscope = None, tevent = None, hook_run = (\<lambda>_. 0)\<rparr>"

definition on_base :: "(sys \<Rightarrow> sys) \<Rightarrow> tsys \<Rightarrow> tsys" where
  "on_base f s = s\<lparr>base := f (base s)\<rparr>"

section \<open>The methods\<close>

text \<open>\<^verbatim>\<open>assign_nursery()\<close>.\<close>

definition give_nursery :: "tsys \<Rightarrow> tsys option" where
  "give_nursery s =
     (if conn_state (link (base s)) \<noteq> DISCONNECTED then None
      else Some (s\<lparr>nursery_given := True, tscope := None, tevent := None\<rparr>))"

text \<open>\<^verbatim>\<open>open()\<close> from its hook on: a new event, and the start of a run.\<close>

definition launch_run :: "nat \<Rightarrow> tsys \<Rightarrow> tsys" where
  "launch_run t s =
     s\<lparr>truns := truns s @ [\<lparr>place_of = Inside, reported = False, cancel_asked = False, closed_set = False\<rparr>],
       tevent := Some (length (truns s)), hook_run := (hook_run s)(t := length (truns s))\<rparr>"

definition enter_topen :: "nat \<Rightarrow> tsys \<Rightarrow> tsys" where
  "enter_topen t s =
     (let s1 = on_base (enter_hook Open t) s in
      if nursery_given s then launch_run t s1
      else on_base (\<lambda>b. move t (Failed Open) (change DISCONNECTED b)) s1)"

text \<open>\<^verbatim>\<open>close()\<close> from its hook on: without a scope there is nothing to cancel and nothing to wait for.\<close>

definition ask_cancel :: "nat \<Rightarrow> tsys \<Rightarrow> tsys" where
  "ask_cancel b s = s\<lparr>truns := (truns s)[b := (truns s ! b)\<lparr>cancel_asked := True\<rparr>], tscope := None\<rparr>"

definition enter_tclose :: "nat \<Rightarrow> tsys \<Rightarrow> tsys" where
  "enter_tclose t s =
     (let s1 = on_base (enter_hook Close t) s;
          finish = on_base (\<lambda>b. move t (Done Close) (change DISCONNECTED b))
      in case tscope s of
           None \<Rightarrow> finish s1
         | Some b \<Rightarrow>
             (case tevent s of
                None \<Rightarrow> finish (ask_cancel b s1)
              | Some e \<Rightarrow> (ask_cancel b s1)\<lparr>hook_run := (hook_run s)(t := e)\<rparr>))"

fun enter_task_hook :: "call \<Rightarrow> nat \<Rightarrow> tsys \<Rightarrow> tsys" where
  "enter_task_hook Open t s = enter_topen t s"
| "enter_task_hook Close t s = enter_tclose t s"

definition begin_tcall :: "call \<Rightarrow> nat \<Rightarrow> tsys \<Rightarrow> tsys" where
  "begin_tcall k t s =
     (if conn_state (link (base s)) = bad k then enter_task_hook k t s else on_base (begin_call k t) s)"

definition after_twait :: "call \<Rightarrow> connection_state \<Rightarrow> nat \<Rightarrow> tsys \<Rightarrow> tsys" where
  "after_twait k st t s = (if st = good k then on_base (move t (Done k)) s else enter_task_hook k t s)"

text \<open>The end of \<^verbatim>\<open>_run()\<close>: the \<^verbatim>\<open>finally\<close> clause sets the event that the attribute refers to by now.\<close>

definition leave_body :: "nat \<Rightarrow> run_place \<Rightarrow> tsys \<Rightarrow> tsys" where
  "leave_body b p s =
     (let rs = (truns s)[b := (truns s ! b)\<lparr>place_of := p\<rparr>] in
      s\<lparr>truns := (case tevent s of None \<Rightarrow> rs | Some e \<Rightarrow> rs[e := (rs ! e)\<lparr>closed_set := True\<rparr>])\<rparr>)"

definition inside :: "tsys \<Rightarrow> nat \<Rightarrow> bool" where
  "inside s b \<longleftrightarrow> b < length (truns s) \<and> place_of (truns s ! b) = Inside"

definition own_task :: "tsys \<Rightarrow> nat \<Rightarrow> bool" where
  "own_task s t \<longleftrightarrow> t \<in> {u. \<exists>r \<in> set (truns s). place_of r = OwnClose u}"

section \<open>Steps\<close>

text \<open>
  \<open>RunReturns b u\<close>: \<^verbatim>\<open>_run()\<close> of run \<open>b\<close> returns, or is ended by its own scope; its task calls \<^verbatim>\<open>close()\<close> as caller \<open>u\<close>.
  \<open>RunBreaks b\<close>: it raises, or is cancelled from outside, with its nursery or with the caller that starts it.
  \<open>TStartEnds\<close>: \<^verbatim>\<open>nursery.start\<close> returns the scope once \<^verbatim>\<open>started()\<close> has been called, and raises once the task is over
  without that.
\<close>

datatype tevt =
    TAssign
  | TCall call nat
  | TResume nat
  | TReports nat
  | TStartEnds nat
  | RunReturns nat nat
  | RunBreaks nat
  | TExitSeen nat
  | TCancel nat

definition start_over :: "tsys \<Rightarrow> nat \<Rightarrow> bool" where
  "start_over s b \<longleftrightarrow>
     (case place_of (truns s ! b) of
        Inside \<Rightarrow> False
      | Broken \<Rightarrow> True
      | OwnClose u \<Rightarrow> \<not> in_call (pcs (base s) u))"

fun tstep :: "tevt \<Rightarrow> tsys \<Rightarrow> tsys option" where
  "tstep TAssign s = give_nursery s"
| "tstep (TCall k t) s =
     (if in_call (pcs (base s) t) \<or> own_task s t then None else Some (begin_tcall k t s))"
| "tstep (TResume t) s =
     (case pcs (base s) t of Waiting k st True \<Rightarrow> Some (after_twait k st t s) | _ \<Rightarrow> None)"
| "tstep (TReports b) s =
     (if inside s b \<and> \<not> reported (truns s ! b)
      then Some (s\<lparr>truns := (truns s)[b := (truns s ! b)\<lparr>reported := True\<rparr>]\<rparr>) else None)"
| "tstep (TStartEnds t) s =
     (if pcs (base s) t \<noteq> InHook Open then None
      else if reported (truns s ! hook_run s t)
      then Some (on_base (\<lambda>b. move t (Done Open) (change CONNECTED b)) (s\<lparr>tscope := Some (hook_run s t)\<rparr>))
      else if start_over s (hook_run s t)
      then Some (on_base (\<lambda>b. move t (Failed Open) (change DISCONNECTED b)) s)
      else None)"
| "tstep (RunReturns b u) s =
     (if inside s b \<and> \<not> in_call (pcs (base s) u) \<and> \<not> own_task s u
      then Some (begin_tcall Close u (leave_body b (OwnClose u) s)) else None)"
| "tstep (RunBreaks b) s = (if inside s b then Some (leave_body b Broken s) else None)"
| "tstep (TExitSeen t) s =
     (if pcs (base s) t = InHook Close \<and> closed_set (truns s ! hook_run s t)
      then Some (on_base (\<lambda>b. move t (Done Close) (change DISCONNECTED b)) s) else None)"
| "tstep (TCancel t) s =
     (case pcs (base s) t of
        Waiting k st r \<Rightarrow> Some (on_base (move t (Failed k)) s)
      | InHook Close \<Rightarrow> Some (on_base (\<lambda>b. move t (Failed Close) (change CONNECTED b)) s)
      | _ \<Rightarrow> None)"

fun trun_steps :: "tevt list \<Rightarrow> tsys \<Rightarrow> tsys option" where
  "trun_steps [] s = Some s"
| "trun_steps (e # es) s = (case tstep e s of None \<Rightarrow> None | Some s' \<Rightarrow> trun_steps es s')"

inductive treachable :: "tsys \<Rightarrow> bool" where
  tstart: "treachable init_tsys"
| tnext: "treachable s \<Longrightarrow> tstep e s = Some s' \<Longrightarrow> treachable s'"

text \<open>Orderly schedules, as for listeners; exceptions of the run are part of them.\<close>

fun tprompt :: "tevt \<Rightarrow> tsys \<Rightarrow> bool" where
  "tprompt (TResume t) s = prompt (Resume t) (base s)"
| "tprompt _ s = True"

fun tgentle :: "tevt \<Rightarrow> tsys \<Rightarrow> bool" where
  "tgentle (TCancel t) s =
     (case pcs (base s) t of Waiting k st r \<Rightarrow> k = Open \<or> st = DISCONNECTED | _ \<Rightarrow> False)"
| "tgentle _ s = True"

inductive torderly :: "tsys \<Rightarrow> bool" where
  torderly_start: "torderly init_tsys"
| torderly_next: "torderly s \<Longrightarrow> tprompt e s \<Longrightarrow> tgentle e s \<Longrightarrow> tstep e s = Some s' \<Longrightarrow> torderly s'"

section \<open>The callers are those of the base class\<close>

lemma base_pieces [simp]:
  "base (on_base f s) = f (base s)" "base (launch_run t s) = base s" "base (ask_cancel b s) = base s"
  "base (leave_body b p s) = base s"
  by (simp_all add: on_base_def launch_run_def ask_cancel_def leave_body_def Let_def)

lemma enter_task_base:
  obtains es where "run es (enter_hook k t (base s)) = Some (base (enter_task_hook k t s))"
    and "run_prompt es (enter_hook k t (base s))"
proof (cases k)
  case Open
  then show thesis using that[of "[]"] that[of "[HookRaises t]"]
    by (cases "nursery_given s") (simp_all add: enter_topen_def Let_def enter_hook_def pcs_move move_change_move)
next
  case Close
  then show thesis using that[of "[]"] that[of "[HookReturns t]"]
    by (cases "tscope s"; cases "tevent s")
      (simp_all add: enter_tclose_def Let_def enter_hook_def pcs_move move_change_move)
qed

lemma begin_tcall_base:
  assumes "\<not> in_call (pcs (base s) t)"
  obtains es where "run es (base s) = Some (base (begin_tcall k t s))" and "run_prompt es (base s)"
proof (cases "conn_state (link (base s)) = bad k")
  case True
  obtain es where "run es (enter_hook k t (base s)) = Some (base (enter_task_hook k t s))"
    "run_prompt es (enter_hook k t (base s))" by (rule enter_task_base)
  then show thesis using True assms that[of "Call k t # es"]
    by (simp add: begin_tcall_def begin_call_eq Let_def)
next
  case False
  then show thesis using assms that[of "[Call k t]"] by (simp add: begin_tcall_def)
qed

lemma tstep_base:
  assumes "tstep e s = Some s'"
  shows "\<exists>es. run es (base s) = Some (base s') \<and> (tprompt e s \<longrightarrow> run_prompt es (base s))"
proof (cases e)
  case (TCall k t)
  with assms have "\<not> in_call (pcs (base s) t)" "s' = begin_tcall k t s" by (auto split: if_splits)
  then show ?thesis by (metis begin_tcall_base)
next
  case (RunReturns b u)
  let ?m = "leave_body b (OwnClose u) s"
  from RunReturns assms have "\<not> in_call (pcs (base ?m) u)" "s' = begin_tcall Close u ?m" by (auto split: if_splits)
  then show ?thesis by (metis begin_tcall_base base_pieces(4))
next
  case (TResume t)
  with assms obtain k st where w: "pcs (base s) t = Waiting k st True" and s': "s' = after_twait k st t s"
    by (auto split: pc.splits bool.splits)
  obtain es where "run es (enter_hook k t (base s)) = Some (base (enter_task_hook k t s))"
    "run_prompt es (enter_hook k t (base s))" by (rule enter_task_base)
  then show ?thesis using w s' TResume exI[of _ "[Resume t]"] exI[of _ "Resume t # es"]
    by (cases "st = good k") (fastforce simp: after_twait_def after_wait_def)+
next
  case (TStartEnds t)
  with assms show ?thesis using exI[of _ "[HookReturns t]"] exI[of _ "[HookRaises t]"]
    by (fastforce split: if_splits)
next
  case (TExitSeen t)
  with assms show ?thesis by (intro exI[of _ "[HookReturns t]"]) (auto split: if_splits)
next
  case (TCancel t)
  with assms show ?thesis using exI[of _ "[Cancel t]"] exI[of _ "[HookRaises t]"]
    by (fastforce split: pc.splits call.splits)
qed (use assms in \<open>auto simp: give_nursery_def split: if_splits intro!: exI[of _ "[]"]\<close>)

lemma torderly_base: "torderly s \<Longrightarrow> reachable_promptly (base s)"
proof (induction rule: torderly.induct)
  case (torderly_next s e s')
  then show ?case using tstep_base run_prompt_reachable by blast
qed (simp add: init_tsys_def reachable_promptly.start_prompt)

lemma treachable_base: "treachable s \<Longrightarrow> reachable (base s)"
proof (induction rule: treachable.induct)
  case (tnext s e s')
  then show ?case using tstep_base run_reachable by blast
qed (simp add: init_tsys_def reachable.start)

lemma torderly_treachable: "torderly s \<Longrightarrow> treachable s"
  by (induction rule: torderly.induct) (auto intro: treachable.intros)

section \<open>Invariant of orderly schedules\<close>

definition truns_inv :: "connection_state \<Rightarrow> trun list \<Rightarrow> nat option \<Rightarrow> nat option \<Rightarrow> bool" where
  "truns_inv st rs sc ev \<longleftrightarrow>
     (\<forall>r \<in> set (butlast rs). place_of r \<noteq> Inside) \<and>
     sc = (if st = CONNECTED then Some (length rs - 1) else None) \<and>
     (if rs = [] then st = DISCONNECTED \<and> ev = None
      else (ev = Some (length rs - 1) \<or> ev = None \<and> st = DISCONNECTED) \<and>
        (if place_of (last rs) = Inside
         then st \<noteq> DISCONNECTED \<and> \<not> closed_set (last rs) \<and> cancel_asked (last rs) = (st = DISCONNECTING) \<and>
           (st \<noteq> CONNECTING \<longrightarrow> reported (last rs))
         else ev \<noteq> None \<longrightarrow> closed_set (last rs)))"

definition own_close_coming :: "tsys \<Rightarrow> bool" where
  "own_close_coming s \<longleftrightarrow> (\<exists>t r. pcs (base s) t = Waiting Close CONNECTED r)"

definition hooks_last :: "tsys \<Rightarrow> bool" where
  "hooks_last s \<longleftrightarrow> (\<forall>t k. pcs (base s) t = InHook k \<longrightarrow> Suc (hook_run s t) = length (truns s))"

definition tinv :: "tsys \<Rightarrow> bool" where
  "tinv s \<longleftrightarrow>
     truns_inv (conn_state (link (base s))) (truns s) (tscope s) (tevent s) \<and> hooks_last s \<and>
     (conn_state (link (base s)) \<in> {CONNECTING, CONNECTED} \<and> (\<exists>u. place_of (last (truns s)) = OwnClose u) \<longrightarrow>
        own_close_coming s)"

lemma truns_inv_Nil [simp]: "truns_inv st [] sc ev \<longleftrightarrow> st = DISCONNECTED \<and> sc = None \<and> ev = None"
  by (auto simp: truns_inv_def)

lemma truns_inv_snoc [simp]:
  "truns_inv st (old @ [r]) sc ev \<longleftrightarrow>
     (\<forall>x \<in> set old. place_of x \<noteq> Inside) \<and> sc = (if st = CONNECTED then Some (length old) else None) \<and>
     (ev = Some (length old) \<or> ev = None \<and> st = DISCONNECTED) \<and>
     (if place_of r = Inside
      then st \<noteq> DISCONNECTED \<and> \<not> closed_set r \<and> cancel_asked r = (st = DISCONNECTING) \<and> (st \<noteq> CONNECTING \<longrightarrow> reported r)
      else ev \<noteq> None \<longrightarrow> closed_set r)"
  by (simp add: truns_inv_def)

lemma tfields [simp]:
  "truns (on_base f s) = truns s" "tscope (on_base f s) = tscope s" "tevent (on_base f s) = tevent s"
  "hook_run (on_base f s) = hook_run s" "nursery_given (on_base f s) = nursery_given s"
  "tscope (leave_body b p s) = tscope s" "tevent (leave_body b p s) = tevent s"
  "hook_run (leave_body b p s) = hook_run s" "nursery_given (leave_body b p s) = nursery_given s"
  by (simp_all add: on_base_def leave_body_def Let_def)

lemma own_close_coming_change:
  "(\<exists>t r. pcs (change st b) t = Waiting Close CONNECTED r) = (\<exists>t r. pcs b t = Waiting Close CONNECTED r)"
  by (auto simp: pcs_change release1_Waiting)

text \<open>The last run, and the hooks.\<close>

lemma inside_last:
  assumes "truns_inv st (truns s) sc ev" and "inside s b"
  obtains old r where "truns s = old @ [r]" "b = length old" "place_of r = Inside" "ev = Some b"
proof (cases "truns s" rule: rev_cases)
  case Nil
  then show thesis using assms(2) by (simp add: inside_def)
next
  case (snoc old r)
  have "b = length old"
    using assms snoc by (auto simp: inside_def nth_append less_Suc_eq split: if_splits)
  then show thesis using that[OF snoc] assms snoc by (auto simp: inside_def)
qed

lemma thook_state:
  assumes "hooks_match (base s)"
  shows "pcs (base s) t = InHook k \<Longrightarrow> conn_state (link (base s)) = via k"
    and "conn_state (link (base s)) = bad k \<Longrightarrow> pcs (base s) u \<noteq> InHook k'"
  using assms hooks_match_no_hook unfolding hooks_match_def by blast+

lemma tinv_init: "tinv init_tsys"
  by (simp add: tinv_def init_tsys_def init_sys_def hooks_last_def)

text \<open>A caller that moves outside the hooks.\<close>

lemma tinv_move:
  assumes "tinv s" and "\<And>r. pcs (base s) t \<noteq> Waiting Close CONNECTED r \<or> p = Waiting Close CONNECTED r"
    and "\<And>k. p \<noteq> InHook k"
  shows "tinv (on_base (move t p) s)"
proof -
  have "own_close_coming (on_base (move t p) s)" if "own_close_coming s"
    using that assms(2) unfolding own_close_coming_def by (metis base_pieces(1) pcs_move)
  moreover have "hooks_last (on_base (move t p) s)"
    using assms(1,3) by (auto simp: tinv_def hooks_last_def pcs_move)
  ultimately show ?thesis using assms(1) by (simp add: tinv_def)
qed

lemma tinv_enter_topen:
  assumes inv: "tinv s" and down: "conn_state (link (base s)) = DISCONNECTED" and no: "\<And>u k. pcs (base s) u \<noteq> InHook k"
  shows "tinv (enter_task_hook Open t s)"
proof -
  have r: "truns_inv DISCONNECTED (truns s) (tscope s) (tevent s)" using inv down by (simp add: tinv_def)
  then have "\<forall>x \<in> set (truns s). place_of x \<noteq> Inside"
    by (cases "truns s" rule: rev_cases) (auto split: if_splits)
  moreover have "tscope s = None" using r by (simp add: truns_inv_def)
  ultimately show ?thesis
    using r no
    by (cases "nursery_given s")
      (auto simp: enter_topen_def Let_def tinv_def launch_run_def hooks_last_def enter_hook_def pcs_move pcs_change
        on_base_def)
qed

lemma tinv_enter_tclose:
  assumes r: "truns_inv CONNECTED (truns s) (tscope s) (tevent s)" and no: "\<And>u k. pcs (base s) u \<noteq> InHook k"
  shows "tinv (enter_task_hook Close t s)"
proof (cases "truns s" rule: rev_cases)
  case (snoc old x)
  then show ?thesis using r no
    by (cases "place_of x")
      (auto simp: enter_tclose_def Let_def tinv_def ask_cancel_def hooks_last_def enter_hook_def pcs_move pcs_change
        on_base_def)
qed (use r in simp)

lemma begin_call_moves:
  assumes "conn_state (link b) \<noteq> bad k"
  obtains p where "begin_call k t b = move t p b" and "\<And>k. p \<noteq> InHook k"
proof (cases "conn_state (link b) = good k")
  case True
  then show thesis using that[of "Done k"] by (simp add: begin_call_eq)
next
  case False
  then show thesis
    using assms that[of "Waiting k (good k) (flag_of (good k) (link b))"] that[of "Waiting k (bad k) (flag_of (bad k) (link b))"]
    by (cases "conn_state (link b) = via k") (simp_all add: begin_call_eq wait_for_def)
qed

lemma tinv_begin_tcall:
  assumes "tinv s" and "hooks_match (base s)" and "\<not> in_call (pcs (base s) t)"
  shows "tinv (begin_tcall k t s)"
proof (cases "conn_state (link (base s)) = bad k")
  case True
  then have no: "\<And>u k. pcs (base s) u \<noteq> InHook k" using thook_state(2)[OF assms(2)] by blast
  show ?thesis
    using True no tinv_enter_topen[OF assms(1)] tinv_enter_tclose[of s] assms(1)
    by (cases k) (auto simp: begin_tcall_def tinv_def)
next
  case False
  then obtain p where p: "begin_call k t (base s) = move t p (base s)" "\<And>k. p \<noteq> InHook k"
    using begin_call_moves[of "base s" k t] by metis
  have "on_base (begin_call k t) s = on_base (move t p) s" using p by (simp add: on_base_def)
  moreover have "pcs (base s) t \<noteq> Waiting Close CONNECTED r" for r using assms(3) by auto
  ultimately show ?thesis using False p(2) tinv_move[OF assms(1)] by (simp add: begin_tcall_def)
qed

lemma tinv_after_twait:
  assumes "tinv s" and "hooks_match (base s)" and w: "pcs (base s) t = Waiting k st r"
    and "st = good k \<or> conn_state (link (base s)) = st" and "waits_wf (base s)"
  shows "tinv (after_twait k st t s)"
proof (cases "st = good k")
  case True
  then have "pcs (base s) t \<noteq> Waiting Close CONNECTED r'" for r' using w by auto
  then show ?thesis using True tinv_move[OF assms(1)] by (simp add: after_twait_def)
next
  case False
  then have b: "conn_state (link (base s)) = bad k" using assms(4,5) w by (auto simp: waits_wf_def)
  then have "\<And>u k. pcs (base s) u \<noteq> InHook k" using thook_state(2)[OF assms(2)] by blast
  then show ?thesis
    using False b tinv_enter_topen[OF assms(1)] tinv_enter_tclose[of s] assms(1)
    by (cases k) (auto simp: after_twait_def tinv_def)
qed

text \<open>The steps of the runs.\<close>

lemma tinv_inside:
  assumes "tinv s" and "inside s b"
  obtains old r where "truns s = old @ [r]" "b = length old" "place_of r = Inside" "tevent s = Some b"
  using assms inside_last unfolding tinv_def by metis

lemma tinv_broken:
  assumes "tinv s" and "inside s b"
  shows "tinv (leave_body b Broken s)"
proof -
  obtain old r where "truns s = old @ [r]" "b = length old" "place_of r = Inside" "tevent s = Some b"
    by (rule tinv_inside[OF assms])
  then show ?thesis using assms(1)
    by (auto simp: tinv_def leave_body_def Let_def hooks_last_def split: if_splits)
qed

lemma tinv_reports:
  assumes "tinv s" and "inside s b"
  shows "tinv (s\<lparr>truns := (truns s)[b := (truns s ! b)\<lparr>reported := True\<rparr>]\<rparr>)"
proof -
  obtain old r where "truns s = old @ [r]" "b = length old" "place_of r = Inside" "tevent s = Some b"
    by (rule tinv_inside[OF assms])
  then show ?thesis using assms(1)
    by (auto simp: tinv_def hooks_last_def own_close_coming_def split: if_splits)
qed

lemma tinv_run_returns:
  assumes "tinv s" and "hooks_match (base s)" and "inside s b" and idle: "\<not> in_call (pcs (base s) u)"
  shows "tinv (begin_tcall Close u (leave_body b (OwnClose u) s))"
proof -
  let ?m = "leave_body b (OwnClose u) s"
  obtain old r where o: "truns s = old @ [r]" "b = length old" "place_of r = Inside" "tevent s = Some b"
    by (rule tinv_inside[OF assms(1,3)])
  have m: "truns_inv (conn_state (link (base s))) (truns ?m) (tscope s) (tevent s)" "hooks_last ?m"
    using assms(1) o by (auto simp: tinv_def leave_body_def Let_def hooks_last_def)
  show ?thesis
  proof (cases "conn_state (link (base s))")
    case CONNECTED
    then have "pcs (base ?m) u' \<noteq> InHook k'" for u' k' using thook_state(2)[OF assms(2), of Close] by simp
    then show ?thesis using CONNECTED m tinv_enter_tclose[of ?m] by (simp add: begin_tcall_def)
  next
    case DISCONNECTING
    then have "tinv ?m" using m by (simp add: tinv_def)
    then show ?thesis using assms(2) idle by (intro tinv_begin_tcall) simp_all
  next
    case CONNECTING
    have "own_close_coming (on_base (wait_for Close CONNECTED u) ?m)"
      unfolding own_close_coming_def wait_for_def by (metis base_pieces(1) pcs_move)
    then show ?thesis using CONNECTING m idle
      by (auto simp: begin_tcall_def begin_call_def tinv_def hooks_last_def wait_for_def pcs_move on_base_def)
  next
    case DISCONNECTED
    then show ?thesis using assms(1) o by (simp add: tinv_def)
  qed
qed

text \<open>The ends of the hooks.\<close>

lemma tinv_hook:
  assumes "tinv s" and "pcs (base s) t = InHook k"
  obtains old r where "truns s = old @ [r]" "hook_run s t = length old"
proof -
  have "Suc (hook_run s t) = length (truns s)" using assms by (auto simp: tinv_def hooks_last_def)
  then show thesis using that by (cases "truns s" rule: rev_cases) auto
qed

lemma hooks_last_back:
  "hooks_last s \<Longrightarrow> (\<And>k. p \<noteq> InHook k) \<Longrightarrow> hooks_last (on_base (\<lambda>b. move t p (change st b)) s)"
  by (auto simp: hooks_last_def pcs_move pcs_change)

lemma coming_back:
  "own_close_coming s \<Longrightarrow> pcs (base s) t = InHook k \<Longrightarrow> own_close_coming (on_base (\<lambda>b. move t p (change st b)) s)"
proof -
  assume "own_close_coming s" and h: "pcs (base s) t = InHook k"
  then obtain u r where "pcs (change st (base s)) u = Waiting Close CONNECTED r"
    using own_close_coming_change unfolding own_close_coming_def by blast
  moreover have "u \<noteq> t" using calculation h by (auto simp: pcs_change)
  ultimately show ?thesis unfolding own_close_coming_def by (metis base_pieces(1) pcs_move)
qed

lemma tinv_start_ends:
  assumes "tinv s" and "hooks_match (base s)" and "tstep (TStartEnds t) s = Some s'"
  shows "tinv s'"
proof -
  have h: "pcs (base s) t = InHook Open" using assms(3) by (auto split: if_splits)
  obtain old r where r: "truns s = old @ [r]" "hook_run s t = length old" by (rule tinv_hook[OF assms(1) h])
  have c: "conn_state (link (base s)) = CONNECTING" using thook_state(1)[OF assms(2) h] by simp
  have hl: "hooks_last s" "hooks_last (s\<lparr>tscope := x\<rparr>)" for x using assms(1) by (auto simp: tinv_def hooks_last_def)
  have co: "own_close_coming (s\<lparr>tscope := x\<rparr>) = own_close_coming s" for x by (simp add: own_close_coming_def)
  show ?thesis
    using assms(1,3) h r c hooks_last_back[OF hl(1)] hooks_last_back[OF hl(2)] coming_back[of "s\<lparr>tscope := x\<rparr>" t Open for x]
    by (cases "place_of r") (auto simp: tinv_def co start_over_def split: if_splits)
qed

lemma tinv_exit_seen:
  assumes "tinv s" and "hooks_match (base s)" and "tstep (TExitSeen t) s = Some s'"
  shows "tinv s'"
proof -
  have h: "pcs (base s) t = InHook Close" using assms(3) by (auto split: if_splits)
  obtain old r where r: "truns s = old @ [r]" "hook_run s t = length old" by (rule tinv_hook[OF assms(1) h])
  have c: "conn_state (link (base s)) = DISCONNECTING" using thook_state(1)[OF assms(2) h] by simp
  have "hooks_last s" using assms(1) by (simp add: tinv_def)
  from hooks_last_back[OF this] show ?thesis
    using assms(1,3) h r c by (auto simp: tinv_def split: if_splits)
qed

lemma tinv_step:
  assumes "tinv s" and "reachable_promptly (base s)" and "tprompt e s" and "tgentle e s" and "tstep e s = Some s'"
  shows "tinv s'"
proof -
  have m: "hooks_match (base s)" and wf: "waits_wf (base s)"
    using reachable_promptly_inv[OF assms(2)] reachable_inv[of "base s"] by (simp_all add: tasks_inv_def)
  show ?thesis
  proof (cases e)
    case TAssign
    then have "conn_state (link (base s)) = DISCONNECTED" "s' = s\<lparr>nursery_given := True, tscope := None, tevent := None\<rparr>"
      using assms(5) by (auto simp: give_nursery_def split: if_splits)
    then show ?thesis using assms(1)
      by (cases "truns s" rule: rev_cases) (auto simp: tinv_def hooks_last_def split: if_splits)
  next
    case (TCall k t)
    then show ?thesis using assms(5) tinv_begin_tcall[OF assms(1) m] by (auto split: if_splits)
  next
    case (TResume t)
    then obtain k st where w: "pcs (base s) t = Waiting k st True" and s': "s' = after_twait k st t s"
      using assms(5) by (auto split: pc.splits bool.splits)
    then show ?thesis using TResume assms(3) tinv_after_twait[OF assms(1) m w _ wf] by simp
  next
    case (TReports b)
    then show ?thesis using assms(5) tinv_reports[OF assms(1)] by (auto split: if_splits)
  next
    case (TStartEnds t)
    then show ?thesis using tinv_start_ends[OF assms(1) m] assms(5) by simp
  next
    case (RunReturns b u)
    then show ?thesis using assms(5) tinv_run_returns[OF assms(1) m] by (auto split: if_splits)
  next
    case (RunBreaks b)
    then show ?thesis using assms(5) tinv_broken[OF assms(1)] by (auto split: if_splits)
  next
    case (TExitSeen t)
    then show ?thesis using tinv_exit_seen[OF assms(1) m] assms(5) by simp
  next
    case (TCancel t)
    then obtain k st r where w: "pcs (base s) t = Waiting k st r" "k = Open \<or> st = DISCONNECTED"
      and s': "s' = on_base (move t (Failed k)) s"
      using assms(4,5) by (auto split: pc.splits)
    then have "pcs (base s) t \<noteq> Waiting Close CONNECTED r'" for r' by auto
    then show ?thesis using s' tinv_move[OF assms(1)] by simp
  qed
qed

lemma torderly_tinv: "torderly s \<Longrightarrow> tinv s"
proof (induction rule: torderly.induct)
  case (torderly_next s e s')
  then show ?case using tinv_step torderly_base by blast
qed (rule tinv_init)

lemma torderly_facts:
  assumes "torderly s"
  shows "tinv s" and "truns_inv (conn_state (link (base s))) (truns s) (tscope s) (tevent s)"
    and "hooks_match (base s)" and "no_lost_wakeup (base s)"
  using torderly_tinv[OF assms] reachable_promptly_inv[OF torderly_base[OF assms]]
    reachable_inv[of "base s"] by (simp_all add: tinv_def tasks_inv_def)

lemma torderly_connected:
  assumes "torderly s" and c: "conn_state (link (base s)) = CONNECTED"
  shows "\<exists>b. tscope s = Some b \<and> b < length (truns s) \<and>
    (inside s b \<and> reported (truns s ! b) \<and> \<not> cancel_asked (truns s ! b) \<or> place_of (truns s ! b) = Broken \<or>
     (\<exists>t. pcs (base s) t = Waiting Close CONNECTED True))"
proof -
  note r = torderly_facts(2)[OF assms(1)]
  obtain old x where x: "truns s = old @ [x]" using r c by (cases "truns s" rule: rev_cases) auto
  have "pcs (base s) t \<noteq> Waiting Close CONNECTED False" for t
    using torderly_facts(4)[OF assms(1)] c unfolding no_lost_wakeup_def by blast
  then have "\<exists>t. pcs (base s) t = Waiting Close CONNECTED True" if "place_of x = OwnClose u" for u
    using torderly_facts(1)[OF assms(1)] c x that unfolding tinv_def own_close_coming_def
    by simp (metis (full_types))
  then show ?thesis
    using r c x by (intro exI[of _ "length old"]) (cases "place_of x"; simp add: inside_def)
qed

lemma torderly_close_finishes:
  assumes "torderly s" and h: "pcs (base s) t = InHook Close"
  shows "\<exists>es s'. trun_steps es s = Some s' \<and> pcs (base s') t = Done Close \<and> conn_state (link (base s')) = DISCONNECTED"
proof -
  note r = torderly_facts(2)[OF assms(1)]
  have c: "conn_state (link (base s)) = DISCONNECTING" using thook_state(1)[OF torderly_facts(3)[OF assms(1)] h] by simp
  obtain old x where x: "truns s = old @ [x]" "hook_run s t = length old"
    by (rule tinv_hook[OF torderly_facts(1)[OF assms(1)] h])
  show ?thesis
  proof (cases "place_of x = Inside")
    case False
    then show ?thesis using r c x h
      by (intro exI[of _ "[TExitSeen t]"]) (auto simp: pcs_move split: if_splits)
  next
    case True
    then show ?thesis using r c x h
      by (intro exI[of _ "[RunBreaks (length old), TExitSeen t]"])
        (auto simp: pcs_move inside_def leave_body_def Let_def)
  qed
qed

section \<open>A task that ends without reporting its start\<close>

text \<open>
  The caller \<open>t\<close> of \<^verbatim>\<open>open()\<close> waits for the start of run \<open>b\<close>, the task of which waits as caller \<open>u\<close> in
  \<^verbatim>\<open>close()\<close> for the end of that \<^verbatim>\<open>open()\<close>.
\<close>

definition start_stuck :: "nat \<Rightarrow> nat \<Rightarrow> nat \<Rightarrow> tsys \<Rightarrow> bool" where
  "start_stuck t b u s \<longleftrightarrow>
     flags_ok (link (base s)) \<and> conn_state (link (base s)) = CONNECTING \<and>
     pcs (base s) t = InHook Open \<and> hook_run s t = b \<and>
     place_of (truns s ! b) = OwnClose u \<and> \<not> reported (truns s ! b) \<and>
     pcs (base s) u = Waiting Close CONNECTED False \<and> (\<forall>c. \<not> inside s c) \<and>
     (\<forall>v k. pcs (base s) v = InHook k \<longrightarrow> v = t) \<and> (\<forall>v k st. pcs (base s) v \<noteq> Waiting k st True)"

lemma start_stuck_move:
  assumes "start_stuck t b u s" and "v \<noteq> t" "v \<noteq> u" and "p = Failed k \<or> p = Waiting k CONNECTED False"
  shows "start_stuck t b u (on_base (move v p) s)"
  using assms by (auto simp: start_stuck_def pcs_move inside_def)

lemma start_stuck_step:
  assumes "tstep e s = Some s'" and "start_stuck t b u s" and "e \<noteq> TCancel u"
  shows "start_stuck t b u s'"
proof (cases e)
  case (TCall k v)
  then have v: "v \<noteq> t" "v \<noteq> u" "s' = begin_tcall k v s"
    using assms(1,2) by (auto simp: start_stuck_def split: if_splits)
  have "s' = on_base (move v (Waiting k CONNECTED False)) s"
    using v(3) assms(2) by (cases k) (auto simp: start_stuck_def begin_tcall_def begin_call_def wait_for_def flags_ok_def on_base_def)
  then show ?thesis using start_stuck_move[OF assms(2) v(1,2)] by blast
next
  case (TStartEnds v)
  then have "v = t" using assms(1,2) by (auto simp: start_stuck_def split: if_splits)
  then show ?thesis using TStartEnds assms(1,2) by (auto simp: start_stuck_def start_over_def split: if_splits)
next
  case (TResume v)
  then show ?thesis using assms(1,2) by (auto simp: start_stuck_def split: pc.splits bool.splits)
next
  case (TCancel v)
  have "v \<noteq> u" using TCancel assms(3) by auto
  moreover obtain k st r where w: "pcs (base s) v = Waiting k st r" "s' = on_base (move v (Failed k)) s"
    using TCancel assms(1,2) by (auto simp: start_stuck_def split: pc.splits call.splits)
  moreover have "v \<noteq> t" using w(1) assms(2) by (auto simp: start_stuck_def)
  ultimately show ?thesis using start_stuck_move[OF assms(2)] by blast
qed (use assms(1,2) in \<open>auto simp: start_stuck_def give_nursery_def split: if_splits\<close>)

lemma start_stuck_run:
  "trun_steps es s = Some s' \<Longrightarrow> start_stuck t b u s \<Longrightarrow> TCancel u \<notin> set es \<Longrightarrow> start_stuck t b u s'"
proof (induction es arbitrary: s)
  case (Cons e es)
  then obtain m where "tstep e s = Some m" "trun_steps es m = Some s'" by (auto split: option.splits)
  then show ?case using Cons.IH[of m] Cons.prems start_stuck_step[of e s m t b u] by auto
qed simp

lemma start_stuck_begins:
  assumes "torderly s" and h: "pcs (base s) t = InHook Open" and i: "inside s b" "\<not> reported (truns s ! b)"
    and "\<And>v k st. pcs (base s) v \<noteq> Waiting k st True" and "tstep (RunReturns b u) s = Some s1"
  shows "start_stuck t b u s1"
proof -
  note facts = torderly_facts[OF assms(1)]
  have c: "conn_state (link (base s)) = CONNECTING" using thook_state(1)[OF facts(3) h] by simp
  have f: "flags_ok (link (base s))"
    using reachable_inv[OF treachable_base[OF torderly_treachable[OF assms(1)]]] by (simp add: tasks_inv_def)
  obtain old r where r: "truns s = old @ [r]" "b = length old" "place_of r = Inside" "tevent s = Some b"
    by (rule inside_last[OF facts(2) i(1)])
  have hr: "hook_run s t = b" by (rule tinv_hook[OF facts(1) h]) (use r in simp)
  have u: "\<not> in_call (pcs (base s) u)" and s1: "s1 = begin_tcall Close u (leave_body b (OwnClose u) s)"
    using assms(6) by (auto split: if_splits)
  have s1: "s1 = on_base (move u (Waiting Close CONNECTED False)) (leave_body b (OwnClose u) s)"
    using s1 c f by (simp add: begin_tcall_def begin_call_def wait_for_def flags_ok_def on_base_def)
  have only: "v = t" if "pcs (base s) v = InHook k" for v k
    using facts(3) h that unfolding hooks_match_def by blast
  have gone: "\<not> inside (leave_body b (OwnClose u) s) c'" for c'
    using facts(2) c r by (auto simp: inside_def leave_body_def Let_def nth_append less_Suc_eq)
  have tr: "truns (leave_body b (OwnClose u) s) = old @ [r\<lparr>place_of := OwnClose u, closed_set := True\<rparr>]"
    using r by (simp add: leave_body_def Let_def)
  have p: "pcs (base s1) v = (if v = u then Waiting Close CONNECTED False else pcs (base s) v)" for v
    by (simp add: s1 pcs_move)
  have ins: "\<not> inside s1 c'" for c' using gone[of c'] by (simp add: s1 inside_def)
  have ut: "u \<noteq> t" using u h by auto
  have nr: "\<not> reported r" using i(2) r by simp
  have lk: "link (base s1) = link (base s)" "hook_run s1 = hook_run s" "truns s1 ! b = r\<lparr>place_of := OwnClose u, closed_set := True\<rparr>"
    using tr r(2) by (simp_all add: s1)
  show ?thesis
    unfolding start_stuck_def lk p
  proof (intro conjI allI impI)
    fix v k assume "(if v = u then Waiting Close CONNECTED False else pcs (base s) v) = InHook k"
    then show "v = t" using only by (simp split: if_splits)
  qed (use f c h hr ut nr ins assms(5) in simp_all)
qed

section \<open>Properties\<close>

text \<open>
  C11. On orderly schedules with any number of callers in any state: at most one task is inside \<^verbatim>\<open>_run()\<close>; none is
  when the connection is closed; when it is open, the connection holds the scope of a task that has reported
  \<^verbatim>\<open>started()\<close> and is not cancelled, unless its \<^verbatim>\<open>_run()\<close> was ended by an exception or from outside, or a \<^verbatim>\<open>close()\<close> has been
  released; and a \<^verbatim>\<open>close()\<close> in its hook can finish.
\<close>

theorem task_connection_with_callers:
  assumes "torderly s"
  shows "(inside s b \<and> inside s c \<longrightarrow> b = c) \<and>
    (conn_state (link (base s)) = DISCONNECTED \<longrightarrow> \<not> inside s b) \<and>
    (conn_state (link (base s)) = CONNECTED \<longrightarrow>
       (\<exists>d. tscope s = Some d \<and> d < length (truns s) \<and>
          (inside s d \<and> reported (truns s ! d) \<and> \<not> cancel_asked (truns s ! d) \<or> place_of (truns s ! d) = Broken \<or>
           (\<exists>t. pcs (base s) t = Waiting Close CONNECTED True)))) \<and>
    (pcs (base s) t = InHook Close \<longrightarrow>
       (\<exists>es s'. trun_steps es s = Some s' \<and> pcs (base s') t = Done Close \<and> conn_state (link (base s')) = DISCONNECTED))"
proof -
  note r = torderly_facts(2)[OF assms]
  have "b = c" if "inside s b" "inside s c"
    using inside_last[OF r that(1)] inside_last[OF r that(2)] by (metis append1_eq_conv)
  moreover have "\<not> inside s b" if "conn_state (link (base s)) = DISCONNECTED"
  proof
    assume "inside s b"
    then obtain old x where "truns s = old @ [x]" "place_of x = Inside" by (rule inside_last[OF r])
    then show False using r that by simp
  qed
  ultimately show ?thesis
    using torderly_connected[OF assms] torderly_close_finishes[OF assms] by blast
qed

text \<open>
  C16. A \<^verbatim>\<open>close()\<close> that is cancelled while the task ends puts the connection back to \<open>CONNECTED\<close>, without its
  scope. If the task ends next, it closes the connection itself. But a second \<^verbatim>\<open>close()\<close> before that finds no
  scope, does not wait, and reports the connection as disconnected while the task is still inside \<^verbatim>\<open>_run()\<close>.
\<close>

theorem cancelled_close_forgets_task:
  assumes "torderly s" and h: "pcs (base s) t = InHook Close" and i: "inside s b" and "tstep (TCancel t) s = Some s1"
    and idle: "\<not> in_call (pcs (base s) u)" "\<not> own_task s u"
  shows "conn_state (link (base s1)) = CONNECTED \<and>
    (\<exists>s2. tstep (RunReturns b u) s1 = Some s2 \<and> conn_state (link (base s2)) = DISCONNECTED \<and> \<not> inside s2 b) \<and>
    (\<exists>s2. tstep (TCall Close u) s1 = Some s2 \<and> pcs (base s2) u = Done Close \<and>
       conn_state (link (base s2)) = DISCONNECTED \<and> inside s2 b)"
proof -
  note r = torderly_facts(2)[OF assms(1)]
  have c: "conn_state (link (base s)) = DISCONNECTING" using thook_state(1)[OF torderly_facts(3)[OF assms(1)] h] by simp
  obtain old x where x: "truns s = old @ [x]" "b = length old" "place_of x = Inside" "tevent s = Some b"
    by (rule inside_last[OF r i])
  have s1: "s1 = on_base (\<lambda>b. move t (Failed Close) (change CONNECTED b)) s" using assms(4) h by simp
  have ut: "u \<noteq> t" using h idle(1) by auto
  have "\<not> in_call (release1 a a' (pcs (base s) u))" for a a' using idle(1) by (cases "pcs (base s) u") auto
  then have u: "\<not> in_call (pcs (base s1) u)" "\<not> own_task s1 u" "inside s1 b" "tscope s1 = None" "conn_state (link (base s1)) = CONNECTED"
    using idle ut i r c by (simp_all add: s1 pcs_move pcs_change own_task_def inside_def truns_inv_def)
  have "\<exists>s2. tstep (RunReturns b u) s1 = Some s2 \<and> conn_state (link (base s2)) = DISCONNECTED \<and> \<not> inside s2 b"
    using u x by (simp add: begin_tcall_def enter_tclose_def Let_def inside_def, simp add: s1 leave_body_def Let_def)
  moreover have "\<exists>s2. tstep (TCall Close u) s1 = Some s2 \<and> pcs (base s2) u = Done Close \<and>
       conn_state (link (base s2)) = DISCONNECTED \<and> inside s2 b"
    using u by (simp add: begin_tcall_def enter_tclose_def Let_def inside_def pcs_move)
  ultimately show ?thesis using u(5) by blast
qed

text \<open>
  C26. A task whose \<^verbatim>\<open>_run()\<close> returns without having called \<^verbatim>\<open>started()\<close> hangs the connection. On an orderly
  schedule, with no caller that is released from a wait and has not resumed yet: the task then waits in its own
  \<^verbatim>\<open>close()\<close> for the connection to be connected, \<^verbatim>\<open>open()\<close> waits for the task, no task is inside \<^verbatim>\<open>_run()\<close>, and
  the connection stays \<open>CONNECTING\<close> whatever the callers do, until the task is cancelled in its \<^verbatim>\<open>close()\<close> (with its
  nursery, or with the caller of \<^verbatim>\<open>open()\<close>, under whose scope it still is). Only then can \<^verbatim>\<open>open()\<close> fail.
\<close>

theorem return_before_started_hangs:
  assumes "torderly s" and "pcs (base s) t = InHook Open" and "inside s b" and "\<not> reported (truns s ! b)"
    and "\<And>v k st. pcs (base s) v \<noteq> Waiting k st True" and "tstep (RunReturns b u) s = Some s1"
    and "trun_steps es s1 = Some z" and "TCancel u \<notin> set es"
  shows "conn_state (link (base z)) = CONNECTING \<and> pcs (base z) t = InHook Open \<and> tstep (TStartEnds t) z = None \<and>
    pcs (base z) u = Waiting Close CONNECTED False \<and> (\<forall>c. \<not> inside z c) \<and>
    (\<exists>z1 z2. tstep (TCancel u) z = Some z1 \<and> tstep (TStartEnds t) z1 = Some z2 \<and>
       pcs (base z2) t = Failed Open \<and> conn_state (link (base z2)) = DISCONNECTED)"
proof -
  have st: "start_stuck t b u z" by (rule start_stuck_run[OF assms(7) start_stuck_begins[OF assms(1-6)] assms(8)])
  have "u \<noteq> t" using st by (auto simp: start_stuck_def)
  then have "\<exists>z1 z2. tstep (TCancel u) z = Some z1 \<and> tstep (TStartEnds t) z1 = Some z2 \<and>
      pcs (base z2) t = Failed Open \<and> conn_state (link (base z2)) = DISCONNECTED"
    using st by (simp add: start_stuck_def start_over_def pcs_move)
  then show ?thesis using st by (auto simp: start_stuck_def start_over_def)
qed

section \<open>Witnesses\<close>

text \<open>Caller 2 has opened the connection, caller 3 is closing it.\<close>

definition tsys_start :: tsys where
  "tsys_start = the (give_nursery init_tsys)"

definition tsys_opening :: tsys where
  "tsys_opening = enter_topen 2 tsys_start"

definition tsys_open :: tsys where
  "tsys_open = the (trun_steps [TReports 0, TStartEnds 2] tsys_opening)"

definition tsys_closing :: tsys where
  "tsys_closing = enter_tclose 3 tsys_open"

lemmas teval_simps = tsys_start_def tsys_opening_def tsys_open_def init_tsys_def give_nursery_def enter_topen_def
  launch_run_def on_base_def inside_def eval_simps

lemma tsys_open_simps:
  "conn_state (link (base tsys_open)) = CONNECTED" "pcs (base tsys_open) t = (if t = 2 then Done Open else Idle)"
  "truns tsys_open = [\<lparr>place_of = Inside, reported = True, cancel_asked = False, closed_set = False\<rparr>]"
  "tscope tsys_open = Some 0" "tevent tsys_open = Some 0"
  by (simp_all add: teval_simps)

lemma tsys_closing_simps:
  "pcs (base tsys_closing) 3 = InHook Close" "pcs (base tsys_closing) 4 = Idle" "inside tsys_closing 0" "\<not> own_task tsys_closing 4"
  by (simp_all add: tsys_closing_def enter_tclose_def Let_def tsys_open_simps ask_cancel_def enter_hook_def pcs_move
      pcs_change inside_def own_task_def)

lemma tstep_orderly: "torderly s \<Longrightarrow> tstep e s = Some s' \<Longrightarrow> tprompt e s \<and> tgentle e s \<Longrightarrow> torderly s'"
  by (blast intro: torderly_next)

lemma tsys_opening_reachable: "torderly tsys_opening"
proof -
  have s: "tstep TAssign init_tsys = Some tsys_start" by (simp add: teval_simps)
  have o: "tstep (TCall Open 2) tsys_start = Some tsys_opening"
    by (simp add: tsys_opening_def begin_tcall_def) (simp add: teval_simps own_task_def)
  show ?thesis by (rule tstep_orderly[OF tstep_orderly[OF torderly_start s] o]) simp_all
qed

lemma tsys_open_reachable: "torderly tsys_open"
proof -
  obtain m where m: "tstep (TReports 0) tsys_opening = Some m" "tstep (TStartEnds 2) m = Some tsys_open"
    by (simp add: teval_simps)
  show ?thesis by (rule tstep_orderly[OF tstep_orderly[OF tsys_opening_reachable m(1)] m(2)]) simp_all
qed

lemma tsys_closing_reachable: "torderly tsys_closing"
  by (rule tstep_orderly[OF tsys_open_reachable, of "TCall Close 3"])
    (simp_all add: tsys_closing_def begin_tcall_def tsys_open_simps own_task_def)

theorem task_connection_with_callers_witness:
  "inside tsys_closing 0 \<and> (\<exists>es s'. trun_steps es tsys_closing = Some s' \<and> pcs (base s') 3 = Done Close)"
  using task_connection_with_callers[OF tsys_closing_reachable, of 0 0 3] tsys_closing_simps by blast

theorem cancelled_close_forgets_task_witness:
  "\<exists>s1 s2. tstep (TCancel 3) tsys_closing = Some s1 \<and> tstep (TCall Close 4) s1 = Some s2 \<and>
     conn_state (link (base s2)) = DISCONNECTED \<and> inside s2 0"
proof -
  obtain s1 where s1: "tstep (TCancel 3) tsys_closing = Some s1" by (simp add: tsys_closing_simps)
  show ?thesis
    using cancelled_close_forgets_task[OF tsys_closing_reachable tsys_closing_simps(1,3) s1, of 4] s1 tsys_closing_simps
    by (simp del: tstep.simps) blast
qed

text \<open>The task of the opening connection returns at once; then caller 5 calls \<^verbatim>\<open>close()\<close> as well and gives up.\<close>

lemma tsys_opening_simps:
  "pcs (base tsys_opening) t = (if t = 2 then InHook Open else Idle)" "conn_state (link (base tsys_opening)) = CONNECTING"
  "truns tsys_opening = [\<lparr>place_of = Inside, reported = False, cancel_asked = False, closed_set = False\<rparr>]"
  "tevent tsys_opening = Some 0" "is_connected_flag (link (base tsys_opening)) = False"
  by (simp_all add: teval_simps)

theorem return_before_started_hangs_witness:
  "\<exists>s1 z. tstep (RunReturns 0 4) tsys_opening = Some s1 \<and> trun_steps [TCall Close 5, TCancel 5] s1 = Some z \<and>
     conn_state (link (base z)) = CONNECTING \<and> tstep (TStartEnds 2) z = None"
proof -
  have h: "pcs (base tsys_opening) 2 = InHook Open" "inside tsys_opening 0" "\<not> reported (truns tsys_opening ! 0)"
    by (simp_all add: tsys_opening_simps inside_def)
  have w: "pcs (base tsys_opening) v \<noteq> Waiting k st True" for v k st by (simp add: tsys_opening_simps)
  obtain s1 where s1: "tstep (RunReturns 0 4) tsys_opening = Some s1"
    by (simp add: tsys_opening_simps inside_def own_task_def)
  obtain z where z: "trun_steps [TCall Close 5, TCancel 5] s1 = Some z"
    using s1 by (auto simp: tsys_opening_simps inside_def own_task_def begin_tcall_def begin_call_def leave_body_def
        Let_def wait_for_def pcs_move on_base_def)
  show ?thesis
    using return_before_started_hangs[OF tsys_opening_reachable h w s1 z] s1 z by (simp del: tstep.simps trun_steps.simps)
qed

end
