(* ===== verification/Stream_Callers.thy ===== *)
theory Stream_Callers
  imports Connection_Tasks
begin

text \<open>
  \<^verbatim>\<open>StreamConnectionBase\<close> of \<^verbatim>\<open>connections/stream.py\<close> shared by tasks that open it, close it and read from it,
  where \<open>Stream_Connection\<close> has one task. The life cycle and the callers are those of \<open>Connection_Tasks\<close>; the
  streams that \<^verbatim>\<open>_create_stream()\<close> makes are numbered, so that what becomes of each of them can be told.

  Of the streams the model takes what Trio documents: \<^verbatim>\<open>aclose()\<close> closes the stream even when it is cancelled, and
  \<^verbatim>\<open>receive_some()\<close> on a closed stream raises. A wrapper connection, which starts with a stream and is \<open>CONNECTED\<close>
  from its construction, is in \<open>Stream_Connection\<close> only.
\<close>

section \<open>State\<close>

text \<open>
  \<open>made\<close> counts the streams created so far, \<open>unclosed\<close> has those that nobody has closed, \<open>cur_stream\<close> is \<^verbatim>\<open>_stream\<close>.
  \<open>closing_stream\<close> is the stream that a caller inside \<^verbatim>\<open>_close()\<close> is closing, \<open>receiving\<close> the stream that a task inside
  \<^verbatim>\<open>read()\<close> waits for.
\<close>

record ssys =
  sbase :: sys
  made :: nat
  unclosed :: "nat set"
  cur_stream :: "nat option"
  closing_stream :: "nat \<Rightarrow> nat"
  receiving :: "nat \<Rightarrow> nat option"

definition init_ssys :: ssys where
  "init_ssys =
     \<lparr>sbase = init_sys, made = 0, unclosed = {}, cur_stream = None, closing_stream = (\<lambda>_. 0),
      receiving = (\<lambda>_. None)\<rparr>"

definition in_sbase :: "(sys \<Rightarrow> sys) \<Rightarrow> ssys \<Rightarrow> ssys" where
  "in_sbase f s = s\<lparr>sbase := f (sbase s)\<rparr>"

section \<open>The methods\<close>

text \<open>The end of \<^verbatim>\<open>_open()\<close>: the new stream replaces whatever the attribute holds.\<close>

definition stream_made :: "nat \<Rightarrow> ssys \<Rightarrow> ssys" where
  "stream_made t s =
     in_sbase (\<lambda>b. move t (Done Open) (change CONNECTED b))
       (s\<lparr>made := Suc (made s), unclosed := insert (made s) (unclosed s), cur_stream := Some (made s)\<rparr>)"

text \<open>\<^verbatim>\<open>close()\<close> from its hook on; without a stream there is nothing to wait for.\<close>

definition enter_sclose :: "nat \<Rightarrow> ssys \<Rightarrow> ssys" where
  "enter_sclose t s =
     (let s1 = in_sbase (enter_hook Close t) s in
      case cur_stream s of
        None \<Rightarrow> in_sbase (\<lambda>b. move t (Done Close) (change DISCONNECTED b)) s1
      | Some n \<Rightarrow> s1\<lparr>closing_stream := (closing_stream s)(t := n)\<rparr>)"

text \<open>The end of \<^verbatim>\<open>_close()\<close>, with or without an exception of \<^verbatim>\<open>aclose()\<close>, and its \<^verbatim>\<open>finally\<close> clause.\<close>

definition stream_closed :: "nat \<Rightarrow> bool \<Rightarrow> ssys \<Rightarrow> ssys" where
  "stream_closed t success s =
     in_sbase (\<lambda>b. move t (if success then Done Close else Failed Close)
                     (change (if success then DISCONNECTED else CONNECTED) b))
       (s\<lparr>unclosed := unclosed s - {closing_stream s t}, cur_stream := None\<rparr>)"

fun enter_stream_hook :: "call \<Rightarrow> nat \<Rightarrow> ssys \<Rightarrow> ssys" where
  "enter_stream_hook Open t s = in_sbase (enter_hook Open t) s"
| "enter_stream_hook Close t s = enter_sclose t s"

definition begin_scall :: "call \<Rightarrow> nat \<Rightarrow> ssys \<Rightarrow> ssys" where
  "begin_scall k t s =
     (if conn_state (link (sbase s)) = bad k then enter_stream_hook k t s else in_sbase (begin_call k t) s)"

definition after_swait :: "call \<Rightarrow> connection_state \<Rightarrow> nat \<Rightarrow> ssys \<Rightarrow> ssys" where
  "after_swait k st t s = (if st = good k then in_sbase (move t (Done k)) s else enter_stream_hook k t s)"

text \<open>
  \<^verbatim>\<open>read()\<close>: without a stream, the \<^verbatim>\<open>AttributeError\<close> is handled like an error of the stream. After the end of
  the file and after an error the reader calls \<^verbatim>\<open>close()\<close>.
\<close>

definition begin_read :: "nat \<Rightarrow> ssys \<Rightarrow> ssys" where
  "begin_read t s =
     (case cur_stream s of
        None \<Rightarrow> begin_scall Close t s
      | Some n \<Rightarrow> s\<lparr>receiving := (receiving s)(t := Some n)\<rparr>)"

definition read_ends :: "nat \<Rightarrow> ssys \<Rightarrow> ssys" where
  "read_ends t s = begin_scall Close t (s\<lparr>receiving := (receiving s)(t := None)\<rparr>)"

section \<open>Steps\<close>

datatype sevt =
    SCall call nat
  | SResume nat
  | SMade nat
  | SMakeFails nat
  | SClosed nat bool
  | SCancel nat
  | SRead nat
  | SData nat
  | SEof nat
  | SReadError nat
  | SReadCancel nat

definition sidle :: "ssys \<Rightarrow> nat \<Rightarrow> bool" where
  "sidle s t \<longleftrightarrow> \<not> in_call (pcs (sbase s) t) \<and> receiving s t = None"

fun sstep :: "sevt \<Rightarrow> ssys \<Rightarrow> ssys option" where
  "sstep (SCall k t) s = (if sidle s t then Some (begin_scall k t s) else None)"
| "sstep (SResume t) s =
     (case pcs (sbase s) t of Waiting k st True \<Rightarrow> Some (after_swait k st t s) | _ \<Rightarrow> None)"
| "sstep (SMade t) s = (if pcs (sbase s) t = InHook Open then Some (stream_made t s) else None)"
| "sstep (SMakeFails t) s =
     (if pcs (sbase s) t = InHook Open
      then Some (in_sbase (\<lambda>b. move t (Failed Open) (change DISCONNECTED b)) s) else None)"
| "sstep (SClosed t success) s =
     (if pcs (sbase s) t = InHook Close then Some (stream_closed t success s) else None)"
| "sstep (SCancel t) s =
     (case pcs (sbase s) t of Waiting k st r \<Rightarrow> Some (in_sbase (move t (Failed k)) s) | _ \<Rightarrow> None)"
| "sstep (SRead t) s = (if sidle s t then Some (begin_read t s) else None)"
| "sstep (SData t) s =
     (case receiving s t of
        Some n \<Rightarrow> if n \<in> unclosed s then Some (s\<lparr>receiving := (receiving s)(t := None)\<rparr>) else None
      | None \<Rightarrow> None)"
| "sstep (SEof t) s =
     (case receiving s t of
        Some n \<Rightarrow> if n \<in> unclosed s then Some (read_ends t s) else None
      | None \<Rightarrow> None)"
| "sstep (SReadError t) s = (case receiving s t of Some n \<Rightarrow> Some (read_ends t s) | None \<Rightarrow> None)"
| "sstep (SReadCancel t) s =
     (case receiving s t of Some n \<Rightarrow> Some (s\<lparr>receiving := (receiving s)(t := None)\<rparr>) | None \<Rightarrow> None)"

fun srun :: "sevt list \<Rightarrow> ssys \<Rightarrow> ssys option" where
  "srun [] s = Some s"
| "srun (e # es) s = (case sstep e s of None \<Rightarrow> None | Some s' \<Rightarrow> srun es s')"

fun sprompt :: "sevt \<Rightarrow> ssys \<Rightarrow> bool" where
  "sprompt (SResume t) s = prompt (Resume t) (sbase s)"
| "sprompt _ s = True"

inductive sprompt_reachable :: "ssys \<Rightarrow> bool" where
  sprompt_start: "sprompt_reachable init_ssys"
| sprompt_next: "sprompt_reachable s \<Longrightarrow> sprompt e s \<Longrightarrow> sstep e s = Some s' \<Longrightarrow> sprompt_reachable s'"

section \<open>The callers are those of the base class\<close>

lemma sfields [simp]:
  "sbase (in_sbase f s) = f (sbase s)" "made (in_sbase f s) = made s" "unclosed (in_sbase f s) = unclosed s"
  "cur_stream (in_sbase f s) = cur_stream s" "closing_stream (in_sbase f s) = closing_stream s"
  "receiving (in_sbase f s) = receiving s"
  by (simp_all add: in_sbase_def)

lemma enter_stream_base:
  obtains es where "run es (enter_hook k t (sbase s)) = Some (sbase (enter_stream_hook k t s))"
    and "run_prompt es (enter_hook k t (sbase s))"
proof (cases k)
  case Open
  then show thesis using that[of "[]"] by simp
next
  case Close
  then show thesis using that[of "[]"] that[of "[HookReturns t]"]
    by (cases "cur_stream s") (simp_all add: enter_sclose_def Let_def enter_hook_def pcs_move move_change_move)
qed

lemma begin_scall_base:
  assumes "\<not> in_call (pcs (sbase s) t)"
  obtains es where "run es (sbase s) = Some (sbase (begin_scall k t s))" and "run_prompt es (sbase s)"
proof (cases "conn_state (link (sbase s)) = bad k")
  case True
  obtain es where "run es (enter_hook k t (sbase s)) = Some (sbase (enter_stream_hook k t s))"
    "run_prompt es (enter_hook k t (sbase s))" by (rule enter_stream_base)
  then show thesis using True assms that[of "Call k t # es"]
    by (simp add: begin_scall_def begin_call_eq Let_def)
next
  case False
  then show thesis using assms that[of "[Call k t]"] by (simp add: begin_scall_def)
qed

section \<open>Invariant of prompt schedules\<close>

definition readers_idle :: "ssys \<Rightarrow> bool" where
  "readers_idle s \<longleftrightarrow> (\<forall>t. receiving s t \<noteq> None \<longrightarrow> \<not> in_call (pcs (sbase s) t))"

definition streams_inv :: "connection_state \<Rightarrow> nat \<Rightarrow> nat set \<Rightarrow> nat option \<Rightarrow> bool" where
  "streams_inv st m un cur \<longleftrightarrow>
     un = set_option cur \<and> (\<forall>n \<in> set_option cur. n < m) \<and> (cur \<noteq> None \<longrightarrow> st = CONNECTED \<or> st = DISCONNECTING)"

definition closers_current :: "ssys \<Rightarrow> bool" where
  "closers_current s \<longleftrightarrow> (\<forall>t. pcs (sbase s) t = InHook Close \<longrightarrow> cur_stream s = Some (closing_stream s t))"

definition sinv :: "ssys \<Rightarrow> bool" where
  "sinv s \<longleftrightarrow> readers_idle s \<and> closers_current s \<and>
     streams_inv (conn_state (link (sbase s))) (made s) (unclosed s) (cur_stream s)"

lemma sinv_init: "sinv init_ssys"
  by (simp add: sinv_def readers_idle_def closers_current_def streams_inv_def init_ssys_def init_sys_def)

lemma in_call_release [simp]: "in_call (release1 c c' p) = in_call p"
  by (cases p) simp_all

lemma readers_idle_pieces:
  "readers_idle s \<Longrightarrow> in_call p \<longrightarrow> receiving s t = None \<Longrightarrow> readers_idle (in_sbase (move t p) s)"
  "readers_idle s \<Longrightarrow> in_call p \<longrightarrow> receiving s t = None \<Longrightarrow> readers_idle (in_sbase (\<lambda>b. move t p (change st b)) s)"
  by (auto simp: readers_idle_def pcs_move pcs_change)

lemma sinv_move:
  assumes "sinv s" and "in_call p \<longrightarrow> receiving s t = None" and "p \<noteq> InHook Close"
  shows "sinv (in_sbase (move t p) s)"
  using assms by (auto simp: sinv_def readers_idle_def closers_current_def pcs_move)

lemma sinv_enter:
  assumes inv: "sinv s" and at: "conn_state (link (sbase s)) = bad k" and no: "\<And>u k'. pcs (sbase s) u \<noteq> InHook k'"
    and rd: "receiving s t = None"
  shows "sinv (enter_stream_hook k t s)"
proof (cases k)
  case Open
  then show ?thesis using assms
    by (auto simp: sinv_def readers_idle_def closers_current_def streams_inv_def enter_hook_def pcs_move pcs_change)
next
  case Close
  then show ?thesis using assms
    by (cases "cur_stream s")
      (auto simp: sinv_def enter_sclose_def Let_def readers_idle_def closers_current_def streams_inv_def enter_hook_def
        in_sbase_def pcs_move pcs_change)
qed

lemma shook_state:
  assumes "hooks_match (sbase s)"
  shows "pcs (sbase s) t = InHook k \<Longrightarrow> conn_state (link (sbase s)) = via k"
    and "pcs (sbase s) t = InHook k \<Longrightarrow> pcs (sbase s) u = InHook k' \<Longrightarrow> u = t"
    and "conn_state (link (sbase s)) = bad k \<Longrightarrow> pcs (sbase s) u \<noteq> InHook k'"
  using assms hooks_match_no_hook unfolding hooks_match_def by blast+

lemma sinv_begin_scall:
  assumes "sinv s" and "hooks_match (sbase s)" and "receiving s t = None"
  shows "sinv (begin_scall k t s)"
proof (cases "conn_state (link (sbase s)) = bad k")
  case True
  then have "\<And>u k'. pcs (sbase s) u \<noteq> InHook k'" using shook_state(3)[OF assms(2)] by blast
  then show ?thesis using True sinv_enter[OF assms(1)] assms(3) by (simp add: begin_scall_def)
next
  case False
  have "sinv (in_sbase (move t p) s)" if "p \<noteq> InHook Close" for p
    using sinv_move[OF assms(1)] assms(3) that by simp
  then show ?thesis
    using False by (auto simp: begin_scall_def in_sbase_def begin_call_eq wait_for_def Let_def)
qed

lemma sinv_read_ends:
  assumes "sinv s" and "hooks_match (sbase s)"
  shows "sinv (read_ends t s)"
proof -
  have "sinv (s\<lparr>receiving := (receiving s)(t := None)\<rparr>)"
    using assms(1) by (auto simp: sinv_def readers_idle_def closers_current_def)
  then show ?thesis using assms(2) by (simp add: read_ends_def sinv_begin_scall)
qed

text \<open>The ends of the hooks.\<close>

lemma sinv_opened:
  assumes "sinv s" and "hooks_match (sbase s)" and h: "pcs (sbase s) t = InHook Open"
  shows "sinv (stream_made t s)" and "sinv (in_sbase (\<lambda>b. move t (Failed Open) (change DISCONNECTED b)) s)"
proof -
  have "conn_state (link (sbase s)) = CONNECTING" using shook_state(1)[OF assms(2) h] by simp
  then have c: "cur_stream s = None" "unclosed s = {}" using assms(1) by (auto simp: sinv_def streams_inv_def)
  have no: "pcs (sbase s) u \<noteq> InHook Close" for u using shook_state(2)[OF assms(2) h, of u Close] h by auto
  show "sinv (stream_made t s)" "sinv (in_sbase (\<lambda>b. move t (Failed Open) (change DISCONNECTED b)) s)"
    using assms(1) c no
    by (simp_all add: sinv_def stream_made_def readers_idle_def closers_current_def streams_inv_def in_sbase_def
        pcs_move pcs_change)
qed

lemma sinv_closed:
  assumes "sinv s" and "hooks_match (sbase s)" and h: "pcs (sbase s) t = InHook Close"
  shows "sinv (stream_closed t success s)"
proof -
  have c: "cur_stream s = Some (closing_stream s t)" using assms(1) h by (simp add: sinv_def closers_current_def)
  have no: "pcs (sbase s) u \<noteq> InHook Close" if "u \<noteq> t" for u using shook_state(2)[OF assms(2) h, of u Close] that by blast
  show ?thesis
    using assms(1) c no
    by (simp add: sinv_def stream_closed_def readers_idle_def closers_current_def streams_inv_def in_sbase_def
        pcs_move pcs_change)
qed

lemma sinv_step:
  assumes inv: "sinv s" and "reachable_promptly (sbase s)" and "sprompt e s" and st: "sstep e s = Some s'"
  shows "sinv s'"
proof -
  have m: "hooks_match (sbase s)" and wf: "waits_wf (sbase s)"
    using reachable_promptly_inv[OF assms(2)] reachable_inv[of "sbase s"] by (simp_all add: tasks_inv_def)
  have idle: "receiving s t = None" if "in_call (pcs (sbase s) t)" for t
    using inv that by (auto simp: sinv_def readers_idle_def)
  show ?thesis
  proof (cases e)
    case (SCall k t)
    then show ?thesis using st sinv_begin_scall[OF inv m] by (auto simp: sidle_def split: if_splits)
  next
    case (SResume t)
    then obtain k st where w: "pcs (sbase s) t = Waiting k st True" and s': "s' = after_swait k st t s"
      using st by (auto split: pc.splits bool.splits)
    have r: "receiving s t = None" using idle w by simp
    show ?thesis
    proof (cases "st = good k")
      case True
      then show ?thesis using s' sinv_move[OF inv, of "Done k" t] by (simp add: after_swait_def)
    next
      case False
      then have b: "conn_state (link (sbase s)) = bad k" using wf w SResume assms(3) by (auto simp: waits_wf_def)
      then have "\<And>u k'. pcs (sbase s) u \<noteq> InHook k'" using shook_state(3)[OF m] by blast
      then show ?thesis using False s' b r sinv_enter[OF inv] by (simp add: after_swait_def)
    qed
  next
    case (SMade t)
    then show ?thesis using st sinv_opened(1)[OF inv m] by (auto split: if_splits)
  next
    case (SMakeFails t)
    then show ?thesis using st sinv_opened(2)[OF inv m] by (auto split: if_splits)
  next
    case (SClosed t success)
    then show ?thesis using st sinv_closed[OF inv m] by (auto split: if_splits)
  next
    case (SCancel t)
    then show ?thesis using st sinv_move[OF inv] by (auto split: pc.splits)
  next
    case (SRead t)
    then show ?thesis using st inv sinv_begin_scall[OF inv m]
      by (auto simp: sidle_def begin_read_def sinv_def readers_idle_def closers_current_def split: if_splits option.splits)
  next
    case (SEof t)
    then show ?thesis using st sinv_read_ends[OF inv m] by (auto split: option.splits if_splits)
  next
    case (SReadError t)
    then show ?thesis using st sinv_read_ends[OF inv m] by (auto split: option.splits)
  qed (use inv st in \<open>auto simp: sinv_def readers_idle_def closers_current_def split: option.splits if_splits\<close>)
qed

text \<open>Every step is a run of the base class, prompt if the step is.\<close>

lemma begin_read_base:
  assumes "\<not> in_call (pcs (sbase s) t)"
  obtains es where "run es (sbase s) = Some (sbase (begin_read t s))" and "run_prompt es (sbase s)"
proof (cases "cur_stream s")
  case None
  then show thesis using begin_scall_base[OF assms, of Close] that by (simp add: begin_read_def) blast
next
  case (Some n)
  then show thesis using that[of "[]"] by (simp add: begin_read_def)
qed

lemma read_ends_base:
  assumes "readers_idle s" and "receiving s t = Some n"
  obtains es where "run es (sbase s) = Some (sbase (read_ends t s))" and "run_prompt es (sbase s)"
proof -
  have "\<not> in_call (pcs (sbase (s\<lparr>receiving := (receiving s)(t := None)\<rparr>)) t)"
    using assms by (simp add: readers_idle_def)
  from begin_scall_base[OF this, of Close] show thesis using that by (simp add: read_ends_def) blast
qed

lemma sstep_base:
  assumes "sstep e s = Some s'" and "readers_idle s"
  shows "\<exists>es. run es (sbase s) = Some (sbase s') \<and> (sprompt e s \<longrightarrow> run_prompt es (sbase s))"
proof (cases e)
  case (SCall k t)
  with assms have "\<not> in_call (pcs (sbase s) t)" "s' = begin_scall k t s" by (auto simp: sidle_def split: if_splits)
  then show ?thesis by (metis begin_scall_base)
next
  case (SRead t)
  with assms have "\<not> in_call (pcs (sbase s) t)" "s' = begin_read t s" by (auto simp: sidle_def split: if_splits)
  then show ?thesis by (metis begin_read_base)
next
  case (SEof t)
  with assms(1) obtain n where "receiving s t = Some n" "s' = read_ends t s" by (auto split: option.splits if_splits)
  then show ?thesis by (metis read_ends_base[OF assms(2)])
next
  case (SReadError t)
  with assms(1) obtain n where "receiving s t = Some n" "s' = read_ends t s" by (auto split: option.splits)
  then show ?thesis by (metis read_ends_base[OF assms(2)])
next
  case (SResume t)
  with assms(1) obtain k st where w: "pcs (sbase s) t = Waiting k st True" and s': "s' = after_swait k st t s"
    by (auto split: pc.splits bool.splits)
  obtain es where "run es (enter_hook k t (sbase s)) = Some (sbase (enter_stream_hook k t s))"
    "run_prompt es (enter_hook k t (sbase s))" by (rule enter_stream_base)
  then show ?thesis using w s' SResume exI[of _ "[Resume t]"] exI[of _ "Resume t # es"]
    by (cases "st = good k") (fastforce simp: after_swait_def after_wait_def)+
next
  case (SMade t)
  with assms(1) show ?thesis
    by (intro exI[of _ "[HookReturns t]"]) (auto simp: stream_made_def in_sbase_def split: if_splits)
next
  case (SMakeFails t)
  with assms(1) show ?thesis by (intro exI[of _ "[HookRaises t]"]) (auto split: if_splits)
next
  case (SClosed t success)
  with assms(1) show ?thesis
    by (intro exI[of _ "[if success then HookReturns t else HookRaises t]"])
      (auto simp: stream_closed_def in_sbase_def split: if_splits)
next
  case (SCancel t)
  with assms(1) show ?thesis by (intro exI[of _ "[Cancel t]"]) (auto split: pc.splits)
qed (use assms(1) in \<open>auto split: option.splits if_splits intro!: exI[of _ "[]"]\<close>)

lemma sprompt_facts:
  assumes "sprompt_reachable s"
  shows "sinv s" and "reachable_promptly (sbase s)" and "hooks_match (sbase s)"
proof -
  have "sinv s \<and> reachable_promptly (sbase s)"
    using assms
  proof (induction rule: sprompt_reachable.induct)
    case sprompt_start
    show ?case using sinv_init by (simp add: init_ssys_def reachable_promptly.start_prompt)
  next
    case (sprompt_next s e s')
    then have "readers_idle s" by (simp add: sinv_def)
    from sstep_base[OF sprompt_next(3) this] sprompt_next show ?case
      using sinv_step run_prompt_reachable by blast
  qed
  then show "sinv s" "reachable_promptly (sbase s)" "hooks_match (sbase s)"
    using reachable_promptly_inv by blast+
qed

section \<open>Properties\<close>

text \<open>
  C17. On prompt schedules no stream is lost, whatever fails: the stream of the connection is the only one that has
  not been closed, there is none while the connection is \<open>DISCONNECTED\<close> or \<open>CONNECTING\<close>, and a reader of it that
  meets the end of the file or an error closes it, and the connection with it unless \<^verbatim>\<open>aclose()\<close> raises.
\<close>

theorem no_stream_lost:
  assumes "sprompt_reachable s"
  shows "unclosed s = set_option (cur_stream s) \<and>
    (conn_state (link (sbase s)) \<in> {DISCONNECTED, CONNECTING} \<longrightarrow> unclosed s = {}) \<and>
    (conn_state (link (sbase s)) = CONNECTED \<and> receiving s t = Some n \<and> n \<in> unclosed s \<longrightarrow>
       (\<exists>s1 s2. sstep (SEof t) s = Some s1 \<and> sstep (SReadError t) s = Some s1 \<and> pcs (sbase s1) t = InHook Close \<and>
          sstep (SClosed t success) s1 = Some s2 \<and> unclosed s2 = {} \<and>
          conn_state (link (sbase s2)) = (if success then DISCONNECTED else CONNECTED)))"
proof -
  note inv = sprompt_facts(1)[OF assms]
  have un: "unclosed s = set_option (cur_stream s)" and d: "conn_state (link (sbase s)) \<in> {DISCONNECTED, CONNECTING} \<Longrightarrow> cur_stream s = None"
    using inv by (auto simp: sinv_def streams_inv_def)
  have "\<exists>s1 s2. sstep (SEof t) s = Some s1 \<and> sstep (SReadError t) s = Some s1 \<and> pcs (sbase s1) t = InHook Close \<and>
          sstep (SClosed t success) s1 = Some s2 \<and> unclosed s2 = {} \<and>
          conn_state (link (sbase s2)) = (if success then DISCONNECTED else CONNECTED)"
    if c: "conn_state (link (sbase s)) = CONNECTED" "receiving s t = Some n" "n \<in> unclosed s"
  proof -
    have "cur_stream s = Some n" using un c(3) by (cases "cur_stream s") auto
    then show ?thesis using c un
      by (simp add: read_ends_def begin_scall_def enter_sclose_def Let_def enter_hook_def pcs_move stream_closed_def
          in_sbase_def)
  qed
  then show ?thesis using un d by auto
qed

text \<open>A stream that the connection does not hold and that nobody is closing stays open for good.\<close>

definition lost :: "nat \<Rightarrow> ssys \<Rightarrow> bool" where
  "lost n s \<longleftrightarrow> n \<in> unclosed s \<and> n < made s \<and> cur_stream s \<noteq> Some n \<and>
     (\<forall>t. pcs (sbase s) t = InHook Close \<longrightarrow> closing_stream s t \<noteq> n)"

lemma lost_move:
  "lost n s \<Longrightarrow> p \<noteq> InHook Close \<Longrightarrow> lost n (in_sbase (move t p) s)"
  "lost n s \<Longrightarrow> p \<noteq> InHook Close \<Longrightarrow> lost n (in_sbase (\<lambda>b. move t p (change st b)) s)"
  by (auto simp: lost_def pcs_move pcs_change)

lemma lost_receiving [simp]: "lost n (s\<lparr>receiving := r\<rparr>) = lost n s"
  by (simp add: lost_def)

lemma lost_enter: "lost n s \<Longrightarrow> lost n (enter_stream_hook k t s)"
  by (cases k; cases "cur_stream s")
    (auto simp: lost_def enter_sclose_def Let_def enter_hook_def pcs_move pcs_change in_sbase_def)

lemma lost_begin: "lost n s \<Longrightarrow> lost n (begin_scall k t s)"
proof (cases "conn_state (link (sbase s)) = bad k")
  case False
  assume "lost n s"
  then have "lost n (in_sbase (move t p) s)" if "p \<noteq> InHook Close" for p using lost_move(1) that by blast
  then show ?thesis using False by (auto simp: begin_scall_def in_sbase_def begin_call_eq wait_for_def Let_def)
qed (simp add: begin_scall_def lost_enter)

lemma lost_after: "lost n s \<Longrightarrow> lost n (after_swait k st t s)"
  by (simp add: after_swait_def lost_enter lost_move)

lemma lost_hooks:
  "lost n s \<Longrightarrow> lost n (stream_made t s)"
  "lost n s \<Longrightarrow> pcs (sbase s) t = InHook Close \<Longrightarrow> lost n (stream_closed t success s)"
  by (auto simp: lost_def stream_made_def stream_closed_def in_sbase_def pcs_move pcs_change)

lemma lost_step: "sstep e s = Some s' \<Longrightarrow> lost n s \<Longrightarrow> lost n s'"
  by (cases e)
    (auto simp: lost_begin lost_after lost_move lost_hooks begin_read_def read_ends_def
      split: if_splits pc.splits bool.splits option.splits)

lemma lost_for_good: "srun es s = Some s' \<Longrightarrow> lost n s \<Longrightarrow> lost n s'"
  by (induction es arbitrary: s) (auto split: option.splits dest: lost_step)

text \<open>
  C18. Two calls of \<^verbatim>\<open>open()\<close> that wait for the connection to be disconnected both create a stream, since neither looks
  at the state again. The second stream replaces the first, which is then open for good: the \<^verbatim>\<open>close()\<close> that
  follows returns on a connection that is \<open>DISCONNECTED\<close>, and no sequence of calls closes the first stream.
\<close>

theorem open_race_loses_stream:
  "\<exists>s. srun [SCall Open 2, SMade 2, SCall Close 3, SCall Open 4, SCall Open 5, SClosed 3 True, SResume 4, SResume 5,
         SMade 4, SMade 5, SCall Close 6, SClosed 6 True] init_ssys = Some s \<and>
     pcs (sbase s) 6 = Done Close \<and> conn_state (link (sbase s)) = DISCONNECTED \<and>
     {s'. \<exists>es. srun es s = Some s'} \<subseteq> {s'. 1 \<in> unclosed s'}"
proof -
  define s where "s = the (srun [SCall Open 2, SMade 2, SCall Close 3, SCall Open 4, SCall Open 5, SClosed 3 True,
    SResume 4, SResume 5, SMade 4, SMade 5, SCall Close 6, SClosed 6 True] init_ssys)"
  note eval = init_ssys_def begin_scall_def enter_sclose_def stream_made_def stream_closed_def after_swait_def
    in_sbase_def sidle_def lost_def eval_simps
  have s: "srun [SCall Open 2, SMade 2, SCall Close 3, SCall Open 4, SCall Open 5, SClosed 3 True, SResume 4, SResume 5,
         SMade 4, SMade 5, SCall Close 6, SClosed 6 True] init_ssys = Some s"
    and f: "pcs (sbase s) 6 = Done Close" "conn_state (link (sbase s)) = DISCONNECTED" "lost 1 s"
    unfolding s_def by (simp_all add: eval)
  have "1 \<in> unclosed s'" if "srun es s = Some s'" for es s'
    using lost_for_good[OF that f(3)] by (simp add: lost_def)
  then show ?thesis using s f(1,2) by blast
qed

section \<open>Witnesses\<close>

definition ssys_reading :: ssys where
  "ssys_reading = the (srun [SCall Open 2, SMade 2, SRead 3] init_ssys)"

lemma ssys_reading_simps:
  "srun [SCall Open 2, SMade 2, SRead 3] init_ssys = Some ssys_reading"
  "conn_state (link (sbase ssys_reading)) = CONNECTED" "receiving ssys_reading 3 = Some 0" "0 \<in> unclosed ssys_reading"
  by (simp_all add: ssys_reading_def init_ssys_def begin_scall_def stream_made_def begin_read_def in_sbase_def
      sidle_def eval_simps)

lemma srun_promptly:
  "sprompt_reachable s \<Longrightarrow> srun es s = Some s' \<Longrightarrow> (\<And>t. SResume t \<notin> set es) \<Longrightarrow> sprompt_reachable s'"
proof (induction es arbitrary: s)
  case (Cons e es)
  then obtain m where m: "sstep e s = Some m" "srun es m = Some s'" by (auto split: option.splits)
  have "sprompt e s" using Cons.prems(3) by (cases e) auto
  then have "sprompt_reachable m" using sprompt_next Cons.prems(1) m(1) by blast
  then show ?case using Cons.IH m(2) Cons.prems(3) by auto
qed simp

theorem no_stream_lost_witness:
  "\<exists>s1 s2. sstep (SEof 3) ssys_reading = Some s1 \<and> sstep (SClosed 3 True) s1 = Some s2 \<and>
     conn_state (link (sbase s2)) = DISCONNECTED \<and> unclosed s2 = {}"
proof -
  have "sprompt_reachable ssys_reading" by (rule srun_promptly[OF sprompt_start ssys_reading_simps(1)]) simp
  from no_stream_lost[OF this, of 3 0 True] ssys_reading_simps show ?thesis by (simp del: sstep.simps) blast
qed

end
