(* ===== verification/Listener_Base.thy ===== *)
theory Listener_Base
  imports Lifecycle
begin

text \<open>
  \<^verbatim>\<open>ListenerState\<close> and \<^verbatim>\<open>ListenerBase\<close> of \<^verbatim>\<open>listeners/base.py\<close>: the life cycle of listeners, a class
  of its own with the same contract as connections (theory \<open>Lifecycle\<close>), and the task of
  \<^verbatim>\<open>TrioListenerBase\<close> that serves a listener.
\<close>

section \<open>State\<close>

datatype listener_state = CLOSED | PREPARING | OPEN | CLOSING

fun listener_transitioning :: "listener_state \<Rightarrow> bool" where
  "listener_transitioning PREPARING = True"
| "listener_transitioning CLOSING = True"
| "listener_transitioning _ = False"

datatype listener_signal =
    ListenerStateChanged listener_state listener_state
  | Opened
  | Closed

record listener =
  lstate :: listener_state
  is_open_flag :: bool
  is_closed_flag :: bool
  lsent :: "listener_signal list"

definition init_listener :: listener where
  "init_listener = \<lparr>lstate = CLOSED, is_open_flag = False, is_closed_flag = True, lsent = []\<rparr>"

text \<open>The three predicates of \<^verbatim>\<open>Listener\<close> on the state.\<close>

definition listener_is_closed :: "'a listener_scheme \<Rightarrow> bool" where
  "listener_is_closed l \<longleftrightarrow> lstate l = CLOSED"

definition listener_is_open :: "'a listener_scheme \<Rightarrow> bool" where
  "listener_is_open l \<longleftrightarrow> lstate l = OPEN"

definition listener_is_transitioning :: "'a listener_scheme \<Rightarrow> bool" where
  "listener_is_transitioning l \<longleftrightarrow> listener_transitioning (lstate l)"

definition lsend :: "listener_signal \<Rightarrow> 'a listener_scheme \<Rightarrow> 'a listener_scheme" where
  "lsend sig l = l\<lparr>lsent := lsent l @ [sig]\<rparr>"

text \<open>\<^verbatim>\<open>_set_state()\<close>: its four conditional statements, then the method itself in their order.\<close>

definition note_open :: "listener_state \<Rightarrow> 'a listener_scheme \<Rightarrow> 'a listener_scheme" where
  "note_open new_state l =
     (if \<not> is_open_flag l \<and> new_state = OPEN then lsend Opened (l\<lparr>is_open_flag := True\<rparr>) else l)"

definition note_closed :: "listener_state \<Rightarrow> 'a listener_scheme \<Rightarrow> 'a listener_scheme" where
  "note_closed new_state l =
     (if \<not> is_closed_flag l \<and> new_state = CLOSED then lsend Closed (l\<lparr>is_closed_flag := True\<rparr>) else l)"

definition clear_open :: "listener_state \<Rightarrow> 'a listener_scheme \<Rightarrow> 'a listener_scheme" where
  "clear_open new_state l =
     (if is_open_flag l \<and> new_state \<noteq> OPEN then l\<lparr>is_open_flag := False\<rparr> else l)"

definition clear_closed :: "listener_state \<Rightarrow> 'a listener_scheme \<Rightarrow> 'a listener_scheme" where
  "clear_closed new_state l =
     (if is_closed_flag l \<and> new_state \<noteq> CLOSED then l\<lparr>is_closed_flag := False\<rparr> else l)"

definition set_lstate :: "listener_state \<Rightarrow> 'a listener_scheme \<Rightarrow> 'a listener_scheme" where
  "set_lstate new_state l =
     (let old_state = lstate l in
      if new_state = old_state then l
      else clear_closed new_state
            (clear_open new_state
              (note_closed new_state
                (note_open new_state
                  (lsend (ListenerStateChanged old_state new_state)
                    (l\<lparr>lstate := new_state\<rparr>))))))"

section \<open>Opening and closing\<close>

definition wait_until_open :: "('a listener_scheme, unit) action" where
  "wait_until_open l = (if is_open_flag l then (Returns (), l) else (Blocks, l))"

definition wait_until_closed :: "('a listener_scheme, unit) action" where
  "wait_until_closed l = (if is_closed_flag l then (Returns (), l) else (Blocks, l))"

definition lopen_body :: "('a listener_scheme, unit) action \<Rightarrow> ('a listener_scheme, unit) action" where
  "lopen_body hook =
     and_then (modify (set_lstate PREPARING))
       (\<lambda>_. try_finally hook (\<lambda>success. modify (set_lstate (if success then OPEN else CLOSED))))"

definition lclose_body :: "('a listener_scheme, unit) action \<Rightarrow> ('a listener_scheme, unit) action" where
  "lclose_body hook =
     and_then (modify (set_lstate CLOSING))
       (\<lambda>_. try_finally hook (\<lambda>success. modify (set_lstate (if success then CLOSED else OPEN))))"

definition listener_open :: "('a listener_scheme, unit) action \<Rightarrow> ('a listener_scheme, unit) action" where
  "listener_open hook l =
     (case lstate l of
        OPEN \<Rightarrow> (Returns (), l)
      | PREPARING \<Rightarrow> wait_until_open l
      | CLOSING \<Rightarrow> and_then wait_until_closed (\<lambda>_. lopen_body hook) l
      | CLOSED \<Rightarrow> lopen_body hook l)"

definition listener_close :: "('a listener_scheme, unit) action \<Rightarrow> ('a listener_scheme, unit) action" where
  "listener_close hook l =
     (case lstate l of
        CLOSED \<Rightarrow> (Returns (), l)
      | CLOSING \<Rightarrow> wait_until_closed l
      | PREPARING \<Rightarrow> and_then wait_until_open (\<lambda>_. lclose_body hook) l
      | OPEN \<Rightarrow> lclose_body hook l)"

definition with_listener ::
  "('a listener_scheme, unit) action \<Rightarrow> ('a listener_scheme, unit) action \<Rightarrow>
   ('a listener_scheme, 'b) action \<Rightarrow> ('a listener_scheme, 'b) action" where
  "with_listener open_hook close_hook body =
     and_then (listener_open open_hook) (\<lambda>_. try_finally body (\<lambda>_. listener_close close_hook))"

section \<open>The contract\<close>

definition lannounce :: "listener_state \<Rightarrow> listener_state \<Rightarrow> listener_signal list" where
  "lannounce old_state new_state =
     ListenerStateChanged old_state new_state #
     (case new_state of OPEN \<Rightarrow> [Opened] | CLOSED \<Rightarrow> [Closed] | _ \<Rightarrow> [])"

definition lflags_ok :: "'a listener_scheme \<Rightarrow> bool" where
  "lflags_ok l \<longleftrightarrow> is_open_flag l = (lstate l = OPEN) \<and> is_closed_flag l = (lstate l = CLOSED)"

definition leaves_listener :: "('a listener_scheme, 'b) action \<Rightarrow> bool" where
  "leaves_listener m \<longleftrightarrow> (\<forall>l. lflags_ok l \<longrightarrow>
     lflags_ok (snd (m l)) \<and> lstate (snd (m l)) = lstate l \<and> lsent (snd (m l)) = lsent l)"

lemma init_listener_simps [simp]:
  "lstate init_listener = CLOSED" "lsent init_listener = []"
  "is_open_flag init_listener = False" "is_closed_flag init_listener = True"
  by (simp_all add: init_listener_def)

lemma lflags_ok_init [simp]: "lflags_ok init_listener"
  by (simp add: lflags_ok_def)

lemma lsend_simps [simp]:
  "lstate (lsend x l) = lstate l" "is_open_flag (lsend x l) = is_open_flag l"
  "is_closed_flag (lsend x l) = is_closed_flag l" "lsent (lsend x l) = lsent l @ [x]"
  "listener.more (lsend x l) = listener.more l"
  by (simp_all add: lsend_def)

lemma note_open_simps [simp]:
  "lstate (note_open s l) = lstate l"
  "is_open_flag (note_open s l) \<longleftrightarrow> is_open_flag l \<or> s = OPEN"
  "is_closed_flag (note_open s l) = is_closed_flag l"
  "lsent (note_open s l) = lsent l @ (if \<not> is_open_flag l \<and> s = OPEN then [Opened] else [])"
  "listener.more (note_open s l) = listener.more l"
  by (auto simp: note_open_def)

lemma note_closed_simps [simp]:
  "lstate (note_closed s l) = lstate l"
  "is_open_flag (note_closed s l) = is_open_flag l"
  "is_closed_flag (note_closed s l) \<longleftrightarrow> is_closed_flag l \<or> s = CLOSED"
  "lsent (note_closed s l) = lsent l @ (if \<not> is_closed_flag l \<and> s = CLOSED then [Closed] else [])"
  "listener.more (note_closed s l) = listener.more l"
  by (auto simp: note_closed_def)

lemma clear_open_simps [simp]:
  "lstate (clear_open s l) = lstate l"
  "is_open_flag (clear_open s l) \<longleftrightarrow> is_open_flag l \<and> s = OPEN"
  "is_closed_flag (clear_open s l) = is_closed_flag l"
  "lsent (clear_open s l) = lsent l"
  "listener.more (clear_open s l) = listener.more l"
  by (auto simp: clear_open_def)

lemma clear_closed_simps [simp]:
  "lstate (clear_closed s l) = lstate l"
  "is_open_flag (clear_closed s l) = is_open_flag l"
  "is_closed_flag (clear_closed s l) \<longleftrightarrow> is_closed_flag l \<and> s = CLOSED"
  "lsent (clear_closed s l) = lsent l"
  "listener.more (clear_closed s l) = listener.more l"
  by (auto simp: clear_closed_def)

lemma set_lstate_same [simp]: "set_lstate (lstate l) l = l"
  by (simp add: set_lstate_def)

lemma set_lstate_fields:
  "lstate (set_lstate s l) = s"
  "listener.more (set_lstate s l) = listener.more l"
  "s \<noteq> lstate l \<Longrightarrow> is_open_flag (set_lstate s l) = (s = OPEN)"
  "s \<noteq> lstate l \<Longrightarrow> is_closed_flag (set_lstate s l) = (s = CLOSED)"
  "s \<noteq> lstate l \<Longrightarrow> lsent (set_lstate s l) = lsent l @ [ListenerStateChanged (lstate l) s] @
     (if \<not> is_open_flag l \<and> s = OPEN then [Opened] else []) @
     (if \<not> is_closed_flag l \<and> s = CLOSED then [Closed] else [])"
  by (auto simp: set_lstate_def Let_def)

declare set_lstate_fields(1,2) [simp]

lemma lflags_ok_set_lstate [simp]: "lflags_ok l \<Longrightarrow> lflags_ok (set_lstate s l)"
  by (cases "s = lstate l") (simp_all add: lflags_ok_def set_lstate_fields)

lemma lflags_set_lstate [simp]:
  "lflags_ok l \<Longrightarrow> is_open_flag (set_lstate s l) = (s = OPEN)"
  "lflags_ok l \<Longrightarrow> is_closed_flag (set_lstate s l) = (s = CLOSED)"
  using lflags_ok_set_lstate[of l s] by (simp_all add: lflags_ok_def)

lemma lsent_set_lstate:
  "lflags_ok l \<Longrightarrow> s \<noteq> lstate l \<Longrightarrow> lsent (set_lstate s l) = lsent l @ lannounce (lstate l) s"
  by (cases s) (auto simp: lflags_ok_def set_lstate_fields lannounce_def)

interpretation lsn: lifecycle lstate set_lstate lsent lannounce lflags_ok
    OPEN CLOSED PREPARING CLOSING listener_open listener_close
proof (unfold_locales, goal_cases)
  case (4 l s)
  then show ?case by (rule lsent_set_lstate)
next
  case (6 s)
  show ?case by (cases s) simp_all
qed (auto simp: listener_open_def listener_close_def lopen_body_def lclose_body_def phase_def
       wait_until_open_def wait_until_closed_def lflags_ok_def action_simps)

lemma lframe_iff: "lsn.frame m \<longleftrightarrow> leaves_listener m"
  by (simp add: lsn.frame_def leaves_listener_def)

lemma leaves_listener_simps [simp]:
  "leaves_listener (ret x)" "leaves_listener (throw e)" "leaves_listener block"
  by (simp_all add: leaves_listener_def action_simps)

section \<open>Properties\<close>

text \<open>
  The outcome of closing a listener, for a single task: where it returns, the listener is
  \<open>CLOSED\<close> and a second \<^verbatim>\<open>close()\<close> changes nothing; where it raises, the listener was \<open>OPEN\<close>
  and is \<open>OPEN\<close> again, so that it can be closed anew, and the exception is the hook's; where it
  is suspended, the listener is in transition. The observers are told of every state it enters.
\<close>

theorem listener_close_outcome:
  assumes "leaves_listener hook" and "lflags_ok l" and "listener_close hook l = (r, l')"
  shows "lflags_ok l' \<and>
    (case r of
       Returns _ \<Rightarrow> lstate l' = CLOSED \<and> listener_close hook' l' = (Returns (), l') \<and>
         (lstate l = OPEN \<longrightarrow> lsent l' = lsent l @
            [ListenerStateChanged OPEN CLOSING, ListenerStateChanged CLOSING CLOSED, Closed])
     | Raises e \<Rightarrow> lstate l = OPEN \<and> lstate l' = OPEN \<and> fst (hook (set_lstate CLOSING l)) = Raises e \<and>
         lsent l' = lsent l @
            [ListenerStateChanged OPEN CLOSING, ListenerStateChanged CLOSING OPEN, Opened]
     | Blocks \<Rightarrow> listener_is_transitioning l')"
proof -
  have fr: "lsn.frame hook" using assms(1) by (simp add: lframe_iff)
  have cons: "lflags_ok l'" using lsn.cl_consistent[OF fr assms(2)] assms(3) by simp
  note out = lsn.cl_outcome[OF fr assms(2,3)]
  show ?thesis
  proof (cases "lstate l = OPEN")
    case True
    obtain q d where h: "hook (set_lstate CLOSING l) = (q, d)" by (cases "hook (set_lstate CLOSING l)")
    note ph = lsn.phase_result[OF fr assms(2) h]
    have run: "(r, l') = (q, case q of Returns _ \<Rightarrow> set_lstate CLOSED d | Raises _ \<Rightarrow> set_lstate OPEN d | Blocks \<Rightarrow> d)"
      using ph(1) assms(3) True by (auto simp: lsn.cl_up)
    have d: "lflags_ok d" "lstate d = CLOSING" "lsent d = lsent l @ [ListenerStateChanged OPEN CLOSING]"
      using ph(2-4) True by (simp_all add: lannounce_def)
    have "lsent (set_lstate s d) = lsent d @ lannounce CLOSING s" if "s \<noteq> CLOSING" for s
      using lsent_set_lstate[OF d(1)] d(2) that by simp
    then show ?thesis
      using run d cons h True by (cases q) (auto simp: lannounce_def listener_close_def listener_is_transitioning_def)
  next
    case False
    then show ?thesis using cons out assms(3)
      by (cases r; cases "lstate l") (auto simp: listener_close_def listener_is_transitioning_def)
  qed
qed

theorem listener_close_outcome_witness:
  "\<exists>l'. listener_close (throw (OSError 9)) (set_lstate OPEN init_listener) = (Raises (OSError 9), l') \<and>
     lstate l' = OPEN"
proof -
  obtain r l' where run: "listener_close (throw (OSError 9)) (set_lstate OPEN init_listener) = (r, l')"
    by (cases "listener_close (throw (OSError 9)) (set_lstate OPEN init_listener)")
  have "r = Raises (OSError 9)"
    using run by (auto simp: listener_close_def lclose_body_def action_simps)
  then show ?thesis using run listener_close_outcome[OF _ _ run] by simp
qed

end
