(* ===== verification/Trio_Listener.thy ===== *)
theory Trio_Listener
  imports Listener_Base
begin

text \<open>
  \<^verbatim>\<open>TrioListenerBase\<close> of \<^verbatim>\<open>listeners/base.py\<close>: a listener that is open while a background task runs.
  Opening starts the task in a nursery and waits until it reports \<^verbatim>\<open>started()\<close>; closing cancels the
  task's scope and waits until it has exited; a task that exits by itself schedules a \<^verbatim>\<open>close()\<close>.

  The listener, its task and the scheduled calls run concurrently, so the model is a step
  relation: one step is what happens between two suspension points. The body \<^verbatim>\<open>_run()\<close> is the
  subclass's: it may report \<^verbatim>\<open>started()\<close>, return, or raise at any time. The calls of \<^verbatim>\<open>close()\<close> that the
  task schedules may come in every state. The calls of the users are those in a settled state; their calls in
  transition, and cancelled callers, are the subject of \<open>Listener_Tasks\<close>. Nobody is cancelled from outside, and the calls
  of \<^verbatim>\<open>close()\<close> that wait for the listener to be open go on together, before anybody else calls it.
\<close>

section \<open>State\<close>

text \<open>
  The background task: there is none; it has not called \<^verbatim>\<open>started()\<close> yet; it has. A cancelled task
  is one whose scope has been cancelled.
\<close>

datatype task = NoTask | Starting | Running

text \<open>
  \<open>scope\<close> tells whether \<^verbatim>\<open>_cancel_scope\<close> is an object, \<open>cancelled\<close> whether the scope of the
  running task has been cancelled, \<open>task_exited\<close> is \<^verbatim>\<open>_task_exited\<close>: \<^verbatim>\<open>None\<close> or an event with its flag.
  \<open>close_calls\<close> counts the calls of \<^verbatim>\<open>close()\<close> that the nursery has been given and has not run yet,
  \<open>waiting_closes\<close> those of them that wait for the listener to be open, having found it in preparation.
  \<open>start_result\<close> tells whether \<^verbatim>\<open>nursery.start\<close> is about to return or to raise in \<^verbatim>\<open>open()\<close>.
\<close>

record trio_listener = listener +
  nursery :: bool
  scope :: bool
  cancelled :: bool
  task_exited :: "bool option"
  the_task :: task
  start_result :: "bool option"
  close_calls :: nat
  waiting_closes :: nat

definition init_trio_listener :: "bool \<Rightarrow> trio_listener" where
  "init_trio_listener n =
     listener.extend init_listener
       \<lparr>nursery = n, scope = False, cancelled = False, task_exited = None, the_task = NoTask,
        start_result = None, close_calls = 0, waiting_closes = 0\<rparr>"

section \<open>The pieces of the methods\<close>

text \<open>\<^verbatim>\<open>_run_internal_trio_task\<close> up to the call of \<^verbatim>\<open>_run()\<close>, which \<^verbatim>\<open>_open()\<close> starts.\<close>

definition start_task :: "trio_listener \<Rightarrow> trio_listener" where
  "start_task l = l\<lparr>scope := True, cancelled := False, task_exited := Some False, the_task := Starting, start_result := None\<rparr>"

text \<open>\<^verbatim>\<open>task_status.started()\<close>, called in \<^verbatim>\<open>_run()\<close>: \<^verbatim>\<open>nursery.start\<close> returns, in its own time.\<close>

definition report_started :: "trio_listener \<Rightarrow> trio_listener" where
  "report_started l = l\<lparr>the_task := Running, start_result := Some True\<rparr>"

text \<open>Its end, after the scope has been left; a task that was not cancelled schedules a \<^verbatim>\<open>close()\<close>.\<close>

definition end_task :: "bool \<Rightarrow> trio_listener \<Rightarrow> trio_listener" where
  "end_task by_itself l =
     l\<lparr>scope := False, task_exited := Some True, the_task := NoTask,
       start_result := (if the_task l = Starting then Some False else start_result l),
       close_calls := (if by_itself then Suc (close_calls l) else close_calls l)\<rparr>"

text \<open>\<^verbatim>\<open>_close()\<close> up to its wait.\<close>

definition cancel_scope :: "trio_listener \<Rightarrow> trio_listener" where
  "cancel_scope l =
     (if scope l then l\<lparr>scope := False, cancelled := (the_task l \<noteq> NoTask)\<rparr> else l)"

definition begin_close :: "trio_listener \<Rightarrow> trio_listener" where
  "begin_close l = cancel_scope (set_lstate CLOSING l)"

section \<open>Steps\<close>

inductive trio_step :: "trio_listener \<Rightarrow> trio_listener \<Rightarrow> bool" where
  open_without_nursery:
    "lstate l = CLOSED \<Longrightarrow> \<not> nursery l \<Longrightarrow>
       trio_step l (set_lstate CLOSED (set_lstate PREPARING l))"
| open_call:
    "lstate l = CLOSED \<Longrightarrow> nursery l \<Longrightarrow> trio_step l (start_task (set_lstate PREPARING l))"
| started:
    "the_task l = Starting \<Longrightarrow> trio_step l (report_started l)"
| open_returns:
    "lstate l = PREPARING \<Longrightarrow> start_result l = Some True \<Longrightarrow>
       trio_step l (set_lstate OPEN (l\<lparr>start_result := None\<rparr>))"
| start_raises:
    "lstate l = PREPARING \<Longrightarrow> start_result l = Some False \<Longrightarrow>
       trio_step l (set_lstate CLOSED (l\<lparr>start_result := None\<rparr>))"
| task_ends:
    "the_task l \<noteq> NoTask \<Longrightarrow> trio_step l (end_task True l)"
| task_cancelled:
    "the_task l \<noteq> NoTask \<Longrightarrow> cancelled l \<Longrightarrow> trio_step l (end_task False l)"
| close_call:
    "lstate l = OPEN \<Longrightarrow> waiting_closes l = 0 \<Longrightarrow> trio_step l (begin_close l)"
| scheduled_close:
    "lstate l = OPEN \<Longrightarrow> waiting_closes l = 0 \<Longrightarrow> close_calls l = Suc n \<Longrightarrow>
       trio_step l (begin_close (l\<lparr>close_calls := n\<rparr>))"
| scheduled_close_waits:
    "lstate l = PREPARING \<Longrightarrow> close_calls l = Suc n \<Longrightarrow>
       trio_step l (l\<lparr>close_calls := n, waiting_closes := Suc (waiting_closes l)\<rparr>)"
| scheduled_close_idle:
    "lstate l \<in> {CLOSED, CLOSING} \<Longrightarrow> close_calls l = Suc n \<Longrightarrow> trio_step l (l\<lparr>close_calls := n\<rparr>)"
| waiting_close:
    "lstate l = OPEN \<Longrightarrow> 0 < waiting_closes l \<Longrightarrow> trio_step l (begin_close (l\<lparr>waiting_closes := 0\<rparr>))"
| close_done:
    "lstate l = CLOSING \<Longrightarrow> task_exited l \<noteq> Some False \<Longrightarrow> trio_step l (set_lstate CLOSED l)"

inductive trio_reachable :: "bool \<Rightarrow> trio_listener \<Rightarrow> bool" for n where
  fresh: "trio_reachable n (init_trio_listener n)"
| moved: "trio_reachable n l \<Longrightarrow> trio_step l l' \<Longrightarrow> trio_reachable n l'"

inductive_cases trio_stepE [consumes 1]: "trio_step l l'"

section \<open>Fields\<close>

lemma trio_more:
  "listener.more l = listener.more m \<Longrightarrow>
    nursery l = nursery m \<and> scope l = scope m \<and> cancelled l = cancelled m \<and>
    task_exited l = task_exited m \<and> the_task l = the_task m \<and> start_result l = start_result m \<and>
    close_calls l = close_calls m \<and> waiting_closes l = waiting_closes m"
  by (cases l; cases m) simp

lemma trio_set_lstate [simp]:
  "nursery (set_lstate s l) = nursery l" "scope (set_lstate s l) = scope l"
  "cancelled (set_lstate s l) = cancelled l" "task_exited (set_lstate s l) = task_exited l"
  "the_task (set_lstate s l) = the_task l" "start_result (set_lstate s l) = start_result l"
  "close_calls (set_lstate s l) = close_calls l" "waiting_closes (set_lstate s l) = waiting_closes l"
  using trio_more[of "set_lstate s l" l] by simp_all

lemma init_trio_simps [simp]:
  "lstate (init_trio_listener n) = CLOSED" "nursery (init_trio_listener n) = n"
  "scope (init_trio_listener n) = False" "task_exited (init_trio_listener n) = None"
  "the_task (init_trio_listener n) = NoTask" "start_result (init_trio_listener n) = None" "waiting_closes (init_trio_listener n) = 0"
  "cancelled (init_trio_listener n) = False" "close_calls (init_trio_listener n) = 0"
  "lsent (init_trio_listener n) = []" "is_open_flag (init_trio_listener n) = False"
  "is_closed_flag (init_trio_listener n) = True"
  by (simp_all add: init_trio_listener_def init_listener_def listener.extend_def)

lemma lstate_pieces [simp]:
  "lstate (start_task l) = lstate l" "lstate (end_task b l) = lstate l" "lstate (cancel_scope l) = lstate l"
  "lstate (begin_close l) = CLOSING" "lstate (report_started l) = lstate l"
  by (simp_all add: report_started_def start_task_def end_task_def cancel_scope_def begin_close_def)

section \<open>Invariant\<close>

text \<open>
  The task and the state of the listener. The last two parts: an event that is not set belongs
  to a task that runs, and a listener whose task has ended by itself has a \<^verbatim>\<open>close()\<close> coming.
\<close>

definition trio_inv :: "trio_listener \<Rightarrow> bool" where
  "trio_inv l \<longleftrightarrow>
     (lstate l \<noteq> PREPARING \<longrightarrow> start_result l = None) \<and>
     (lstate l = CLOSED \<longrightarrow> the_task l = NoTask) \<and>
     (the_task l = Starting \<longrightarrow> lstate l = PREPARING) \<and>
     (lstate l = PREPARING \<longrightarrow>
        (case the_task l of
           Starting \<Rightarrow> start_result l = None
         | Running \<Rightarrow> start_result l = Some True
         | NoTask \<Rightarrow> start_result l \<noteq> None)) \<and>
     (the_task l \<noteq> NoTask \<longrightarrow> cancelled l = (lstate l = CLOSING) \<and> scope l = (\<not> cancelled l)) \<and>
     (task_exited l = Some False) = (the_task l \<noteq> NoTask) \<and>
     (the_task l = NoTask \<and> (lstate l = OPEN \<or> lstate l = PREPARING \<and> start_result l = Some True) \<longrightarrow>
        0 < close_calls l + waiting_closes l)"

lemma trio_inv_init: "trio_inv (init_trio_listener n)"
  by (simp add: trio_inv_def)

lemma begin_close_inv:
  assumes "trio_inv l" and "lstate l = OPEN"
  shows "trio_inv (begin_close l)" "trio_inv (begin_close (l\<lparr>close_calls := n\<rparr>))"
    "trio_inv (begin_close (l\<lparr>waiting_closes := m\<rparr>))"
  using assms by (cases "the_task l"; auto simp: trio_inv_def begin_close_def cancel_scope_def)+

lemma trio_inv_step:
  assumes "trio_step l l'" and "trio_inv l"
  shows "trio_inv l'"
  using assms(1)
proof (cases rule: trio_step.cases)
  case close_call
  then show ?thesis using begin_close_inv[OF assms(2)] by simp
next
  case (scheduled_close n)
  then show ?thesis using begin_close_inv[OF assms(2)] by simp
next
  case waiting_close
  then show ?thesis using begin_close_inv[OF assms(2)] by simp
qed (use assms(2) in \<open>auto simp: trio_inv_def start_task_def report_started_def end_task_def split: task.splits if_splits\<close>)

lemma trio_reachable_inv: "trio_reachable n l \<Longrightarrow> trio_inv l"
  by (induction rule: trio_reachable.induct) (auto intro: trio_inv_init trio_inv_step)

lemma end_task_simps [simp]:
  "the_task (end_task b l) = NoTask" "task_exited (end_task b l) = Some True"
  by (simp_all add: end_task_def)

text \<open>The way from a closed listener to a session.\<close>

definition session_of :: "trio_listener \<Rightarrow> trio_listener" where
  "session_of l = set_lstate OPEN ((report_started (start_task (set_lstate PREPARING l)))\<lparr>start_result := None\<rparr>)"

lemma session_reachable:
  assumes "trio_reachable n l" and "lstate l = CLOSED" and "nursery l"
  shows "trio_reachable n (session_of l)"
proof -
  let ?a = "start_task (set_lstate PREPARING l)"
  have "trio_reachable n ?a" by (rule moved[OF assms(1) open_call[OF assms(2,3)]])
  then have "trio_reachable n (report_started ?a)" by (rule moved) (rule started, simp add: start_task_def)
  then show ?thesis
    unfolding session_of_def by (rule moved) (rule open_returns, simp_all add: report_started_def)
qed

lemma session_simps [simp]:
  "lstate (session_of l) = OPEN" "the_task (session_of l) = Running" "\<not> cancelled (session_of l)" "scope (session_of l)"
  "close_calls (session_of l) = close_calls l" "waiting_closes (session_of l) = waiting_closes l"
  "nursery (session_of l) = nursery l"
  by (simp_all add: session_of_def report_started_def start_task_def)

section \<open>Properties\<close>

text \<open>
  In every reachable state, a closed listener has no background task, and an open one has
  a task that reported \<^verbatim>\<open>started()\<close> and is not cancelled, or else a \<^verbatim>\<open>close()\<close> of it is on its way:
  a listener whose task died does not stay open unnoticed.
\<close>

theorem listener_follows_task:
  assumes "trio_reachable n l"
  shows "(lstate l = CLOSED \<longrightarrow> the_task l = NoTask) \<and>
    (lstate l = OPEN \<longrightarrow> (the_task l = Running \<and> \<not> cancelled l) \<or>
       (the_task l = NoTask \<and> 0 < close_calls l + waiting_closes l))"
  using trio_reachable_inv[OF assms] by (cases "the_task l") (auto simp: trio_inv_def)

text \<open>
  A listener that is being closed can always finish: from every reachable \<open>CLOSING\<close> state,
  the end of the cancelled task, if it still runs, and of the wait lead to a closed listener
  without a task. No event is waited for that nobody is left to set.
\<close>

theorem closing_completes:
  assumes "trio_reachable n l" and "lstate l = CLOSING"
  shows "\<exists>l'. trio_step\<^sup>*\<^sup>* l l' \<and> lstate l' = CLOSED \<and> the_task l' = NoTask"
proof (cases "the_task l = NoTask")
  case True
  then have "task_exited l \<noteq> Some False" using trio_reachable_inv[OF assms(1)] by (simp add: trio_inv_def)
  then have "trio_step l (set_lstate CLOSED l)" using assms(2) by (rule close_done[rotated])
  then show ?thesis using True by (intro exI[of _ "set_lstate CLOSED l"]) auto
next
  case False
  then have "trio_step l (end_task False l)"
    using trio_reachable_inv[OF assms(1)] assms(2) by (intro task_cancelled) (simp_all add: trio_inv_def)
  moreover have "trio_step (end_task False l) (set_lstate CLOSED (end_task False l))"
    by (rule close_done) (simp_all add: assms(2))
  ultimately show ?thesis
    by (intro exI[of _ "set_lstate CLOSED (end_task False l)"]) (auto intro: rtranclp.rtrancl_into_rtrancl)
qed

text \<open>
  The \<^verbatim>\<open>close()\<close> that a task schedules when it exits may come too late. There is a run in
  which the listener is closed by somebody else and opened again before the scheduled call
  runs: the call then closes the new session, whose task is running and had no part in it.
\<close>

theorem stale_close_hits_new_session:
  "\<exists>l l'. trio_reachable True l \<and> lstate l = OPEN \<and> the_task l = Running \<and> \<not> cancelled l \<and>
     0 < close_calls l \<and> trio_step l l' \<and> lstate l' = CLOSING \<and> cancelled l'"
proof -
  define l1 where "l1 = session_of (init_trio_listener True)"
  define l2 where "l2 = end_task True l1"
  define l3 where "l3 = set_lstate CLOSED (begin_close l2)"
  define l4 where "l4 = session_of l3"
  have r1: "trio_reachable True l1" unfolding l1_def by (rule session_reachable[OF fresh]) simp_all
  have r2: "trio_reachable True l2" and f2: "lstate l2 = OPEN" "nursery l2" "close_calls l2 = 1" "scope l2 = False"
      "task_exited l2 = Some True" "waiting_closes l2 = 0"
    using moved[OF r1 task_ends] by (simp_all add: l1_def l2_def end_task_def)
  have b: "trio_reachable True (begin_close l2)" by (rule moved[OF r2 close_call]) (rule f2)+
  have "begin_close l2 = set_lstate CLOSING l2" using f2 by (simp add: begin_close_def cancel_scope_def)
  then have r3: "trio_reachable True l3" and f3: "lstate l3 = CLOSED" "nursery l3" "close_calls l3 = 1" "waiting_closes l3 = 0"
    using moved[OF b close_done] f2 by (simp_all add: l3_def)
  have r4: "trio_reachable True l4" unfolding l4_def by (rule session_reachable[OF r3 f3(1,2)])
  have f4: "lstate l4 = OPEN" "waiting_closes l4 = 0" "close_calls l4 = Suc 0" "the_task l4 = Running" "\<not> cancelled l4" "scope l4"
    using f3 by (simp_all add: l4_def)
  have "trio_step l4 (begin_close (l4\<lparr>close_calls := 0\<rparr>))" by (rule scheduled_close) (rule f4)+
  then show ?thesis
    using r4 f4 by (intro exI[of _ l4] exI[of _ "begin_close (l4\<lparr>close_calls := 0\<rparr>)"])
      (simp add: begin_close_def cancel_scope_def)
qed

text \<open>
  An \<^verbatim>\<open>open()\<close> that fails leaves a \<^verbatim>\<open>close()\<close> behind. When the task fails before it has reported
  \<^verbatim>\<open>started()\<close>, as it does when the address is in use, the \<^verbatim>\<open>close()\<close> that it schedules may find the listener still
  in preparation. Then, after \<^verbatim>\<open>open()\<close> has raised, this call goes on waiting in the nursery for a listener that is closed;
  and when the listener is opened again with success, the only way on for it is to be closed, unless its task ends before.
\<close>

theorem failed_open_leaves_close:
  "\<exists>l. trio_reachable True l \<and> lstate l = CLOSED \<and> the_task l = NoTask \<and> waiting_closes l = 1 \<and>
     trio_reachable True (session_of l) \<and> the_task (session_of l) = Running \<and> \<not> cancelled (session_of l) \<and>
     {l'. trio_step (session_of l) l'} =
       {begin_close ((session_of l)\<lparr>waiting_closes := 0\<rparr>), end_task True (session_of l)}"
proof -
  define l1 where "l1 = end_task True (start_task (set_lstate PREPARING (init_trio_listener True)))"
  define l2 where "l2 = l1\<lparr>close_calls := 0, waiting_closes := 1\<rparr>"
  define l3 where "l3 = set_lstate CLOSED (l2\<lparr>start_result := None\<rparr>)"
  have "trio_reachable True (start_task (set_lstate PREPARING (init_trio_listener True)))"
    by (rule moved[OF fresh]) (rule open_call, simp_all)
  then have r1: "trio_reachable True l1" unfolding l1_def by (rule moved) (rule task_ends, simp add: start_task_def)
  have f1: "lstate l1 = PREPARING" "close_calls l1 = Suc 0" "waiting_closes l1 = 0" "start_result l1 = Some False"
      "nursery l1"
    by (simp_all add: l1_def end_task_def start_task_def)
  have r2: "trio_reachable True l2"
    using moved[OF r1 scheduled_close_waits[OF f1(1,2)]] f1(3) by (simp add: l2_def)
  have r3: "trio_reachable True l3"
    unfolding l3_def by (rule moved[OF r2 start_raises]) (simp_all add: l2_def f1)
  have f3: "lstate l3 = CLOSED" "nursery l3" "waiting_closes l3 = 1" "close_calls l3 = 0" "the_task l3 = NoTask"
    using f1 by (simp_all add: l3_def l2_def l1_def)
  let ?s = "session_of l3"
  have "trio_step ?s (begin_close (?s\<lparr>waiting_closes := 0\<rparr>))" by (rule waiting_close) (simp_all add: f3)
  moreover have "trio_step ?s (end_task True ?s)" by (rule task_ends) simp
  moreover have "l' = begin_close (?s\<lparr>waiting_closes := 0\<rparr>) \<or> l' = end_task True ?s" if "trio_step ?s l'" for l'
    using that by (cases rule: trio_step.cases) (auto simp: f3)
  ultimately have "{l'. trio_step ?s l'} = {begin_close (?s\<lparr>waiting_closes := 0\<rparr>), end_task True ?s}" by blast
  then show ?thesis
    using r3 session_reachable[OF r3 f3(1,2)] f3 by (intro exI[of _ l3]) simp
qed

section \<open>Witnesses\<close>

definition open_listener :: trio_listener where
  "open_listener = session_of (init_trio_listener True)"

lemma open_listener_reachable: "trio_reachable True open_listener"
  unfolding open_listener_def by (rule session_reachable[OF fresh]) simp_all

theorem listener_follows_task_witness:
  "lstate open_listener = OPEN \<and> the_task open_listener = Running"
  using listener_follows_task[OF open_listener_reachable] by (simp add: open_listener_def)

theorem closing_completes_witness:
  "\<exists>l'. trio_step\<^sup>*\<^sup>* (begin_close open_listener) l' \<and> lstate l' = CLOSED \<and> the_task l' = NoTask"
proof (rule closing_completes)
  show "trio_reachable True (begin_close open_listener)"
    by (rule moved[OF open_listener_reachable close_call]) (simp_all add: open_listener_def)
qed simp

end
