(* ===== verification/Listener_Renaming.thy ===== *)
theory Listener_Renaming
  imports Listener_Base Connection_Base
begin

text \<open>
  Listeners as connections. \<^verbatim>\<open>ListenerBase\<close> of \<^verbatim>\<open>listeners/base.py\<close> is \<^verbatim>\<open>ConnectionBase\<close> of
  \<^verbatim>\<open>connections/base.py\<close> written a second time with other names: a renaming of the states and of the signals
  carries \<^verbatim>\<open>_set_state()\<close>, \<^verbatim>\<open>open()\<close>, \<^verbatim>\<open>close()\<close> and \<^verbatim>\<open>async with\<close> of the one to those of the other.
\<close>

section \<open>The renaming\<close>

fun as_state :: "listener_state \<Rightarrow> connection_state" where
  "as_state CLOSED = DISCONNECTED"
| "as_state PREPARING = CONNECTING"
| "as_state OPEN = CONNECTED"
| "as_state CLOSING = DISCONNECTING"

fun as_signal :: "listener_signal \<Rightarrow> conn_signal" where
  "as_signal (ListenerStateChanged old_state new_state) = StateChanged (as_state old_state) (as_state new_state)"
| "as_signal Opened = Connected"
| "as_signal Closed = Disconnected"

definition as_connection :: "'a listener_scheme \<Rightarrow> connection" where
  "as_connection l =
     \<lparr>conn_state = as_state (lstate l), is_connected_flag = is_open_flag l,
      is_disconnected_flag = is_closed_flag l, sent = map as_signal (lsent l)\<rparr>"

lemma as_state_inject [simp]: "as_state s = as_state s' \<longleftrightarrow> s = s'"
  by (cases s; cases s') simp_all

lemma as_state_iff [simp]:
  "as_state s = DISCONNECTED \<longleftrightarrow> s = CLOSED" "as_state s = CONNECTING \<longleftrightarrow> s = PREPARING"
  "as_state s = CONNECTED \<longleftrightarrow> s = OPEN" "as_state s = DISCONNECTING \<longleftrightarrow> s = CLOSING"
  by (cases s; simp)+

lemma as_connection_simps [simp]:
  "conn_state (as_connection l) = as_state (lstate l)"
  "is_connected_flag (as_connection l) = is_open_flag l"
  "is_disconnected_flag (as_connection l) = is_closed_flag l"
  "sent (as_connection l) = map as_signal (lsent l)"
  by (simp_all add: as_connection_def)

lemma as_connection_init [simp]: "as_connection init_listener = init_connection"
  by (simp add: as_connection_def init_listener_def init_connection_def)

lemma as_connection_set [simp]: "as_connection (set_lstate s l) = set_state (as_state s) (as_connection l)"
proof (cases "s = lstate l")
  case False
  then show ?thesis
    by (intro connection.equality) (simp_all add: set_lstate_fields set_state_fields)
qed (simp add: set_state_def)

lemma lflags_as_connection: "flags_ok (as_connection l) \<longleftrightarrow> lflags_ok l"
  by (simp add: flags_ok_def lflags_ok_def)

text \<open>An action on listeners is an action on connections under the renaming.\<close>

definition renames :: "('a listener_scheme, 'b) action \<Rightarrow> (connection, 'b) action \<Rightarrow> bool" where
  "renames m m' \<longleftrightarrow> (\<forall>l. m' (as_connection l) = map_prod id as_connection (m l))"

lemma renamesD: "renames m m' \<Longrightarrow> m l = (r, l') \<Longrightarrow> m' (as_connection l) = (r, as_connection l')"
  by (simp add: renames_def)

lemma renames_modify: "(\<And>l. f' (as_connection l) = as_connection (f l)) \<Longrightarrow> renames (modify f) (modify f')"
  by (simp add: renames_def modify_def)

lemma renames_and_then:
  assumes "renames m m'" and "\<And>x. renames (k x) (k' x)"
  shows "renames (and_then m k) (and_then m' k')"
  unfolding renames_def
proof
  fix l
  obtain r d where m: "m l = (r, d)" by (cases "m l")
  show "and_then m' k' (as_connection l) = map_prod id as_connection (and_then m k l)"
    using renamesD[OF assms(1) m] m assms(2)
    by (cases r) (simp_all add: action_simps renames_def)
qed

lemma renames_try_finally:
  assumes "renames m m'" and "\<And>b. renames (k b) (k' b)"
  shows "renames (try_finally m k) (try_finally m' k')"
  unfolding renames_def
proof
  fix l
  obtain r d where m: "m l = (r, d)" by (cases "m l")
  have k: "k' b (as_connection d) = map_prod id as_connection (k b d)" for b
    using assms(2) by (simp add: renames_def)
  show "try_finally m' k' (as_connection l) = map_prod id as_connection (try_finally m k l)"
    using renamesD[OF assms(1) m] m k
    by (cases r) (auto simp: action_simps split: outcome.splits prod.splits)
qed

lemma renames_waits:
  "renames wait_until_open wait_until_connected" "renames wait_until_closed wait_until_disconnected"
  by (simp_all add: renames_def wait_until_open_def wait_until_closed_def wait_until_connected_def
      wait_until_disconnected_def)

lemma renames_bodies:
  assumes "renames hook hook'"
  shows "renames (lopen_body hook) (open_body hook')" "renames (lclose_body hook) (close_body hook')"
  unfolding lopen_body_def open_body_def lclose_body_def close_body_def
  by (intro renames_and_then renames_try_finally renames_modify assms; simp)+

text \<open>
  C15. \<^verbatim>\<open>ListenerBase\<close> has the life cycle of \<^verbatim>\<open>ConnectionBase\<close>, renamed: with hooks that do the same, \<^verbatim>\<open>open()\<close>,
  \<^verbatim>\<open>close()\<close> and \<^verbatim>\<open>async with\<close> of a listener return, raise or wait exactly when those of a connection do, and leave the
  renamed state, flags and signals behind.
\<close>

theorem listener_is_renamed_connection:
  assumes "renames oh oh'" and "renames ch ch'" and "renames body body'"
  shows "renames (listener_open oh) (conn_open oh') \<and> renames (listener_close ch) (conn_close ch') \<and>
    renames (with_listener oh ch body) (with_connection oh' ch' body')"
proof -
  note bodies = renames_bodies(1)[OF assms(1)] renames_bodies(2)[OF assms(2)]
  note waits = renames_and_then[OF renames_waits(2) bodies(1)] renames_and_then[OF renames_waits(1) bodies(2)]
  have o: "renames (listener_open oh) (conn_open oh')"
    unfolding renames_def
  proof
    fix l
    show "conn_open oh' (as_connection l) = map_prod id as_connection (listener_open oh l)"
      using bodies waits
      by (cases "lstate l") (simp_all add: renames_def listener_open_def conn_open_def renames_waits[unfolded renames_def])
  qed
  have c: "renames (listener_close ch) (conn_close ch')"
    unfolding renames_def
  proof
    fix l
    show "conn_close ch' (as_connection l) = map_prod id as_connection (listener_close ch l)"
      using bodies waits
      by (cases "lstate l") (simp_all add: renames_def listener_close_def conn_close_def renames_waits[unfolded renames_def])
  qed
  show ?thesis
    using o c unfolding with_listener_def with_connection_def
    by (intro conjI renames_and_then renames_try_finally assms)
qed

theorem listener_is_renamed_connection_witness:
  "conn_open (throw (OSError 98)) init_connection =
     map_prod id as_connection (listener_open (throw (OSError 98)) init_listener)"
proof -
  have t: "renames (throw (OSError 98) :: (listener, unit) action) (throw (OSError 98))"
    by (simp add: renames_def action_simps)
  show ?thesis
    using listener_is_renamed_connection[OF t t t] as_connection_init unfolding renames_def by metis
qed

end
