(* ===== verification/Listener_Tasks.thy ===== *)
theory Listener_Tasks
  imports Listener_Renaming Connection_Tasks
begin

text \<open>
  \<^verbatim>\<open>TrioListenerBase\<close> of \<^verbatim>\<open>listeners/base.py\<close> with any number of tasks that call \<^verbatim>\<open>open()\<close> and \<^verbatim>\<open>close()\<close> in any
  state, cancelled callers and cancelled nurseries included, where \<open>Trio_Listener\<close> has one call at a time. The
  objects have identities: each run of \<^verbatim>\<open>_run_internal_trio_task\<close> creates a scope and an event, and the two
  attributes point to the objects of whichever run has assigned them last. The renaming of \<open>Listener_Renaming\<close>,
  extended to the callers, maps every run of this system to a run of \<open>Connection_Tasks\<close>.
\<close>

section \<open>The concurrent Trio listener\<close>

text \<open>
  A run of \<^verbatim>\<open>_run_internal_trio_task\<close>: before \<^verbatim>\<open>task_status.started()\<close>, after it, or over. \<open>announced\<close>
  tells that it has called \<^verbatim>\<open>started()\<close>, \<open>scope_cancelled\<close> that its own \<^verbatim>\<open>CancelScope\<close> has been cancelled,
  and \<open>exit_event\<close> is the flag of the \<^verbatim>\<open>Event\<close> it created.
\<close>

datatype stage = Launching | Serving | Gone

record body_run =
  stage :: stage
  announced :: bool
  scope_cancelled :: bool
  exit_event :: bool

text \<open>
  A caller of \<^verbatim>\<open>open()\<close> and \<^verbatim>\<open>close()\<close>: the positions of \<open>Connection_Tasks\<close>, where the hook is either
  \<^verbatim>\<open>nursery.start\<close> of a numbered run or the wait for the event of one.
\<close>

datatype lpc =
    LIdle
  | LWaiting call listener_state bool
  | Starts nat
  | AwaitsExit nat
  | LDone call
  | LFailed call

text \<open>
  \<open>runs\<close> lists the runs in the order they were started; \<open>cur_scope\<close> is \<^verbatim>\<open>_cancel_scope\<close> and \<open>cur_exited\<close>
  is \<^verbatim>\<open>_task_exited\<close>, as the number of the run whose object it is; \<open>scheduled\<close> counts the calls of
  \<^verbatim>\<open>close()\<close> handed to the nursery with \<^verbatim>\<open>start_soon\<close> that have not begun.
\<close>

record lsys =
  lsn :: listener
  callers :: "nat \<Rightarrow> lpc"
  with_nursery :: bool
  runs :: "body_run list"
  cur_scope :: "nat option"
  cur_exited :: "nat option"
  scheduled :: nat

definition init_lsys :: "bool \<Rightarrow> lsys" where
  "init_lsys n =
     \<lparr>lsn = init_listener, callers = (\<lambda>_. LIdle), with_nursery = n, runs = [], cur_scope = None,
      cur_exited = None, scheduled = 0\<rparr>"

fun lflag_of :: "listener_state \<Rightarrow> listener \<Rightarrow> bool" where
  "lflag_of OPEN l = is_open_flag l"
| "lflag_of CLOSED l = is_closed_flag l"
| "lflag_of _ l = False"

fun lrelease1 :: "listener \<Rightarrow> listener \<Rightarrow> lpc \<Rightarrow> lpc" where
  "lrelease1 l l' (LWaiting k st r) = LWaiting k st (r \<or> (\<not> lflag_of st l \<and> lflag_of st l'))"
| "lrelease1 l l' p = p"

definition lchange :: "listener_state \<Rightarrow> lsys \<Rightarrow> lsys" where
  "lchange new_state s =
     (let l' = set_lstate new_state (lsn s)
      in s\<lparr>lsn := l', callers := (\<lambda>t. lrelease1 (lsn s) l' (callers s t))\<rparr>)"

definition lmove :: "nat \<Rightarrow> lpc \<Rightarrow> lsys \<Rightarrow> lsys" where
  "lmove t p s = s\<lparr>callers := (callers s)(t := p)\<rparr>"

definition lwait :: "call \<Rightarrow> listener_state \<Rightarrow> nat \<Rightarrow> lsys \<Rightarrow> lsys" where
  "lwait k st t s = lmove t (LWaiting k st (lflag_of st (lsn s))) s"

text \<open>
  The beginning of \<^verbatim>\<open>_run_internal_trio_task\<close>, which \<^verbatim>\<open>nursery.start\<close> runs: a new scope and a new event
  replace those of the previous run, whether or not that one is over.
\<close>

definition launch :: "lsys \<Rightarrow> lsys" where
  "launch s =
     s\<lparr>runs := runs s @ [\<lparr>stage = Launching, announced = False, scope_cancelled = False, exit_event = False\<rparr>],
       cur_scope := Some (length (runs s)), cur_exited := Some (length (runs s))\<rparr>"

text \<open>The body of \<^verbatim>\<open>open()\<close> up to its first suspension, with the hook \<^verbatim>\<open>_open()\<close>.\<close>

definition enter_open :: "nat \<Rightarrow> lsys \<Rightarrow> lsys" where
  "enter_open t s =
     (let s1 = lchange PREPARING s in
      if with_nursery s then lmove t (Starts (length (runs s))) (launch s1)
      else lmove t (LFailed Open) (lchange CLOSED s1))"

text \<open>The body of \<^verbatim>\<open>close()\<close> up to its first suspension, with the hook \<^verbatim>\<open>_close()\<close>.\<close>

definition cancel_current :: "lsys \<Rightarrow> lsys" where
  "cancel_current s =
     (case cur_scope s of
        None \<Rightarrow> s
      | Some b \<Rightarrow> s\<lparr>runs := (runs s)[b := (runs s ! b)\<lparr>scope_cancelled := True\<rparr>], cur_scope := None\<rparr>)"

definition enter_close :: "nat \<Rightarrow> lsys \<Rightarrow> lsys" where
  "enter_close t s =
     (let s1 = cancel_current (lchange CLOSING s) in
      case cur_exited s of
        None \<Rightarrow> lmove t (LDone Close) (lchange CLOSED s1)
      | Some b \<Rightarrow> lmove t (AwaitsExit b) s1)"

fun enter :: "call \<Rightarrow> nat \<Rightarrow> lsys \<Rightarrow> lsys" where
  "enter Open t s = enter_open t s"
| "enter Close t s = enter_close t s"

text \<open>A call up to its first suspension: the dispatch of \<^verbatim>\<open>open()\<close> and \<^verbatim>\<open>close()\<close> on the state.\<close>

definition begin_lcall :: "call \<Rightarrow> nat \<Rightarrow> lsys \<Rightarrow> lsys" where
  "begin_lcall k t s =
     (case (k, lstate (lsn s)) of
        (Open, OPEN) \<Rightarrow> lmove t (LDone Open) s
      | (Open, PREPARING) \<Rightarrow> lwait Open OPEN t s
      | (Open, CLOSING) \<Rightarrow> lwait Open CLOSED t s
      | (Open, CLOSED) \<Rightarrow> enter Open t s
      | (Close, CLOSED) \<Rightarrow> lmove t (LDone Close) s
      | (Close, CLOSING) \<Rightarrow> lwait Close CLOSED t s
      | (Close, PREPARING) \<Rightarrow> lwait Close OPEN t s
      | (Close, OPEN) \<Rightarrow> enter Close t s)"

fun goal :: "call \<Rightarrow> listener_state" where
  "goal Open = OPEN" | "goal Close = CLOSED"

definition after_lwait :: "call \<Rightarrow> listener_state \<Rightarrow> nat \<Rightarrow> lsys \<Rightarrow> lsys" where
  "after_lwait k st t s = (if st = goal k then lmove t (LDone k) s else enter k t s)"

text \<open>
  The end of a run, after its \<^verbatim>\<open>with\<close> block: the attribute is cleared and the event that the attribute
  \<^verbatim>\<open>_task_exited\<close> refers to is set, whichever run they belong to by now. A run whose \<^verbatim>\<open>_run()\<close> returned, or
  raised an exception that was logged, has scheduled a \<^verbatim>\<open>close()\<close>.
\<close>

definition end_run :: "nat \<Rightarrow> bool \<Rightarrow> lsys \<Rightarrow> lsys" where
  "end_run b by_itself s =
     (let rs = (runs s)[b := (runs s ! b)\<lparr>stage := Gone\<rparr>] in
      s\<lparr>runs := (case cur_exited s of None \<Rightarrow> rs | Some c \<Rightarrow> rs[c := (rs ! c)\<lparr>exit_event := True\<rparr>]),
        cur_scope := None,
        scheduled := (if by_itself then Suc (scheduled s) else scheduled s)\<rparr>)"

text \<open>
  A run that is cancelled from outside, with its nursery or with the caller of \<^verbatim>\<open>nursery.start\<close>: the
  exception passes the \<^verbatim>\<open>except Exception\<close> clause and the end of the \<^verbatim>\<open>with\<close> block, and skips what follows.
\<close>

definition abort_run :: "nat \<Rightarrow> lsys \<Rightarrow> lsys" where
  "abort_run b s = s\<lparr>runs := (runs s)[b := (runs s ! b)\<lparr>stage := Gone\<rparr>]\<rparr>"

definition alive :: "lsys \<Rightarrow> nat \<Rightarrow> bool" where
  "alive s b \<longleftrightarrow> b < length (runs s) \<and> stage (runs s ! b) \<noteq> Gone"

section \<open>Steps\<close>

datatype levent =
    LCall call nat
  | ScheduledClose nat
  | LResume nat
  | Reports nat
  | StartEnds nat
  | BodyEnds nat
  | BodyCancelled nat
  | BodyAborted nat
  | ExitSeen nat
  | LCancel nat

fun lin_call :: "lpc \<Rightarrow> bool" where
  "lin_call LIdle = False"
| "lin_call (LDone _) = False"
| "lin_call (LFailed _) = False"
| "lin_call _ = True"

text \<open>
  \<open>StartEnds\<close>: \<^verbatim>\<open>nursery.start\<close> returns once the run has called \<^verbatim>\<open>started()\<close>, and raises once the run is over
  without having done so. A cancelled caller of \<^verbatim>\<open>nursery.start\<close> cancels the run that it starts, and \<^verbatim>\<open>start\<close>
  raises when that is over: \<open>BodyAborted\<close>, then \<open>StartEnds\<close>.
\<close>

fun lstep :: "levent \<Rightarrow> lsys \<Rightarrow> lsys option" where
  "lstep (LCall k t) s = (if lin_call (callers s t) then None else Some (begin_lcall k t s))"
| "lstep (ScheduledClose t) s =
     (if lin_call (callers s t) \<or> scheduled s = 0 then None
      else Some (begin_lcall Close t (s\<lparr>scheduled := scheduled s - 1\<rparr>)))"
| "lstep (LResume t) s =
     (case callers s t of LWaiting k st True \<Rightarrow> Some (after_lwait k st t s) | _ \<Rightarrow> None)"
| "lstep (Reports b) s =
     (if alive s b \<and> stage (runs s ! b) = Launching
      then Some (s\<lparr>runs := (runs s)[b := (runs s ! b)\<lparr>stage := Serving, announced := True\<rparr>]\<rparr>) else None)"
| "lstep (StartEnds t) s =
     (case callers s t of
        Starts b \<Rightarrow>
          if announced (runs s ! b) then Some (lmove t (LDone Open) (lchange OPEN s))
          else if stage (runs s ! b) = Gone then Some (lmove t (LFailed Open) (lchange CLOSED s))
          else None
      | _ \<Rightarrow> None)"
| "lstep (BodyEnds b) s = (if alive s b then Some (end_run b True s) else None)"
| "lstep (BodyCancelled b) s =
     (if alive s b \<and> scope_cancelled (runs s ! b) then Some (end_run b False s) else None)"
| "lstep (BodyAborted b) s = (if alive s b then Some (abort_run b s) else None)"
| "lstep (ExitSeen t) s =
     (case callers s t of
        AwaitsExit b \<Rightarrow>
          if exit_event (runs s ! b) then Some (lmove t (LDone Close) (lchange CLOSED s)) else None
      | _ \<Rightarrow> None)"
| "lstep (LCancel t) s =
     (case callers s t of
        LWaiting k st r \<Rightarrow> Some (lmove t (LFailed k) s)
      | AwaitsExit b \<Rightarrow> Some (lmove t (LFailed Close) (lchange OPEN s))
      | _ \<Rightarrow> None)"

fun lrun :: "levent list \<Rightarrow> lsys \<Rightarrow> lsys option" where
  "lrun [] s = Some s"
| "lrun (e # es) s = (case lstep e s of None \<Rightarrow> None | Some s' \<Rightarrow> lrun es s')"

inductive lreachable :: "bool \<Rightarrow> lsys \<Rightarrow> bool" for n where
  lstart: "lreachable n (init_lsys n)"
| lnext: "lreachable n s \<Longrightarrow> lstep e s = Some s' \<Longrightarrow> lreachable n s'"

section \<open>What the pieces do\<close>

lemma lsn_pieces [simp]:
  "lsn (lmove t p s) = lsn s" "lsn (lchange st s) = set_lstate st (lsn s)" "lsn (launch s) = lsn s"
  "lsn (cancel_current s) = lsn s" "lsn (end_run b x s) = lsn s" "lsn (abort_run b s) = lsn s"
  by (simp_all add: lmove_def lchange_def launch_def cancel_current_def end_run_def abort_run_def Let_def
      split: option.split)

lemma callers_pieces [simp]:
  "callers (launch s) = callers s" "callers (cancel_current s) = callers s"
  "callers (end_run b x s) = callers s" "callers (abort_run b s) = callers s"
  "callers (lchange st s) t = lrelease1 (lsn s) (set_lstate st (lsn s)) (callers s t)"
  by (simp_all add: lchange_def launch_def cancel_current_def end_run_def abort_run_def Let_def split: option.split)

lemma callers_lmove: "callers (lmove t p s) u = (if u = t then p else callers s u)"
  by (simp add: lmove_def)

section \<open>The renaming of the system\<close>

fun as_pc :: "lpc \<Rightarrow> pc" where
  "as_pc LIdle = Idle"
| "as_pc (LWaiting k st r) = Waiting k (as_state st) r"
| "as_pc (Starts b) = InHook Open"
| "as_pc (AwaitsExit b) = InHook Close"
| "as_pc (LDone k) = Done k"
| "as_pc (LFailed k) = Failed k"

definition as_sys :: "lsys \<Rightarrow> sys" where
  "as_sys s = \<lparr>link = as_connection (lsn s), pcs = (\<lambda>t. as_pc (callers s t))\<rparr>"

lemma as_sys_simps [simp]:
  "link (as_sys s) = as_connection (lsn s)" "pcs (as_sys s) t = as_pc (callers s t)"
  by (simp_all add: as_sys_def)

lemma as_sys_init [simp]: "as_sys (init_lsys n) = init_sys"
  by (simp add: as_sys_def init_lsys_def init_sys_def)

lemma as_flag_of [simp]: "flag_of (as_state st) (as_connection l) = lflag_of st l"
  by (cases st) simp_all

lemma as_release1: "as_pc (lrelease1 l l' p) = release1 (as_connection l) (as_connection l') (as_pc p)"
  by (cases p) simp_all

lemma as_sys_pieces [simp]:
  "as_sys (lmove t p s) = move t (as_pc p) (as_sys s)"
  "as_sys (lchange st s) = change (as_state st) (as_sys s)"
  "as_sys (launch s) = as_sys s" "as_sys (cancel_current s) = as_sys s"
  "as_sys (end_run b x s) = as_sys s" "as_sys (abort_run b s) = as_sys s"
  "as_sys (s\<lparr>scheduled := n\<rparr>) = as_sys s" "as_sys (s\<lparr>runs := rs\<rparr>) = as_sys s"
  by (auto simp: as_sys_def move_def change_def Let_def lmove_def as_release1)

lemma as_sys_lwait [simp]: "as_sys (lwait k st t s) = wait_for k (as_state st) t (as_sys s)"
  by (simp add: lwait_def wait_for_def)

lemma as_goal [simp]: "as_state (goal k) = good k"
  by (cases k) simp_all

lemma as_lin_call [simp]: "in_call (as_pc p) = lin_call p"
  by (cases p) simp_all

lemma enter_renamed:
  obtains es where "run es (enter_hook k t (as_sys s)) = Some (as_sys (enter k t s))"
    and "run_prompt es (enter_hook k t (as_sys s))"
proof (cases k)
  case Open
  show thesis
  proof (cases "with_nursery s")
    case True
    then show thesis using Open that[of "[]"] by (simp add: enter_open_def enter_hook_def Let_def)
  next
    case False
    then show thesis using Open that[of "[HookRaises t]"]
      by (simp add: enter_open_def enter_hook_def Let_def pcs_move move_change_move)
  qed
next
  case Close
  show thesis
  proof (cases "cur_exited s")
    case None
    then show thesis using Close that[of "[HookReturns t]"]
      by (simp add: enter_close_def enter_hook_def Let_def pcs_move move_change_move)
  next
    case (Some b)
    then show thesis using Close that[of "[]"] by (simp add: enter_close_def enter_hook_def Let_def)
  qed
qed

lemma begin_lcall_eq:
  "begin_lcall k t s =
     (let st = as_state (lstate (lsn s)) in
      if st = good k then lmove t (LDone k) s
      else if st = via k then lwait k (goal k) t s
      else if st = bad k then enter k t s
      else lwait k (goal (case k of Open \<Rightarrow> Close | Close \<Rightarrow> Open)) t s)"
  by (cases k; cases "lstate (lsn s)") (simp_all add: begin_lcall_def)

lemma begin_lcall_renamed:
  assumes "\<not> lin_call (callers s t)"
  obtains es where "run es (as_sys s) = Some (as_sys (begin_lcall k t s))" and "run_prompt es (as_sys s)"
proof (cases "as_state (lstate (lsn s)) = bad k")
  case True
  obtain es where "run es (enter_hook k t (as_sys s)) = Some (as_sys (enter k t s))"
    "run_prompt es (enter_hook k t (as_sys s))" by (rule enter_renamed)
  then show thesis using True assms that[of "Call k t # es"]
    by (simp add: begin_lcall_eq begin_call_eq Let_def)
next
  case False
  then show thesis using assms that[of "[Call k t]"]
    by (cases k) (auto simp: begin_lcall_eq begin_call_eq Let_def)
qed

section \<open>Orderly schedules\<close>

text \<open>
  A step is orderly if it resumes no waiter that goes on to its hook in another state than the one it
  waited for, cancels no run from outside, no \<^verbatim>\<open>close()\<close> in its hook and no \<^verbatim>\<open>close()\<close> that waits for the
  listener to be open.
\<close>

fun lprompt :: "levent \<Rightarrow> lsys \<Rightarrow> bool" where
  "lprompt (LResume t) s =
     (case callers s t of LWaiting k st r \<Rightarrow> st = goal k \<or> lstate (lsn s) = st | _ \<Rightarrow> True)"
| "lprompt _ s = True"

fun gentle :: "levent \<Rightarrow> lsys \<Rightarrow> bool" where
  "gentle (BodyAborted b) s = False"
| "gentle (LCancel t) s =
     (case callers s t of LWaiting k st r \<Rightarrow> k = Open \<or> st = CLOSED | AwaitsExit b \<Rightarrow> False | _ \<Rightarrow> True)"
| "gentle _ s = True"

inductive orderly_reachable :: "bool \<Rightarrow> lsys \<Rightarrow> bool" for n where
  orderly_start: "orderly_reachable n (init_lsys n)"
| orderly_next: "orderly_reachable n s \<Longrightarrow> lprompt e s \<Longrightarrow> gentle e s \<Longrightarrow> lstep e s = Some s' \<Longrightarrow>
    orderly_reachable n s'"

lemma lstep_renamed:
  assumes "lstep e s = Some s'"
  shows "\<exists>es. run es (as_sys s) = Some (as_sys s') \<and> (lprompt e s \<longrightarrow> run_prompt es (as_sys s))"
proof (cases e)
  case (LCall k t)
  with assms have "\<not> lin_call (callers s t)" "s' = begin_lcall k t s" by (auto split: if_splits)
  then show ?thesis by (metis begin_lcall_renamed)
next
  case (ScheduledClose t)
  let ?s = "s\<lparr>scheduled := scheduled s - 1\<rparr>"
  from ScheduledClose assms have "\<not> lin_call (callers ?s t)" "s' = begin_lcall Close t ?s"
    by (auto split: if_splits)
  then show ?thesis by (metis begin_lcall_renamed as_sys_pieces(7))
next
  case (LResume t)
  with assms obtain k st where w: "callers s t = LWaiting k st True" and s': "s' = after_lwait k st t s"
    by (auto split: lpc.splits bool.splits)
  show ?thesis
  proof (cases "st = goal k")
    case True
    then show ?thesis using w s'
      by (intro exI[of _ "[Resume t]"]) (simp add: after_lwait_def after_wait_def)
  next
    case False
    then have "as_state st \<noteq> good k" by (metis as_goal as_state_inject)
    moreover obtain es where "run es (enter_hook k t (as_sys s)) = Some (as_sys (enter k t s))"
      "run_prompt es (enter_hook k t (as_sys s))" by (rule enter_renamed)
    ultimately show ?thesis using w s' False LResume
      by (intro exI[of _ "Resume t # es"]) (simp add: after_lwait_def after_wait_def)
  qed
next
  case (StartEnds t)
  with assms obtain b where "callers s t = Starts b"
    "s' = lmove t (LDone Open) (lchange OPEN s) \<or> s' = lmove t (LFailed Open) (lchange CLOSED s)"
    by (auto split: lpc.splits if_splits)
  then show ?thesis using exI[of _ "[HookReturns t]"] exI[of _ "[HookRaises t]"] by fastforce
next
  case (ExitSeen t)
  with assms show ?thesis
    by (intro exI[of _ "[HookReturns t]"]) (auto split: lpc.splits if_splits)
next
  case (LCancel t)
  with assms show ?thesis using exI[of _ "[Cancel t]"] exI[of _ "[HookRaises t]"]
    by (fastforce split: lpc.splits)
qed (use assms in \<open>auto split: if_splits intro!: exI[of _ "[]"]\<close>)

lemma lreachable_renamed: "lreachable n s \<Longrightarrow> reachable (as_sys s)"
proof (induction rule: lreachable.induct)
  case (lnext s e s')
  then show ?case using lstep_renamed run_reachable by blast
qed (simp add: reachable.start)

lemma orderly_renamed: "orderly_reachable n s \<Longrightarrow> reachable_promptly (as_sys s)"
proof (induction rule: orderly_reachable.induct)
  case (orderly_next s e s')
  then show ?case using lstep_renamed run_prompt_reachable by blast
qed (simp add: reachable_promptly.start_prompt)

lemma orderly_lreachable: "orderly_reachable n s \<Longrightarrow> lreachable n s"
  by (induction rule: orderly_reachable.induct) (auto intro: lreachable.intros)

lemma lrun_reachable: "lreachable n s \<Longrightarrow> lrun es s = Some s' \<Longrightarrow> lreachable n s'"
  by (induction es arbitrary: s) (auto split: option.splits intro: lnext)

section \<open>Invariant of orderly schedules\<close>

text \<open>The last run, the only one that may be alive; a \<^verbatim>\<open>close()\<close> that has been scheduled or waits.\<close>

definition live :: "lsys \<Rightarrow> bool" where
  "live s \<longleftrightarrow> runs s \<noteq> [] \<and> stage (last (runs s)) \<noteq> Gone"

definition close_coming :: "lsys \<Rightarrow> bool" where
  "close_coming s \<longleftrightarrow> 0 < scheduled s \<or> (\<exists>t r. callers s t = LWaiting Close OPEN r)"

definition hooks_current :: "lsys \<Rightarrow> bool" where
  "hooks_current s \<longleftrightarrow>
     (\<forall>t b. callers s t = Starts b \<or> callers s t = AwaitsExit b \<longrightarrow> Suc b = length (runs s))"

definition runs_inv :: "listener_state \<Rightarrow> body_run list \<Rightarrow> nat option \<Rightarrow> nat option \<Rightarrow> bool" where
  "runs_inv st rs sc ex \<longleftrightarrow>
     (\<forall>r \<in> set (butlast rs). stage r = Gone) \<and>
     ex = (if rs = [] then None else Some (length rs - 1)) \<and>
     (rs \<noteq> [] \<longrightarrow> exit_event (last rs) = (stage (last rs) = Gone)) \<and>
     (if rs \<noteq> [] \<and> stage (last rs) \<noteq> Gone
      then st \<noteq> CLOSED \<and> scope_cancelled (last rs) = (st = CLOSING) \<and>
        sc = (if st = CLOSING then None else Some (length rs - 1)) \<and>
        (stage (last rs) = Launching \<longrightarrow> st = PREPARING) \<and>
        (announced (last rs) = (stage (last rs) = Serving))
      else sc = None)"

definition linv :: "lsys \<Rightarrow> bool" where
  "linv s \<longleftrightarrow>
     runs_inv (lstate (lsn s)) (runs s) (cur_scope s) (cur_exited s) \<and> hooks_current s \<and>
     (\<not> live s \<and> (lstate (lsn s) = OPEN \<or>
        lstate (lsn s) = PREPARING \<and> runs s \<noteq> [] \<and> announced (last (runs s))) \<longrightarrow> close_coming s)"

lemma lrelease1_simps [simp]:
  "lrelease1 l l' p = Starts b \<longleftrightarrow> p = Starts b" "lrelease1 l l' p = AwaitsExit b \<longleftrightarrow> p = AwaitsExit b"
  by (cases p; simp)+

lemma lrelease1_waits: "(\<exists>r. lrelease1 l l' p = LWaiting k st r) \<longleftrightarrow> (\<exists>r. p = LWaiting k st r)"
  by (cases p) auto

lemma fields_pieces [simp]:
  "runs (lmove t p s) = runs s" "cur_scope (lmove t p s) = cur_scope s" "cur_exited (lmove t p s) = cur_exited s"
  "scheduled (lmove t p s) = scheduled s" "with_nursery (lmove t p s) = with_nursery s"
  "runs (lchange st s) = runs s" "cur_scope (lchange st s) = cur_scope s" "cur_exited (lchange st s) = cur_exited s"
  "scheduled (lchange st s) = scheduled s" "with_nursery (lchange st s) = with_nursery s"
  "scheduled (launch s) = scheduled s" "scheduled (cancel_current s) = scheduled s"
  "cur_exited (cancel_current s) = cur_exited s" "length (runs (cancel_current s)) = length (runs s)"
  by (simp_all add: lmove_def lchange_def launch_def cancel_current_def Let_def split: option.split)

lemma close_coming_lchange [simp]: "close_coming (lchange st s) = close_coming s"
proof -
  have "(\<exists>t r. callers (lchange st s) t = LWaiting Close OPEN r) = (\<exists>t r. callers s t = LWaiting Close OPEN r)"
    using lrelease1_waits by simp
  then show ?thesis by (simp only: close_coming_def fields_pieces)
qed

lemma close_coming_lmove:
  "close_coming s \<Longrightarrow> (\<And>r. callers s t \<noteq> LWaiting Close OPEN r) \<Longrightarrow> close_coming (lmove t p s)"
  unfolding close_coming_def by (metis callers_lmove fields_pieces(4))

lemma close_coming_pieces [simp]:
  "close_coming (launch s) = close_coming s" "close_coming (cancel_current s) = close_coming s"
  by (simp_all add: close_coming_def)

lemma live_pieces [simp]:
  "live (lmove t p s) = live s" "live (lchange st s) = live s"
  by (simp_all add: live_def)

lemma hooks_current_lchange [simp]: "hooks_current (lchange st s) = hooks_current s"
  by (simp add: hooks_current_def)

lemma hooks_current_lmove:
  "hooks_current s \<Longrightarrow> (\<And>b. p = Starts b \<or> p = AwaitsExit b \<Longrightarrow> Suc b = length (runs s)) \<Longrightarrow>
     hooks_current (lmove t p s)"
  by (auto simp: hooks_current_def callers_lmove)

lemma hooks_current_back [simp]:
  "hooks_current s \<Longrightarrow> hooks_current (lmove t (LDone k) s)" "hooks_current s \<Longrightarrow> hooks_current (lmove t (LFailed k) s)"
  by (auto intro: hooks_current_lmove)

text \<open>A caller that moves outside the hooks.\<close>

lemma linv_lmove:
  assumes "linv s" and "\<And>r. callers s t \<noteq> LWaiting Close OPEN r \<or> p = LWaiting Close OPEN r"
    and "\<And>b. p \<noteq> Starts b \<and> p \<noteq> AwaitsExit b"
  shows "linv (lmove t p s)"
proof -
  have "close_coming (lmove t p s)" if "close_coming s"
    using that assms(2) unfolding close_coming_def by (metis callers_lmove fields_pieces(4))
  then show ?thesis using assms(1,3) by (auto simp: linv_def intro!: hooks_current_lmove)
qed

lemma alive_last: "runs_inv st (runs s) sc ex \<Longrightarrow> alive s b \<Longrightarrow> live s \<and> Suc b = length (runs s)"
proof -
  assume inv: "runs_inv st (runs s) sc ex" and a: "alive s b"
  have "runs s ! b \<notin> set (butlast (runs s))" using inv a by (auto simp: runs_inv_def alive_def)
  moreover have "runs s ! b \<in> set (butlast (runs s))" if "b < length (runs s) - 1"
    using that by (metis length_butlast nth_butlast nth_mem)
  ultimately have "b = length (runs s) - 1" "b < length (runs s)" using a by (force simp: alive_def)+
  then show ?thesis using a last_conv_nth[of "runs s"] by (cases "runs s = []") (auto simp: live_def alive_def)
qed

lemma linv_init: "linv (init_lsys n)"
  by (simp add: linv_def init_lsys_def runs_inv_def hooks_current_def live_def)

definition no_hook :: "lsys \<Rightarrow> bool" where
  "no_hook s \<longleftrightarrow> (\<forall>t b. callers s t \<noteq> Starts b \<and> callers s t \<noteq> AwaitsExit b)"

lemma runs_inv_Nil [simp]: "runs_inv st [] sc ex \<longleftrightarrow> ex = None \<and> sc = None"
  by (auto simp: runs_inv_def)

lemma runs_inv_snoc [simp]:
  "runs_inv st (old @ [r]) sc ex \<longleftrightarrow>
     (\<forall>x \<in> set old. stage x = Gone) \<and> ex = Some (length old) \<and> exit_event r = (stage r = Gone) \<and>
     (if stage r \<noteq> Gone
      then st \<noteq> CLOSED \<and> scope_cancelled r = (st = CLOSING) \<and> sc = (if st = CLOSING then None else Some (length old)) \<and>
        (stage r = Launching \<longrightarrow> st = PREPARING) \<and> announced r = (stage r = Serving)
      else sc = None)"
  by (simp add: runs_inv_def)

lemma linv_enter_open:
  assumes inv: "linv s" and closed: "lstate (lsn s) = CLOSED" and no: "no_hook s"
  shows "linv (enter Open t s)"
proof (cases "with_nursery s")
  case True
  have "\<forall>x \<in> set (runs s). stage x = Gone"
    using inv closed by (cases "runs s" rule: rev_cases) (auto simp: linv_def split: if_splits)
  then show ?thesis using True no
    by (simp add: enter_open_def Let_def linv_def live_def launch_def hooks_current_def callers_lmove no_hook_def)
next
  case False
  have "runs_inv CLOSED (runs s) (cur_scope s) (cur_exited s)" using inv closed by (simp add: linv_def)
  then show ?thesis using False no
    by (simp add: enter_open_def Let_def linv_def hooks_current_def callers_lmove no_hook_def)
qed

lemma linv_enter_close:
  assumes r: "runs_inv OPEN (runs s) (cur_scope s) (cur_exited s)" and no: "no_hook s"
  shows "linv (enter Close t s)"
proof (cases "runs s" rule: rev_cases)
  case Nil
  then show ?thesis using r no
    by (simp add: enter_close_def Let_def linv_def cancel_current_def hooks_current_def callers_lmove no_hook_def)
next
  case (snoc old x)
  then show ?thesis using r no
    by (cases "stage x = Gone")
      (simp_all add: enter_close_def Let_def linv_def cancel_current_def hooks_current_def callers_lmove no_hook_def)
qed

text \<open>The steps of the runs.\<close>

lemma linv_alive:
  assumes "linv s" and "alive s b"
  obtains old r where "runs s = old @ [r]" "b = length old" "stage r \<noteq> Gone" "cur_exited s = Some b"
proof -
  have i: "runs_inv (lstate (lsn s)) (runs s) (cur_scope s) (cur_exited s)" using assms(1) by (simp add: linv_def)
  have l: "live s" "Suc b = length (runs s)" using alive_last[OF i assms(2)] by simp_all
  then show thesis
    using that i by (cases "runs s" rule: rev_cases) (auto simp: live_def)
qed

lemma linv_end_run:
  assumes "linv s" and "alive s b" and "by_itself \<or> scope_cancelled (runs s ! b)"
  shows "linv (end_run b by_itself s)"
proof -
  obtain old r where r: "runs s = old @ [r]" "b = length old" "stage r \<noteq> Gone" "cur_exited s = Some b"
    by (rule linv_alive[OF assms(1,2)])
  show ?thesis using assms(1,3) r
    by (auto simp: linv_def end_run_def Let_def live_def hooks_current_def close_coming_def)
qed

lemma linv_reports:
  assumes "linv s" and "alive s b" and "stage (runs s ! b) = Launching"
  shows "linv (s\<lparr>runs := (runs s)[b := (runs s ! b)\<lparr>stage := Serving, announced := True\<rparr>]\<rparr>)"
proof -
  obtain old r where r: "runs s = old @ [r]" "b = length old" "stage r \<noteq> Gone" "cur_exited s = Some b"
    by (rule linv_alive[OF assms(1,2)])
  show ?thesis using assms(1,3) r
    by (auto simp: linv_def live_def hooks_current_def)
qed

text \<open>The ends of the hooks.\<close>

lemma hook_of:
  assumes "linv s" and "callers s t = Starts b \<or> callers s t = AwaitsExit b"
  obtains old r where "runs s = old @ [r]" "b = length old"
proof -
  have "Suc b = length (runs s)" using assms by (auto simp: linv_def hooks_current_def)
  then show thesis using that by (cases "runs s" rule: rev_cases) auto
qed

lemma hook_state:
  assumes "hooks_match (as_sys s)"
  shows "callers s t = Starts b \<Longrightarrow> lstate (lsn s) = PREPARING"
    and "callers s t = AwaitsExit b \<Longrightarrow> lstate (lsn s) = CLOSING"
    and "lstate (lsn s) = CLOSED \<or> lstate (lsn s) = OPEN \<Longrightarrow> no_hook s"
proof -
  have m: "conn_state (link (as_sys s)) = via k" if "pcs (as_sys s) t = InHook k" for t k
    using assms that unfolding hooks_match_def by blast
  show 1: "callers s t = Starts b \<Longrightarrow> lstate (lsn s) = PREPARING" for t b using m[of t Open] by simp
  show 2: "callers s t = AwaitsExit b \<Longrightarrow> lstate (lsn s) = CLOSING" for t b using m[of t Close] by simp
  show "no_hook s" if "lstate (lsn s) = CLOSED \<or> lstate (lsn s) = OPEN"
    unfolding no_hook_def using that 1 2 by (metis listener_state.distinct(1,5,7,11))
qed

lemma linv_start_ends:
  assumes "linv s" and "hooks_match (as_sys s)" and "lstep (StartEnds t) s = Some s'"
  shows "linv s'"
proof -
  obtain b where b: "callers s t = Starts b" using assms(3) by (auto split: lpc.splits)
  obtain old r where r: "runs s = old @ [r]" "b = length old" by (rule hook_of[OF assms(1)]) (use b in auto)
  show ?thesis using assms(1,3) b r hook_state(1)[OF assms(2) b]
    by (cases "announced r"; cases "stage r")
      (auto simp: linv_def live_def intro!: close_coming_lmove split: if_splits)
qed

lemma linv_exit_seen:
  assumes "linv s" and "hooks_match (as_sys s)" and "lstep (ExitSeen t) s = Some s'"
  shows "linv s'"
proof -
  obtain b where b: "callers s t = AwaitsExit b" using assms(3) by (auto split: lpc.splits)
  obtain old r where r: "runs s = old @ [r]" "b = length old" by (rule hook_of[OF assms(1)]) (use b in auto)
  show ?thesis using assms(1,3) b r hook_state(2)[OF assms(2) b]
    by (auto simp: linv_def live_def split: if_splits)
qed

lemma linv_begin_lcall:
  assumes "linv s" and "hooks_match (as_sys s)" and "\<not> lin_call (callers s t)"
  shows "linv (begin_lcall k t s)"
proof -
  have w: "callers s t \<noteq> LWaiting Close OPEN r" for r using assms(3) by auto
  show ?thesis
    using linv_lmove[OF assms(1)] w linv_enter_open[OF assms(1)] linv_enter_close assms(1)[unfolded linv_def]
      hook_state(3)[OF assms(2)]
    by (cases k; cases "lstate (lsn s)") (simp_all add: begin_lcall_def lwait_def)
qed

text \<open>A scheduled \<^verbatim>\<open>close()\<close> that begins either closes the listener, or waits for it, or is not needed.\<close>

lemma linv_scheduled:
  assumes "linv s" and "hooks_match (as_sys s)" and "\<not> lin_call (callers s t)"
  shows "linv (begin_lcall Close t (s\<lparr>scheduled := n\<rparr>))"
proof (cases "lstate (lsn s) = OPEN \<or> lstate (lsn s) = PREPARING")
  case False
  then have "linv (s\<lparr>scheduled := n\<rparr>)" using assms(1) by (auto simp: linv_def hooks_current_def)
  then show ?thesis using assms(2,3) by (intro linv_begin_lcall) simp_all
next
  case True
  then show ?thesis
  proof
    assume o: "lstate (lsn s) = OPEN"
    have "no_hook (s\<lparr>scheduled := n\<rparr>)" using hook_state(3)[OF assms(2)] o by (simp add: no_hook_def)
    then show ?thesis using o assms(1) linv_enter_close[of "s\<lparr>scheduled := n\<rparr>" t]
      by (simp add: begin_lcall_def linv_def)
  next
    assume p: "lstate (lsn s) = PREPARING"
    have "close_coming (lwait Close OPEN t (s\<lparr>scheduled := n\<rparr>))"
      unfolding close_coming_def lwait_def by (metis callers_lmove)
    then show ?thesis using p assms(1)
      by (auto simp: begin_lcall_def linv_def live_def hooks_current_def lwait_def callers_lmove)
  qed
qed

lemma linv_after_lwait:
  assumes "linv s" and "hooks_match (as_sys s)" and w: "callers s t = LWaiting k st r"
    and "st = goal k \<or> lstate (lsn s) = st" and "waits_wf (as_sys s)"
  shows "linv (after_lwait k st t s)"
proof (cases "st = goal k")
  case True
  then have "callers s t \<noteq> LWaiting Close OPEN r'" for r' using w by auto
  then show ?thesis using True linv_lmove[OF assms(1)] by (simp add: after_lwait_def)
next
  case False
  have "as_state st = good k \<or> as_state st = bad k"
    using assms(5) w unfolding waits_wf_def by (metis as_sys_simps(2) as_pc.simps(2))
  then have "as_state st = bad k" using False by (metis as_goal as_state_inject)
  then show ?thesis
    using False assms(1,4) hook_state(3)[OF assms(2)] linv_enter_open[OF assms(1)] linv_enter_close
    by (cases k) (auto simp: after_lwait_def linv_def)
qed

lemma linv_step:
  assumes "linv s" and "reachable_promptly (as_sys s)" and "lprompt e s" and "gentle e s" and "lstep e s = Some s'"
  shows "linv s'"
proof -
  have m: "hooks_match (as_sys s)" and wf: "waits_wf (as_sys s)"
    using reachable_promptly_inv[OF assms(2)] reachable_inv[of "as_sys s"] by (simp_all add: tasks_inv_def)
  show ?thesis
  proof (cases e)
    case (LCall k t)
    then show ?thesis using assms(5) linv_begin_lcall[OF assms(1) m] by (auto split: if_splits)
  next
    case (ScheduledClose t)
    then show ?thesis using assms(5) linv_scheduled[OF assms(1) m] by (auto split: if_splits)
  next
    case (LResume t)
    then obtain k st where w: "callers s t = LWaiting k st True" and s': "s' = after_lwait k st t s"
      using assms(5) by (auto split: lpc.splits bool.splits)
    then show ?thesis using LResume assms(3) linv_after_lwait[OF assms(1) m w _ wf] by simp
  next
    case (Reports b)
    then show ?thesis using assms(5) linv_reports[OF assms(1)] by (auto split: if_splits)
  next
    case (BodyEnds b)
    then show ?thesis using assms(5) linv_end_run[OF assms(1)] by (auto split: if_splits)
  next
    case (BodyCancelled b)
    then show ?thesis using assms(5) linv_end_run[OF assms(1)] by (auto split: if_splits)
  next
    case (LCancel t)
    then obtain k st r where w: "callers s t = LWaiting k st r" "k = Open \<or> st = CLOSED"
      and s': "s' = lmove t (LFailed k) s"
      using assms(4,5) by (auto split: lpc.splits)
    then have "callers s t \<noteq> LWaiting Close OPEN r'" for r' by auto
    then show ?thesis using s' linv_lmove[OF assms(1)] by simp
  next
    case (StartEnds t)
    then show ?thesis using linv_start_ends[OF assms(1) m] assms(5) by simp
  next
    case (ExitSeen t)
    then show ?thesis using linv_exit_seen[OF assms(1) m] assms(5) by simp
  next
    case (BodyAborted b)
    then show ?thesis using assms(4) by simp
  qed
qed

lemma orderly_linv: "orderly_reachable n s \<Longrightarrow> linv s"
proof (induction rule: orderly_reachable.induct)
  case (orderly_next s e s')
  then show ?case using linv_step orderly_renamed by blast
qed (rule linv_init)

lemma lsn_flags: "lreachable n s \<Longrightarrow> lflags_ok (lsn s)"
  using reachable_inv[OF lreachable_renamed] by (simp add: tasks_inv_def lflags_as_connection)

lemma orderly_facts:
  assumes "orderly_reachable n s"
  shows "linv s" and "runs_inv (lstate (lsn s)) (runs s) (cur_scope s) (cur_exited s)"
    and "hooks_match (as_sys s)" and "no_lost_wakeup (as_sys s)"
  using orderly_linv[OF assms] reachable_promptly_inv[OF orderly_renamed[OF assms]]
    reachable_inv[of "as_sys s"] by (simp_all add: linv_def tasks_inv_def)

lemma orderly_closed:
  assumes "orderly_reachable n s" and "lstate (lsn s) = CLOSED"
  shows "\<not> alive s b"
proof
  assume "alive s b"
  then obtain old r where "runs s = old @ [r]" "stage r \<noteq> Gone" by (rule linv_alive[OF orderly_facts(1)[OF assms(1)]])
  then show False using orderly_facts(2)[OF assms(1)] assms(2) by simp
qed

lemma orderly_open:
  assumes "orderly_reachable n s" and o: "lstate (lsn s) = OPEN"
  shows "(\<exists>d. alive s d \<and> stage (runs s ! d) = Serving \<and> \<not> scope_cancelled (runs s ! d) \<and> cur_scope s = Some d) \<or>
    0 < scheduled s \<or> (\<exists>t. callers s t = LWaiting Close OPEN True)"
proof (cases "live s")
  note r = orderly_facts(2)[OF assms(1)]
  case True
  then obtain old x where x: "runs s = old @ [x]" by (cases "runs s" rule: rev_cases) (auto simp: live_def)
  then have "stage x \<noteq> Gone" using True by (simp add: live_def)
  moreover have "stage x \<noteq> Launching" "\<not> scope_cancelled x" "cur_scope s = Some (length old)"
    using r o x calculation by auto
  moreover have "stage x = Serving" using calculation by (cases "stage x") simp_all
  ultimately show ?thesis using x by (intro disjI1 exI[of _ "length old"]) (simp add: alive_def)
next
  case False
  then have "close_coming s" using orderly_facts(1)[OF assms(1)] o by (simp add: linv_def)
  moreover have "callers s u \<noteq> LWaiting Close OPEN False" for u
  proof
    assume "callers s u = LWaiting Close OPEN False"
    then have "pcs (as_sys s) u = Waiting Close CONNECTED False" by simp
    then show False using orderly_facts(4)[OF assms(1)] o unfolding no_lost_wakeup_def by fastforce
  qed
  ultimately show ?thesis unfolding close_coming_def by (metis (full_types))
qed

lemma orderly_close_finishes:
  assumes "orderly_reachable n s" and w: "callers s t = AwaitsExit b"
  shows "\<exists>es s'. lrun es s = Some s' \<and> callers s' t = LDone Close \<and> lstate (lsn s') = CLOSED"
proof -
  note r = orderly_facts(2)[OF assms(1)]
  obtain old x where x: "runs s = old @ [x]" "b = length old"
    by (rule hook_of[OF orderly_facts(1)[OF assms(1)]]) (use w in auto)
  show ?thesis
  proof (cases "stage x = Gone")
    case True
    then show ?thesis using r x w
      by (intro exI[of _ "[ExitSeen t]"]) (simp add: callers_lmove)
  next
    case False
    then show ?thesis using r x w hook_state(2)[OF orderly_facts(3)[OF assms(1)] w]
      by (intro exI[of _ "[BodyCancelled b, ExitSeen t]"])
        (simp add: alive_def callers_lmove end_run_def Let_def)
  qed
qed

section \<open>Properties of the concurrent listener\<close>

text \<open>
  C12. The concurrent Trio listener refines the interleaved life cycle of \<open>Connection_Tasks\<close>: whatever calls,
  task outcomes and cancellations there are, each of its steps is a run of that system under the renaming,
  so that every state it reaches is a state that system reaches.
\<close>

theorem concurrent_listener_refines:
  assumes "lreachable n s" and "lstep e s = Some s'"
  shows "(\<exists>es. run es (as_sys s) = Some (as_sys s')) \<and> reachable (as_sys s')"
  using lstep_renamed[OF assms(2)] lreachable_renamed[OF lnext[OF assms]] by blast

text \<open>
  C10. On orderly schedules with any number of callers in any state: at most one background task runs; a closed
  listener has none; an open one has a task that reported \<^verbatim>\<open>started()\<close>, that is not cancelled and whose scope the
  listener holds, or a \<^verbatim>\<open>close()\<close> is scheduled or released; and a \<^verbatim>\<open>close()\<close> in its hook can finish.
\<close>

theorem concurrent_listener_follows_task:
  assumes "orderly_reachable n s"
  shows "(alive s b \<and> alive s c \<longrightarrow> b = c) \<and>
    (lstate (lsn s) = CLOSED \<longrightarrow> \<not> alive s b) \<and>
    (lstate (lsn s) = OPEN \<longrightarrow>
       (\<exists>d. alive s d \<and> stage (runs s ! d) = Serving \<and> \<not> scope_cancelled (runs s ! d) \<and> cur_scope s = Some d) \<or>
       0 < scheduled s \<or> (\<exists>t. callers s t = LWaiting Close OPEN True)) \<and>
    (callers s t = AwaitsExit b \<longrightarrow>
       (\<exists>es s'. lrun es s = Some s' \<and> callers s' t = LDone Close \<and> lstate (lsn s') = CLOSED))"
proof -
  have "b = c" if "alive s b" "alive s c"
    using alive_last[OF orderly_facts(2)[OF assms]] that by (metis nat.inject)
  then show ?thesis
    using orderly_closed[OF assms] orderly_open[OF assms] orderly_close_finishes[OF assms] by blast
qed

text \<open>A run whose scope the listener does not hold is never cancelled by it.\<close>

lemma nth_update_at: "b < length xs \<Longrightarrow> xs[c := x] ! b = (if c = b then x else xs ! b)"
  by (cases "c < length xs") (simp_all add: nth_list_update)

lemma enter_keeps_uncancelled:
  assumes "b < length (runs s)" and "cur_scope s \<noteq> Some b" and "scope_cancelled (runs s ! b) = c"
  shows "b < length (runs (enter k t s)) \<and> cur_scope (enter k t s) \<noteq> Some b \<and> scope_cancelled (runs (enter k t s) ! b) = c"
  using assms
  by (cases k) (auto simp: enter_open_def enter_close_def Let_def launch_def cancel_current_def nth_append
      nth_list_update split: option.split)

definition out_of_reach :: "nat \<Rightarrow> lsys \<Rightarrow> bool" where
  "out_of_reach b s \<longleftrightarrow> b < length (runs s) \<and> cur_scope s \<noteq> Some b \<and> \<not> scope_cancelled (runs s ! b)"

lemma out_of_reach_pieces [simp]:
  "out_of_reach b (lmove t p s) = out_of_reach b s" "out_of_reach b (lchange st s) = out_of_reach b s"
  "out_of_reach b (s\<lparr>scheduled := n\<rparr>) = out_of_reach b s"
  by (simp_all add: out_of_reach_def)

lemma out_of_reach_enter: "out_of_reach b s \<Longrightarrow> out_of_reach b (enter k t s)"
  using enter_keeps_uncancelled[of b s False k t] by (simp add: out_of_reach_def)

lemma out_of_reach_calls:
  "out_of_reach b s \<Longrightarrow> out_of_reach b (begin_lcall k t s)" "out_of_reach b s \<Longrightarrow> out_of_reach b (after_lwait k st t s)"
  using out_of_reach_enter by (auto simp: begin_lcall_eq after_lwait_def lwait_def Let_def)

lemma out_of_reach_end_run: "out_of_reach b s \<Longrightarrow> out_of_reach b (end_run c x s)"
  by (auto simp: out_of_reach_def end_run_def Let_def nth_update_at split: option.split)

lemma out_of_reach_runs:
  "out_of_reach b s \<Longrightarrow> out_of_reach b (abort_run c s)"
  "out_of_reach b s \<Longrightarrow> out_of_reach b (s\<lparr>runs := (runs s)[c := (runs s ! c)\<lparr>stage := p, announced := a\<rparr>]\<rparr>)"
  by (auto simp: out_of_reach_def abort_run_def nth_update_at)

lemma out_of_reach_step: "lstep e s = Some s' \<Longrightarrow> out_of_reach b s \<Longrightarrow> out_of_reach b s'"
  by (cases e)
    (auto simp: out_of_reach_calls out_of_reach_end_run out_of_reach_runs split: if_splits lpc.splits bool.splits)

lemma out_of_reach_run: "lrun es s = Some s' \<Longrightarrow> out_of_reach b s \<Longrightarrow> out_of_reach b s'"
  by (induction es arbitrary: s) (auto split: option.splits dest: out_of_reach_step)

lemmas leval_simps = init_lsys_def begin_lcall_def enter_open_def enter_close_def lwait_def after_lwait_def lmove_def
  lchange_def launch_def cancel_current_def end_run_def alive_def init_listener_def Let_def set_lstate_def note_open_def
  note_closed_def clear_open_def clear_closed_def lsend_def

text \<open>
  C13. Two calls of \<^verbatim>\<open>open()\<close> that wait for the listener to be closed both start a task, since neither looks at the
  state again. When the second task fails, its address being taken by the first, the listener ends up \<open>CLOSED\<close>
  while the first task serves, and whatever is called from then on, nothing cancels that task.
\<close>

theorem closed_listener_serves:
  "\<exists>s. lrun [LCall Open 2, Reports 0, StartEnds 2, LCall Close 3, LCall Open 4, LCall Open 5, BodyCancelled 0,
         ExitSeen 3, LResume 4, LResume 5, Reports 1, StartEnds 4, BodyEnds 2, StartEnds 5, ScheduledClose 6]
       (init_lsys True) = Some s \<and>
     lstate (lsn s) = CLOSED \<and> stage (runs s ! 1) = Serving \<and>
     {s'. \<exists>es. lrun es s = Some s'} \<subseteq> {s'. \<not> scope_cancelled (runs s' ! 1)}"
proof -
  define s where "s = the (lrun [LCall Open 2, Reports 0, StartEnds 2, LCall Close 3, LCall Open 4, LCall Open 5,
    BodyCancelled 0, ExitSeen 3, LResume 4, LResume 5, Reports 1, StartEnds 4, BodyEnds 2, StartEnds 5,
    ScheduledClose 6] (init_lsys True))"
  have s: "lrun [LCall Open 2, Reports 0, StartEnds 2, LCall Close 3, LCall Open 4, LCall Open 5, BodyCancelled 0,
         ExitSeen 3, LResume 4, LResume 5, Reports 1, StartEnds 4, BodyEnds 2, StartEnds 5, ScheduledClose 6]
       (init_lsys True) = Some s" and f: "lstate (lsn s) = CLOSED" "stage (runs s ! 1) = Serving" "out_of_reach 1 s"
    unfolding s_def by (simp_all add: leval_simps out_of_reach_def)
  have "\<not> scope_cancelled (runs s' ! 1)" if "lrun es s = Some s'" for es s'
    using out_of_reach_run[OF that f(3)] by (simp add: out_of_reach_def)
  then show ?thesis using s f(1,2) by blast
qed

text \<open>A \<^verbatim>\<open>close()\<close> that waits for an event which no run is left to set, with every other call behind it.\<close>

definition close_stuck :: "nat \<Rightarrow> nat \<Rightarrow> lsys \<Rightarrow> bool" where
  "close_stuck t b s \<longleftrightarrow>
     lflags_ok (lsn s) \<and> lstate (lsn s) = CLOSING \<and> callers s t = AwaitsExit b \<and> b < length (runs s) \<and>
     \<not> exit_event (runs s ! b) \<and> (\<forall>c. \<not> alive s c) \<and>
     (\<forall>u. u \<noteq> t \<longrightarrow> (\<forall>c. callers s u \<noteq> Starts c \<and> callers s u \<noteq> AwaitsExit c) \<and> (\<forall>k st. callers s u \<noteq> LWaiting k st True))"

lemma close_stuck_move:
  assumes "close_stuck t b s" and "u \<noteq> t" and "p = LFailed k \<or> p = LWaiting k st False"
  shows "close_stuck t b (lmove u p s)"
  using assms by (auto simp: close_stuck_def callers_lmove alive_def)

lemma close_stuck_call:
  assumes "close_stuck t b s" and "u \<noteq> t"
  shows "close_stuck t b (begin_lcall k u s)"
  using assms close_stuck_move[OF assms]
  by (cases k) (auto simp: begin_lcall_def lwait_def close_stuck_def lflags_ok_def)

lemma close_stuck_step:
  assumes "lstep e s = Some s'" and "close_stuck t b s" and "e \<noteq> LCancel t"
  shows "close_stuck t b s'"
proof (cases e)
  case (LCall k u)
  then have "u \<noteq> t" "s' = begin_lcall k u s" using assms(1,2) by (auto simp: close_stuck_def split: if_splits)
  then show ?thesis using close_stuck_call[OF assms(2)] by simp
next
  case (ScheduledClose u)
  then have "u \<noteq> t" "s' = begin_lcall Close u (s\<lparr>scheduled := scheduled s - 1\<rparr>)"
    using assms(1,2) by (auto simp: close_stuck_def split: if_splits)
  moreover have "close_stuck t b (s\<lparr>scheduled := n\<rparr>)" for n using assms(2) by (simp add: close_stuck_def alive_def)
  ultimately show ?thesis using close_stuck_call by simp
next
  case (LResume u)
  then obtain k st where "callers s u = LWaiting k st True" using assms(1) by (auto split: lpc.splits bool.splits)
  then show ?thesis using assms(2) by (cases "u = t") (auto simp: close_stuck_def)
next
  case (StartEnds u)
  then obtain c where "callers s u = Starts c" using assms(1) by (auto split: lpc.splits)
  then show ?thesis using assms(2) by (cases "u = t") (auto simp: close_stuck_def)
next
  case (ExitSeen u)
  then obtain c where "callers s u = AwaitsExit c" "exit_event (runs s ! c)"
    using assms(1) by (auto split: lpc.splits if_splits)
  then show ?thesis using assms(2) by (cases "u = t") (auto simp: close_stuck_def)
next
  case (LCancel u)
  then have "u \<noteq> t" using assms(3) by auto
  then obtain k where "s' = lmove u (LFailed k) s"
    using LCancel assms(1,2) by (auto simp: close_stuck_def split: lpc.splits)
  then show ?thesis using close_stuck_move[OF assms(2) \<open>u \<noteq> t\<close>] by blast
qed (use assms(1,2) in \<open>auto simp: close_stuck_def split: if_splits\<close>)

lemma close_stuck_run:
  "lrun es s = Some s' \<Longrightarrow> close_stuck t b s \<Longrightarrow> LCancel t \<notin> set es \<Longrightarrow> close_stuck t b s'"
proof (induction es arbitrary: s)
  case (Cons e es)
  then obtain m where "lstep e s = Some m" "lrun es m = Some s'" by (auto split: option.splits)
  then show ?case using Cons.IH[of m] Cons.prems close_stuck_step[of e s m t b] by auto
qed simp

text \<open>
  C14. A task cancelled with its nursery skips the lines after the \<^verbatim>\<open>with\<close> block: the listener stays \<open>OPEN\<close>
  without a task, its event is never set, and the next \<^verbatim>\<open>close()\<close> waits for it in \<open>CLOSING\<close> until it is
  cancelled itself, whatever else happens.
\<close>

theorem cancelled_nursery_hangs_close:
  assumes "orderly_reachable n s" and "lstate (lsn s) = OPEN" and "alive s b"
    and "\<And>u. \<not> lin_call (callers s u)" and "lstep (BodyAborted b) s = Some s1" and "lstep (LCall Close t) s1 = Some s2"
    and "lrun es s2 = Some z" and "LCancel t \<notin> set es"
  shows "lstate (lsn s1) = OPEN \<and> (\<forall>c. \<not> alive s1 c) \<and>
    lstate (lsn z) = CLOSING \<and> callers z t = AwaitsExit b"
proof -
  note inv = orderly_facts(1,2)[OF assms(1)]
  obtain old r where r: "runs s = old @ [r]" "b = length old" "stage r \<noteq> Gone" "cur_exited s = Some b"
    by (rule linv_alive[OF inv(1) assms(3)])
  have s1: "s1 = s\<lparr>runs := old @ [r\<lparr>stage := Gone\<rparr>]\<rparr>"
    using assms(5) r by (auto simp: abort_run_def split: if_splits)
  have dead: "\<not> alive s1 c" for c
    using inv(2) r s1 by (auto simp: alive_def nth_append less_Suc_eq split: if_splits)
  have s2: "s2 = enter_close t s1"
    using assms(2,6) s1 by (auto simp: begin_lcall_def split: if_splits)
  have no: "callers s u \<noteq> Starts c" "callers s u \<noteq> AwaitsExit c" "callers s u \<noteq> LWaiting k st q" for u c k st q
    using assms(4)[of u] by auto
  have lr: "lrelease1 l l' (callers s u) = callers s u" for l l' u
    using assms(4)[of u] by (cases "callers s u") auto
  have "close_stuck t b s2"
    using dead lsn_flags[OF orderly_lreachable[OF assms(1)]] r inv(2) no lr assms(2)
    unfolding s2 s1 close_stuck_def
    by (auto simp: enter_close_def Let_def cancel_current_def callers_lmove alive_def nth_append split: option.split)
  then show ?thesis
    using close_stuck_run[OF assms(7) _ assms(8)] dead assms(2) s1 by (simp add: close_stuck_def)
qed

text \<open>
  A \<^verbatim>\<open>close()\<close> that is cancelled while it waits sets the listener back to \<open>OPEN\<close>, although it has cancelled the
  task and dropped the scope. When the task has ended, the listener is \<open>OPEN\<close> without a task, and no \<^verbatim>\<open>close()\<close> is
  scheduled that was not scheduled before.
\<close>

theorem cancelled_close_leaves_open:
  assumes "orderly_reachable n s" and "callers s t = AwaitsExit b" and "alive s b" and "lstep (LCancel t) s = Some s1"
  shows "\<exists>s2. lstep (BodyCancelled b) s1 = Some s2 \<and> lstate (lsn s2) = OPEN \<and> (\<forall>c. \<not> alive s2 c) \<and>
    cur_scope s2 = None \<and> scheduled s2 = scheduled s"
proof -
  note inv = orderly_facts(1,2)[OF assms(1)]
  have closing: "lstate (lsn s) = CLOSING" by (rule hook_state(2)[OF orderly_facts(3)[OF assms(1)] assms(2)])
  obtain old r where r: "runs s = old @ [r]" "b = length old" "stage r \<noteq> Gone" "cur_exited s = Some b"
    by (rule linv_alive[OF inv(1) assms(3)])
  have s1: "s1 = lmove t (LFailed Close) (lchange OPEN s)" using assms(2,4) by simp
  have a: "alive s1 b" "scope_cancelled (runs s1 ! b)" using r inv(2) closing by (simp_all add: s1 alive_def)
  have "\<not> alive (end_run b False s1) c" for c
    using inv(2) r by (auto simp: s1 end_run_def Let_def alive_def nth_append less_Suc_eq split: if_splits)
  then show ?thesis using a by (simp add: s1 end_run_def Let_def)
qed

section \<open>Witnesses\<close>

lemma lstep_orderly:
  "orderly_reachable n s \<Longrightarrow> lstep e s = Some s' \<Longrightarrow> lprompt e s \<and> gentle e s \<Longrightarrow> orderly_reachable n s'"
  by (blast intro: orderly_next)

text \<open>A listener that is open after a call of task 2, and one that task 3 is closing.\<close>

definition lsys_opening :: lsys where
  "lsys_opening = enter_open 2 (init_lsys True)"

definition lsys_open :: lsys where
  "lsys_open = the (lrun [Reports 0, StartEnds 2] lsys_opening)"

definition lsys_closing :: lsys where
  "lsys_closing = enter_close 3 lsys_open"

lemma lsys_open_simps:
  "lstate (lsn lsys_open) = OPEN" "alive lsys_open 0" "callers lsys_open t = (if t = 2 then LDone Open else LIdle)"
  "cur_exited lsys_open = Some 0" "cur_scope lsys_open = Some 0"
  by (simp_all add: lsys_open_def lsys_opening_def leval_simps)

lemma lsys_opening_reachable: "orderly_reachable True lsys_opening"
  by (rule lstep_orderly[OF orderly_start, of "LCall Open 2"])
    (simp_all add: lsys_opening_def begin_lcall_def, simp_all add: init_lsys_def)

lemma lsys_open_reachable: "orderly_reachable True lsys_open"
proof -
  obtain m where m: "lstep (Reports 0) lsys_opening = Some m" "lstep (StartEnds 2) m = Some lsys_open"
    by (simp add: lsys_open_def lsys_opening_def leval_simps)
  show ?thesis by (rule lstep_orderly[OF lstep_orderly[OF lsys_opening_reachable m(1)] m(2)]) simp_all
qed

lemma lsys_closing_reachable: "orderly_reachable True lsys_closing"
  by (rule lstep_orderly[OF lsys_open_reachable, of "LCall Close 3"])
    (simp_all add: lsys_closing_def begin_lcall_def lsys_open_simps)

lemma lsys_closing_simps:
  "lstate (lsn lsys_closing) = CLOSING" "alive lsys_closing 0" "callers lsys_closing 3 = AwaitsExit 0"
  using lsys_open_simps
  by (simp_all add: lsys_closing_def enter_close_def Let_def callers_lmove cancel_current_def alive_def)

theorem concurrent_listener_refines_witness:
  "\<exists>s'. lstep (BodyEnds 0) lsys_closing = Some s' \<and> reachable (as_sys s')"
proof -
  have "lstep (BodyEnds 0) lsys_closing = Some (end_run 0 True lsys_closing)" by (simp add: lsys_closing_simps)
  with concurrent_listener_refines[OF orderly_lreachable[OF lsys_closing_reachable] this] show ?thesis by blast
qed

theorem concurrent_listener_follows_task_witness:
  "lstate (lsn lsys_closing) = CLOSING \<and>
   (\<exists>es s'. lrun es lsys_closing = Some s' \<and> callers s' 3 = LDone Close \<and> lstate (lsn s') = CLOSED)"
  using concurrent_listener_follows_task[OF lsys_closing_reachable, of 0 0 3] lsys_closing_simps by blast

theorem cancelled_nursery_hangs_close_witness:
  "\<exists>s1 s2. lstep (BodyAborted 0) lsys_open = Some s1 \<and> lstep (LCall Close 3) s1 = Some s2 \<and>
     lstate (lsn s1) = OPEN \<and> lstate (lsn s2) = CLOSING \<and> callers s2 3 = AwaitsExit 0"
proof -
  define s1 where "s1 = abort_run 0 lsys_open"
  have s1: "lstep (BodyAborted 0) lsys_open = Some s1" by (simp add: s1_def lsys_open_simps)
  moreover obtain s2 where s2: "lstep (LCall Close 3) s1 = Some s2" by (simp add: s1_def lsys_open_simps)
  moreover have "\<not> lin_call (callers lsys_open u)" for u by (simp add: lsys_open_simps)
  ultimately show ?thesis
    using cancelled_nursery_hangs_close[OF lsys_open_reachable lsys_open_simps(1,2) _ s1 s2, of "[]" s2] by simp
qed

theorem cancelled_close_leaves_open_witness:
  "\<exists>s1 s2. lstep (LCancel 3) lsys_closing = Some s1 \<and> lstep (BodyCancelled 0) s1 = Some s2 \<and>
     lstate (lsn s2) = OPEN \<and> \<not> alive s2 0"
proof -
  obtain s1 where "lstep (LCancel 3) lsys_closing = Some s1" by (simp add: lsys_closing_simps)
  with cancelled_close_leaves_open[OF lsys_closing_reachable lsys_closing_simps(3,2) this] show ?thesis by blast
qed

end
