(* ===== verification/Hexdump.thy ===== *)
theory Hexdump
  imports Prelude
begin

text \<open>
  \<^verbatim>\<open>connections/utils/hexdump.py\<close>: dumping bytes as text and restoring them. Generators are lists;
  \<^verbatim>\<open>hexdump(data, "print")\<close> returns \<^verbatim>\<open>None\<close> after printing the lines, which the model returns.
  The Python built-ins the module uses on ASCII text (\<^verbatim>\<open>hexlify\<close>, \<^verbatim>\<open>upper\<close>, \<^verbatim>\<open>%08X\<close>, \<^verbatim>\<open>bytes.fromhex\<close>,
  slicing) are spelled out.
\<close>

section \<open>Built-ins\<close>

definition upper_digits :: string where
  "upper_digits = ''0123456789ABCDEF''"

definition lower_digits :: string where
  "lower_digits = ''0123456789abcdef''"

definition hexlify :: "bytes \<Rightarrow> string" where
  "hexlify bs = concat (map (\<lambda>b. [lower_digits ! (unat b div 16), lower_digits ! (unat b mod 16)]) bs)"

definition upper_char :: "char \<Rightarrow> char" where
  "upper_char c = (if 97 \<le> (of_char c :: nat) \<and> of_char c \<le> (122 :: nat)
                   then char_of ((of_char c :: nat) - 32) else c)"

definition upper :: "string \<Rightarrow> string" where
  "upper s = map upper_char s"

text \<open>\<^verbatim>\<open>"%X" % n\<close> and \<^verbatim>\<open>"%08X" % n\<close>.\<close>

fun hex_of :: "nat \<Rightarrow> string" where
  "hex_of n = (if n < 16 then [upper_digits ! n] else hex_of (n div 16) @ [upper_digits ! (n mod 16)])"

declare hex_of.simps [simp del]

definition hex08 :: "nat \<Rightarrow> string" where
  "hex08 n = (let s = hex_of n in replicate (8 - length s) CHR ''0'' @ s)"

text \<open>\<^verbatim>\<open>bytes.fromhex\<close>: pairs of hexadecimal digits, ASCII white space allowed between pairs.\<close>

definition hex_value :: "char \<Rightarrow> nat option" where
  "hex_value c = (let n = (of_char c :: nat) in
     if 48 \<le> n \<and> n \<le> 57 then Some (n - 48)
     else if 65 \<le> n \<and> n \<le> 70 then Some (n - 55)
     else if 97 \<le> n \<and> n \<le> 102 then Some (n - 87)
     else None)"

definition is_ascii_space :: "char \<Rightarrow> bool" where
  "is_ascii_space c \<longleftrightarrow> (let n = (of_char c :: nat) in (9 \<le> n \<and> n \<le> 13) \<or> n = 32)"

fun fromhex :: "string \<Rightarrow> exn + bytes" where
  "fromhex [] = Inr []"
| "fromhex (c # cs) =
     (if is_ascii_space c then fromhex cs
      else case cs of
             [] \<Rightarrow> Inl (ValueError ''non-hexadecimal number'')
           | d # ds \<Rightarrow>
               (case (hex_value c, hex_value d) of
                  (Some h, Some l) \<Rightarrow>
                    (case fromhex ds of Inl e \<Rightarrow> Inl e | Inr bs \<Rightarrow> Inr (of_nat (16 * h + l) # bs))
                | _ \<Rightarrow> Inl (ValueError ''non-hexadecimal number'')))"

section \<open>Chunking\<close>

definition chunks :: "'a list \<Rightarrow> nat \<Rightarrow> exn + 'a list list" where
  "chunks seq sz =
     (if sz = 0 then Inl ZeroDivisionError
      else let d = length seq div sz; m = length seq mod sz in
        Inr (map (\<lambda>i. py_slice (i * sz) ((i + 1) * sz) seq) [0..<d] @
             (if m \<noteq> 0 then [drop (d * sz) seq] else [])))"

text \<open>
  \<^verbatim>\<open>chunkread\<close> on a file-like object: \<open>rd\<close> is its \<^verbatim>\<open>read\<close> method, from the object's state and a
  size to the data and the new state. \<open>None\<close> is a file that never ends.
\<close>

partial_function (option) chunkread ::
  "('f \<Rightarrow> nat \<Rightarrow> 'a list \<times> 'f) \<Rightarrow> 'f \<Rightarrow> nat \<Rightarrow> 'a list list option" where
  "chunkread rd f sz =
     (case rd f sz of (c, f') \<Rightarrow>
        if c = [] then Some []
        else Option.bind (chunkread rd f' sz) (\<lambda>cs. Some (c # cs)))"

datatype 'f mixed = Binary bytes | FileLike "'f \<Rightarrow> nat \<Rightarrow> bytes \<times> 'f" 'f

definition genchunks :: "'f mixed \<Rightarrow> nat \<Rightarrow> (exn + bytes list) option" where
  "genchunks mixed sz =
     (case mixed of
        FileLike rd f \<Rightarrow> map_option Inr (chunkread rd f sz)
      | Binary bs \<Rightarrow> Some (chunks bs sz))"

section \<open>Dumping\<close>

definition dehex :: "string \<Rightarrow> exn + bytes" where
  "dehex hextext = fromhex hextext"

definition dump :: "bytes \<Rightarrow> nat \<Rightarrow> string \<Rightarrow> exn + string" where
  "dump binary sz sep =
     (case chunks (upper (hexlify binary)) sz of Inl e \<Rightarrow> Inl e | Inr cs \<Rightarrow> Inr (join sep cs))"

text \<open>One line of the dump: address \<open>addr * 16\<close>, two groups of eight bytes, the printable bytes.\<close>

definition printable :: "8 word \<Rightarrow> char" where
  "printable b = (if 0x20 \<le> b \<and> b \<le> 0x7E then char_of (unat b) else CHR ''.'')"

definition dump_line :: "nat \<Rightarrow> bytes \<Rightarrow> exn + string" where
  "dump_line addr d =
     (case dump d 2 '' '' of
        Inl e \<Rightarrow> Inl e
      | Inr dumpstr \<Rightarrow>
          (let pad = 2 + (if length d < 16 then 3 * (16 - length d) else 0)
                       + (if length d \<le> 8 then 1 else 0)
           in Inr (hex08 (addr * 16) @ '': '' @
                   take 24 dumpstr @
                   (if 8 < length d then '' '' @ drop 24 dumpstr else []) @
                   replicate pad CHR '' '' @
                   map printable d)))"

fun dump_lines :: "nat \<Rightarrow> bytes list \<Rightarrow> exn + string list" where
  "dump_lines addr [] = Inr []"
| "dump_lines addr (d # ds) =
     (case dump_line addr d of
        Inl e \<Rightarrow> Inl e
      | Inr line \<Rightarrow> (case dump_lines (Suc addr) ds of Inl e \<Rightarrow> Inl e | Inr ls \<Rightarrow> Inr (line # ls)))"

definition dumpgen :: "'f mixed \<Rightarrow> (exn + string list) option" where
  "dumpgen data =
     map_option (\<lambda>gen. case gen of Inl e \<Rightarrow> Inl e | Inr cs \<Rightarrow> dump_lines 0 cs) (genchunks data 16)"

datatype 'f dump_input = Text string | Data "'f mixed"

datatype dump_output = Lines "string list" | Single string

definition hexdump :: "'f dump_input \<Rightarrow> string \<Rightarrow> (exn + dump_output) option" where
  "hexdump data result =
     (case data of
        Text _ \<Rightarrow> Some (Inl (TypeError ''Abstract unicode data (expected bytes sequence)''))
      | Data d \<Rightarrow>
          if result = ''generator'' \<or> result = ''print'' then map_option (map_sum id Lines) (dumpgen d)
          else if result = ''return'' then map_option (map_sum id (\<lambda>ls. Single (join ''\<newline>'' ls))) (dumpgen d)
          else Some (Inl (ValueError ''Unknown value of `result` argument'')))"

section \<open>Restoring\<close>

text \<open>\<^verbatim>\<open>line.find(":")\<close>: the index of the first colon, -1 if there is none.\<close>

definition find_colon :: "string \<Rightarrow> int" where
  "find_colon s =
     (let h = takeWhile (\<lambda>c. c \<noteq> CHR '':'') s in if length h < length s then int (length h) else -1)"

definition strip_address :: "string \<Rightarrow> string" where
  "strip_address line =
     (let addrend = find_colon line in
      lstrip (if 0 < addrend \<and> addrend < 32 then drop (nat addrend + 1) line else line))"

definition hex_columns :: "string \<Rightarrow> exn + string" where
  "hex_columns line =
     (if length line \<le> 2 then Inl IndexError
      else if line ! 2 = CHR '' '' then
        (let sepstart = 23; sep = py_slice sepstart (sepstart + 3) line in
         Inr (if take 2 sep = ''  '' \<and> drop 2 sep \<noteq> '' '' then take 48 line
              else if drop 2 sep = '' '' then take sepstart line @ py_slice (sepstart + 3) 49 line
              else take 47 line))
      else Inr line)"

definition restore_line :: "string \<Rightarrow> exn + bytes" where
  "restore_line line =
     (case hex_columns (strip_address line) of Inl e \<Rightarrow> Inl e | Inr hexdata \<Rightarrow> dehex hexdata)"

fun restore_lines :: "bytes \<Rightarrow> string list \<Rightarrow> exn + bytes" where
  "restore_lines result [] = Inr result"
| "restore_lines result (line # ls) =
     (case restore_line line of Inl e \<Rightarrow> Inl e | Inr bs \<Rightarrow> restore_lines (result @ bs) ls)"

datatype restore_input = Dump string | NotText

definition restore :: "restore_input \<Rightarrow> exn + bytes" where
  "restore arg =
     (case arg of
        NotText \<Rightarrow> Inl (TypeError ''Invalid data for restore'')
      | Dump text \<Rightarrow> restore_lines [] (split_on (CHR ''\<newline>'') (strip text)))"

section \<open>Chunks\<close>

text \<open>The reference: take \<open>n\<close> elements at a time.\<close>

function chop :: "nat \<Rightarrow> 'a list \<Rightarrow> 'a list list" where
  "chop n xs = (if n = 0 \<or> xs = [] then [] else take n xs # chop n (drop n xs))"
  by pat_completeness auto
termination
  by (relation "measure (\<lambda>(n, xs). length xs)") auto

declare chop.simps [simp del]

lemma chop_Nil [simp]: "chop n [] = []"
  by (simp add: chop.simps)

lemma chop_step: "0 < n \<Longrightarrow> xs \<noteq> [] \<Longrightarrow> chop n xs = take n xs # chop n (drop n xs)"
  by (simp add: chop.simps[of n xs])

lemma chop_append: "0 < n \<Longrightarrow> length xs = n \<Longrightarrow> chop n (xs @ ys) = xs # chop n ys"
  by (subst chop_step) auto

lemma py_slice_drop: "py_slice i j (drop n xs) = py_slice (i + n) (j + n) xs"
  by (simp add: py_slice_def add.commute)

lemma chunk_parts:
  assumes "0 < n"
  shows "map (\<lambda>i. py_slice (i * n) ((i + 1) * n) xs) [0..<length xs div n] @
      (if length xs mod n \<noteq> 0 then [drop (length xs div n * n) xs] else []) = chop n xs"
  using assms
proof (induction n xs rule: chop.induct)
  case (1 n xs)
  show ?case
  proof (cases "length xs < n")
    case True
    then show ?thesis using "1.prems" by (cases "xs = []") (simp_all add: chop_step)
  next
    case False
    then have ne: "xs \<noteq> []" using "1.prems" by auto
    define d where "d = length (drop n xs) div n"
    have d: "length xs div n = Suc d" "length xs mod n = length (drop n xs) mod n"
      using False "1.prems" by (simp_all add: d_def le_div_geq le_mod_geq)
    have m: "map (\<lambda>i. py_slice (i * n) ((i + 1) * n) xs) [0..<Suc d] =
        take n xs # map (\<lambda>i. py_slice (i * n) ((i + 1) * n) (drop n xs)) [0..<d]"
      unfolding upt_conv_Cons[OF zero_less_Suc] list.map map_Suc_upt[symmetric] map_map comp_def
      by (simp add: py_slice_drop algebra_simps) (simp add: py_slice_def)
    have "drop (d * n) (drop n xs) = drop (Suc d * n) xs"
      by (simp add: add.commute)
    with "1.IH"[OF _ "1.prems"] ne "1.prems" show ?thesis
      unfolding d m d_def[symmetric]
      by (cases "(length xs - n) mod n = 0") (simp_all add: chop_step[OF "1.prems" ne] ac_simps)
  qed
qed

lemma chunks_eq_chop: "0 < n \<Longrightarrow> chunks xs n = Inr (chop n xs)"
  using chunk_parts[of n xs] by (simp add: chunks_def Let_def)

lemma concat_chop: "0 < n \<Longrightarrow> concat (chop n xs) = xs"
  by (induction n xs rule: chop.induct) (simp add: chop.simps)

lemma chop_all_but_last:
  "0 < n \<Longrightarrow> c \<in> set (butlast (chop n xs)) \<Longrightarrow> length c = n"
proof (induction n xs rule: chop.induct)
  case (1 n xs)
  then show ?case
    by (cases "xs = []"; cases "drop n xs = []") (auto simp: chop_step split: if_splits)
qed

lemma chop_sizes: "0 < n \<Longrightarrow> c \<in> set (chop n xs) \<Longrightarrow> 0 < length c \<and> length c \<le> n"
proof (induction n xs rule: chop.induct)
  case (1 n xs)
  then show ?case by (cases "xs = []") (auto simp: chop_step)
qed

lemma length_chop: "0 < n \<Longrightarrow> length (chop n xs) = (length xs + n - 1) div n"
proof (induction n xs rule: chop.induct)
  case (1 n xs)
  show ?case
  proof (cases "xs = []")
    case False
    then have pos: "0 < length xs" by simp
    have "length xs + n - 1 = (length xs - 1) + n" using pos by linarith
    then have sum: "(length xs + n - 1) div n = Suc ((length xs - 1) div n)"
      using "1.prems" by (simp only: div_add_self2)
    have "(length xs - n + n - 1) div n = (length xs - 1) div n"
    proof (cases "n \<le> length xs")
      case True
      then have "length xs - n + n - 1 = length xs - 1" by linarith
      then show ?thesis by (simp only:)
    next
      case f: False
      then have "length xs - n + n - 1 < n" "length xs - 1 < n" using pos by linarith+
      then show ?thesis by (simp only: div_less)
    qed
    moreover have "length (chop n xs) = Suc ((length xs - n + n - 1) div n)"
      using "1.IH" "1.prems" False by (simp add: chop_step)
    ultimately show ?thesis using sum by (simp only:)
  qed (use "1.prems" in simp)
qed

text \<open>A file that yields \<open>n\<close> bytes per read, fewer only at its end, is chunked like its contents.\<close>

definition read_file :: "'a list \<Rightarrow> nat \<Rightarrow> 'a list \<times> 'a list" where
  "read_file f n = (take n f, drop n f)"

lemma chunkread_file: "0 < n \<Longrightarrow> chunkread read_file xs n = Some (chop n xs)"
proof (induction n xs rule: chop.induct)
  case (1 n xs)
  then show ?case
    by (cases "xs = []"; subst chunkread.simps) (simp_all add: read_file_def[of xs n] read_file_def[of "[]" n] chop_step)
qed

section \<open>Hexadecimal digits\<close>

definition hex_pair :: "8 word \<Rightarrow> string" where
  "hex_pair b = [upper_digits ! (unat b div 16), upper_digits ! (unat b mod 16)]"

lemma digit_facts:
  assumes "i < 16"
  shows "upper_char (lower_digits ! i) = upper_digits ! i"
    and "hex_value (upper_digits ! i) = Some i"
    and "\<not> is_ascii_space (upper_digits ! i)" and "\<not> is_space (upper_digits ! i)"
    and "upper_digits ! i \<noteq> CHR '' ''" and "upper_digits ! i \<noteq> CHR '':''"
    and "upper_digits ! i \<noteq> CHR ''\<newline>''"
proof -
  have "list_all (\<lambda>i. upper_char (lower_digits ! i) = upper_digits ! i \<and>
      hex_value (upper_digits ! i) = Some i \<and> \<not> is_ascii_space (upper_digits ! i) \<and>
      \<not> is_space (upper_digits ! i) \<and> upper_digits ! i \<noteq> CHR '' '' \<and>
      upper_digits ! i \<noteq> CHR '':'' \<and> upper_digits ! i \<noteq> CHR ''\<newline>'') [0..<16]"
    by code_simp
  then have "upper_char (lower_digits ! i) = upper_digits ! i \<and>
      hex_value (upper_digits ! i) = Some i \<and> \<not> is_ascii_space (upper_digits ! i) \<and>
      \<not> is_space (upper_digits ! i) \<and> upper_digits ! i \<noteq> CHR '' '' \<and>
      upper_digits ! i \<noteq> CHR '':'' \<and> upper_digits ! i \<noteq> CHR ''\<newline>''"
    using assms by (simp only: list_all_iff set_upt atLeastLessThan_iff) simp
  then show "upper_char (lower_digits ! i) = upper_digits ! i"
    and "hex_value (upper_digits ! i) = Some i"
    and "\<not> is_ascii_space (upper_digits ! i)" and "\<not> is_space (upper_digits ! i)"
    and "upper_digits ! i \<noteq> CHR '' ''" and "upper_digits ! i \<noteq> CHR '':''"
    and "upper_digits ! i \<noteq> CHR ''\<newline>''" by simp_all
qed

lemma byte_digits: "unat (b :: 8 word) div 16 < 16" "unat b mod 16 < 16"
proof -
  have "unat b < 2 ^ LENGTH(8)" by (rule unsigned_less)
  then show "unat b div 16 < 16" "unat b mod 16 < 16" by simp_all
qed

lemma length_hex_pair [simp]: "length (hex_pair b) = 2"
  by (simp add: hex_pair_def)

lemma hex_pair_not_Nil [simp]: "hex_pair b \<noteq> []"
  by (simp add: hex_pair_def)

lemma upper_hexlify: "upper (hexlify bs) = concat (map hex_pair bs)"
  by (induction bs) (simp_all add: upper_def hexlify_def hex_pair_def digit_facts(1) byte_digits)

lemma chop_pairs: "chop 2 (concat (map hex_pair bs)) = map hex_pair bs"
  by (induction bs) (simp_all add: chop_append)

lemma dump_pairs: "dump bs 2 sep = Inr (join sep (map hex_pair bs))"
  by (simp add: dump_def chunks_eq_chop upper_hexlify chop_pairs)

lemma fromhex_pair: "fromhex (hex_pair b @ s) = map_sum id (Cons b) (fromhex s)"
proof -
  have "16 * (unat b div 16) + unat b mod 16 = unat b" by simp
  then have "(of_nat (16 * (unat b div 16) + unat b mod 16) :: 8 word) = b" by simp
  then show ?thesis
    by (simp add: hex_pair_def digit_facts byte_digits split: sum.split)
qed

lemma fromhex_append:
  "fromhex s = Inr bs \<Longrightarrow> fromhex (s @ t) = map_sum id (append bs) (fromhex t)"
proof (induction s arbitrary: bs rule: fromhex.induct)
  case 1
  then show ?case by (cases "fromhex t") simp_all
next
  case (2 c cs)
  show ?case
  proof (cases "is_ascii_space c")
    case True
    then show ?thesis using 2 by simp
  next
    case False
    with "2.prems" obtain d ds h l bs' where cs: "cs = d # ds"
      and hl: "hex_value c = Some h" "hex_value d = Some l"
      and ds: "fromhex ds = Inr bs'" and bs: "bs = of_nat (16 * h + l) # bs'"
      by (auto split: list.splits option.splits sum.splits)
    have "fromhex (ds @ t) = map_sum id (append bs') (fromhex t)"
      using "2.IH"(2)[OF False cs refl hl ds] .
    then show ?thesis using False cs hl bs by (cases "fromhex t") simp_all
  qed
qed

lemma fromhex_blanks [simp]: "fromhex (replicate k CHR '' '') = Inr []"
  by (induction k) (simp_all add: is_ascii_space_def)

lemma fromhex_join: "fromhex (join '' '' (map hex_pair bs)) = Inr bs"
proof (induction bs)
  case (Cons b bs)
  show ?case
  proof (cases bs)
    case Nil
    then show ?thesis using fromhex_pair[of b "[]"] by simp
  next
    case (Cons b' bs')
    have "fromhex (join '' '' (map hex_pair (b # bs))) = map_sum id (Cons b) (fromhex ('' '' @ join '' '' (map hex_pair bs)))"
      using Cons by (simp add: fromhex_pair)
    also have "fromhex ('' '' @ join '' '' (map hex_pair bs)) = Inr bs"
      using \<open>fromhex (join '' '' (map hex_pair bs)) = Inr bs\<close>
      by (simp add: is_ascii_space_def)
    finally show ?thesis by simp
  qed
qed simp

lemma length_join_pairs: "bs \<noteq> [] \<Longrightarrow> length (join '' '' (map hex_pair bs)) = 3 * length bs - 1"
proof (induction bs)
  case (Cons b bs)
  then show ?case by (cases bs) simp_all
qed simp

section \<open>The address column\<close>

lemma hex_of_digits: "c \<in> set (hex_of n) \<Longrightarrow> \<exists>i<16. c = upper_digits ! i"
proof (induction n rule: hex_of.induct)
  case (1 n)
  show ?case
  proof (cases "n < 16")
    case True
    then show ?thesis using "1.prems" by (auto simp: hex_of.simps[of n])
  next
    case False
    then have "c \<in> set (hex_of (n div 16)) \<or> c = upper_digits ! (n mod 16)"
      using "1.prems" by (simp add: hex_of.simps[of n]) blast
    moreover have "n mod 16 < 16" by simp
    ultimately show ?thesis using "1.IH"[OF False] by blast
  qed
qed

lemma length_hex_of: "n < 16 ^ Suc k \<Longrightarrow> length (hex_of n) \<le> Suc k"
proof (induction k arbitrary: n)
  case 0
  then show ?case by (simp add: hex_of.simps)
next
  case (Suc k)
  show ?case
  proof (cases "n < 16")
    case True
    then show ?thesis by (simp add: hex_of.simps)
  next
    case False
    have "n div 16 < 16 ^ Suc k" using Suc.prems by (simp add: less_mult_imp_div_less mult.commute)
    then have "length (hex_of (n div 16)) \<le> Suc k" by (rule Suc.IH)
    then show ?thesis using False by (simp add: hex_of.simps[of n])
  qed
qed

lemma hex08_digits: "c \<in> set (hex08 n) \<Longrightarrow> \<exists>i<16. c = upper_digits ! i"
proof -
  assume "c \<in> set (hex08 n)"
  then have "c = CHR ''0'' \<or> c \<in> set (hex_of n)" by (auto simp: hex08_def Let_def)
  moreover have "CHR ''0'' = upper_digits ! 0" by (simp add: upper_digits_def)
  ultimately show ?thesis using hex_of_digits zero_less_numeral by metis
qed

lemma hex08_clean: "c \<in> set (hex08 n) \<Longrightarrow> \<not> is_space c \<and> c \<noteq> CHR '':'' \<and> c \<noteq> CHR ''\<newline>''"
proof -
  assume "c \<in> set (hex08 n)"
  then obtain i where "i < 16" and c: "c = upper_digits ! i" using hex08_digits by blast
  then show ?thesis unfolding c by (simp add: digit_facts)
qed

lemma length_hex08: "length (hex08 n) = max 8 (length (hex_of n))"
  by (simp add: hex08_def Let_def)

lemma hex08_length: "8 \<le> length (hex08 n)" "n < 16 ^ Suc k \<Longrightarrow> length (hex08 n) \<le> max 8 (Suc k)"
proof -
  show "8 \<le> length (hex08 n)" unfolding length_hex08 by simp
  assume "n < 16 ^ Suc k"
  then have "length (hex_of n) \<le> Suc k" by (rule length_hex_of)
  then show "length (hex08 n) \<le> max 8 (Suc k)" unfolding length_hex08 by linarith
qed

lemma hex08_not_Nil [simp]: "hex08 n \<noteq> []"
  using hex08_length(1)[of n] by auto

lemma strip_address_line:
  assumes "n < 16 ^ 31" and "t \<noteq> []" and "\<not> is_space (hd t)"
  shows "strip_address (hex08 n @ '': '' @ t) = t"
proof -
  have tw: "takeWhile (\<lambda>c. c \<noteq> CHR '':'') (hex08 n @ '': '' @ t) = hex08 n"
    using hex08_clean by (subst takeWhile_append2) auto
  have "length (hex08 n) \<le> max 8 (Suc 30)" using hex08_length(2)[of n 30] assms(1) by simp
  moreover have "8 \<le> length (hex08 n)" by (rule hex08_length(1))
  moreover have "lstrip (CHR '' '' # t) = t"
    using assms(2,3) by (cases t) (simp_all add: lstrip_def)
  ultimately show ?thesis
    unfolding strip_address_def find_colon_def tw Let_def by simp
qed

section \<open>One line\<close>

definition hex_part :: "bytes \<Rightarrow> string" where
  "hex_part d = (let D = join '' '' (map hex_pair d) in
     take 24 D @ (if 8 < length d then '' '' @ drop 24 D else []))"

definition padding :: "bytes \<Rightarrow> nat" where
  "padding d = 2 + (if length d < 16 then 3 * (16 - length d) else 0) + (if length d \<le> 8 then 1 else 0)"

lemma dump_line_eq:
  "dump_line a d = Inr (hex08 (a * 16) @ '': '' @ hex_part d @ replicate (padding d) CHR '' '' @
     map printable d)"
  by (simp add: dump_line_def dump_pairs hex_part_def padding_def Let_def)

lemma hex_part_short:
  assumes "d \<noteq> []" and "length d \<le> 8"
  shows "hex_part d = join '' '' (map hex_pair d)"
  using assms length_join_pairs[of d] by (simp add: hex_part_def Let_def)

lemma hex_part_long:
  assumes "8 < length d"
  shows "hex_part d = join '' '' (map hex_pair (take 8 d)) @ ''  '' @ join '' '' (map hex_pair (drop 8 d))"
proof -
  have ne: "take 8 d \<noteq> []" using assms by auto
  have l: "length (join '' '' (map hex_pair (take 8 d))) = 23"
    using length_join_pairs[OF ne] assms by (simp add: min_absorb2)
  have "join '' '' (map hex_pair (take 8 d) @ map hex_pair (drop 8 d)) =
      join '' '' (map hex_pair (take 8 d)) @ '' '' @ join '' '' (map hex_pair (drop 8 d))"
    by (rule join_append) (use assms in auto)
  then have "join '' '' (map hex_pair d) =
      join '' '' (map hex_pair (take 8 d)) @ '' '' @ join '' '' (map hex_pair (drop 8 d))"
    by (simp only: map_append[symmetric] append_take_drop_id)
  then show ?thesis using l assms by (simp add: hex_part_def)
qed

lemma length_hex_part:
  assumes "d \<noteq> []"
  shows "length (hex_part d) = (if length d \<le> 8 then 3 * length d - 1 else 3 * length d)"
proof (cases "length d \<le> 8")
  case True
  then show ?thesis using hex_part_short[OF assms True] length_join_pairs[OF assms] by simp
next
  case False
  then have ne: "take 8 d \<noteq> []" "drop 8 d \<noteq> []" using assms by auto
  have "length (join '' '' (map hex_pair (take 8 d))) = 23"
    using length_join_pairs[OF ne(1)] False by (simp add: min_absorb2)
  moreover have "length (join '' '' (map hex_pair (drop 8 d))) = 3 * (length d - 8) - 1"
    using length_join_pairs[OF ne(2)] by simp
  ultimately show ?thesis using False hex_part_long[of d] by simp
qed

lemma columns: "d \<noteq> [] \<Longrightarrow> length d \<le> 16 \<Longrightarrow> length (hex_part d) + padding d = 50"
proof -
  assume d: "d \<noteq> []" "length d \<le> 16"
  then have "1 \<le> length d" by (cases d) auto
  then show ?thesis using d(2) unfolding length_hex_part[OF d(1)] padding_def
    by (simp only: split: if_split) linarith
qed

lemma fromhex_hex_part: "d \<noteq> [] \<Longrightarrow> fromhex (hex_part d) = Inr d"
proof (cases "length d \<le> 8")
  case True
  assume "d \<noteq> []"
  then show ?thesis using hex_part_short True fromhex_join by simp
next
  case False
  have "fromhex (''  '' @ join '' '' (map hex_pair (drop 8 d))) = Inr (drop 8 d)"
    using fromhex_join[of "drop 8 d"] by (simp add: is_ascii_space_def)
  then have "fromhex (join '' '' (map hex_pair (take 8 d)) @ ''  '' @ join '' '' (map hex_pair (drop 8 d)))
      = Inr (take 8 d @ drop 8 d)"
    using fromhex_append[OF fromhex_join[of "take 8 d"]] by simp
  then show ?thesis using hex_part_long[of d] False by simp
qed

lemma fromhex_hex_part_blanks: "d \<noteq> [] \<Longrightarrow> fromhex (hex_part d @ replicate k CHR '' '') = Inr d"
  using fromhex_append[OF fromhex_hex_part] by simp

lemma join_pairs_hd:
  "d \<noteq> [] \<Longrightarrow> \<exists>t. join '' '' (map hex_pair d) = hex_pair (hd d) @ t"
  by (cases d; cases "tl d") auto

lemma hex_part_hd: "d \<noteq> [] \<Longrightarrow> \<exists>t. hex_part d = hex_pair (hd d) @ t"
proof (cases "length d \<le> 8")
  case True
  assume "d \<noteq> []"
  then show ?thesis using hex_part_short True join_pairs_hd by simp
next
  case False
  then obtain t where "join '' '' (map hex_pair (take 8 d)) = hex_pair (hd d) @ t"
    using join_pairs_hd[of "take 8 d"] by (cases d) auto
  then show ?thesis using hex_part_long[of d] False by simp
qed

lemma hex_part_third:
  assumes "2 \<le> length d"
  shows "hex_part d ! 2 = CHR '' ''"
proof -
  have join2: "join '' '' (map hex_pair e) ! 2 = CHR '' ''" if "2 \<le> length e" for e
  proof -
    obtain x y zs where "e = x # y # zs" using \<open>2 \<le> length e\<close>
      by (cases e; cases "tl e") auto
    then show ?thesis by (simp add: nth_append)
  qed
  show ?thesis
  proof (cases "length d \<le> 8")
    case True
    have "d \<noteq> []" using assms by auto
    then show ?thesis using hex_part_short[of d] join2[OF assms] True by simp
  next
    case False
    then have ne: "take 8 d \<noteq> []" and two: "2 \<le> length (take 8 d)" using assms by auto
    have "2 < length (join '' '' (map hex_pair (take 8 d)))"
      using length_join_pairs[OF ne] False by (simp add: min_absorb2)
    then show ?thesis using hex_part_long[of d] join2[OF two] False by (simp add: nth_append)
  qed
qed

text \<open>
  What follows the hex part on a line, or on a line that lost its trailing blanks: the padding
  and the printable column, or nothing.
\<close>

lemma restore_columns:
  assumes d: "d \<noteq> []" "length d \<le> 16"
    and t: "t = replicate (padding d) CHR '' '' @ u \<or> (t = [] \<and> 2 \<le> length d)"
  shows "\<exists>k. hex_columns (hex_part d @ t) = Inr (hex_part d @ replicate k CHR '' '')"
proof (cases "length d \<le> 8")
  case True
  then have len: "length (hex_part d) = 3 * length d - 1" using length_hex_part d by simp
  show ?thesis
  proof (cases "t = [] \<and> 2 \<le> length d")
    case tn: True
    have "length (hex_part d) \<le> 23" using len True by simp
    moreover have "2 < length (hex_part d)" using len tn by linarith
    moreover have "hex_part d ! 2 = CHR '' ''" using hex_part_third tn by simp
    ultimately have "hex_columns (hex_part d @ t) = Inr (hex_part d)"
      using tn by (simp add: hex_columns_def py_slice_def)
    then show ?thesis by (intro exI[of _ 0]) simp
  next
    case False
    define j where "j = 24 - 3 * length d"
    have pd: "padding d = j + 27" using True d by (cases d) (auto simp: padding_def j_def)
    have jl: "length (hex_part d) + j = 23"
    proof -
      have "1 \<le> length d" using d by (cases d) auto
      then show ?thesis using len True unfolding j_def by linarith
    qed
    let ?h = "hex_part d @ replicate j CHR '' ''"
    have line: "hex_part d @ t = ?h @ replicate 3 CHR '' '' @ replicate 23 CHR '' '' @ CHR '' '' # u"
      using t False pd by (auto simp: replicate_add numeral_eq_Suc replicate_app_Cons_same)
    have lh: "length ?h = 23" using jl by simp
    have third: "(hex_part d @ t) ! 2 = CHR '' ''"
    proof (cases "2 \<le> length d")
      case True
      then have "2 < length (hex_part d)" using len by linarith
      then show ?thesis using hex_part_third[OF True] by (simp add: nth_append)
    next
      case False
      then have "length d = 1" using d(1) by (metis One_nat_def Suc_1 length_0_conv less_2_cases not_le)
      then have "length (hex_part d) = 2" using len by simp
      then show ?thesis using t pd False by (auto simp: nth_append)
    qed
    have "hex_columns (hex_part d @ t) = Inr (?h @ replicate 23 CHR '' '')"
      using third lh unfolding line hex_columns_def
      by (simp add: py_slice_def numeral_eq_Suc)
    then show ?thesis by (intro exI[of _ "j + 23"]) (simp add: replicate_add)
  qed
next
  case False
  let ?a = "join '' '' (map hex_pair (take 8 d))" and ?b = "join '' '' (map hex_pair (drop 8 d))"
  have "take 8 d \<noteq> []" using False by auto
  then have la: "length ?a = 23" using length_join_pairs[of "take 8 d"] False by (simp add: min_absorb2)
  have lb: "length ?b = 3 * (length d - 8) - 1" using length_join_pairs[of "drop 8 d"] False by simp
  obtain b1 bt where b: "?b = b1 # bt" "b1 \<noteq> CHR '' ''"
    using join_pairs_hd[of "drop 8 d"] False digit_facts(5)[OF byte_digits(1)]
    by (auto simp: hex_pair_def)
  have hp: "hex_part d = ?a @ ''  '' @ ?b" using hex_part_long False by simp
  have lh: "length (hex_part d) \<le> 48" "26 \<le> length (hex_part d)"
    using length_hex_part[OF d(1)] False d(2) by simp_all
  have third: "(hex_part d @ t) ! 2 = CHR '' ''"
    using hex_part_third[of d] False lh by (simp add: nth_append)
  have sep: "py_slice 23 26 (hex_part d @ t) = [CHR '' '', CHR '' '', b1]"
    using la b(1) unfolding hp py_slice_def by simp
  have "hex_columns (hex_part d @ t) = Inr (take 48 (hex_part d @ t))"
    using third lh sep b(2) unfolding hex_columns_def by simp
  also have "\<exists>k. take 48 (hex_part d @ t) = hex_part d @ replicate k CHR '' ''"
  proof (cases "t = []")
    case True
    then show ?thesis using lh by (intro exI[of _ 0]) simp
  next
    case False
    then have t: "t = replicate (padding d) CHR '' '' @ u" using t by auto
    have "48 - length (hex_part d) \<le> padding d" using columns[OF d] by linarith
    then show ?thesis using lh t
      by (intro exI[of _ "48 - length (hex_part d)"]) (simp add: min_def)
  qed
  ultimately show ?thesis by auto
qed

lemma restore_line_back:
  assumes "d \<noteq> []" and "length d \<le> 16" and "n < 16 ^ 31"
    and "t = replicate (padding d) CHR '' '' @ u \<or> (t = [] \<and> 2 \<le> length d)"
  shows "restore_line (hex08 n @ '': '' @ hex_part d @ t) = Inr d"
proof -
  obtain x where x: "hex_part d = hex_pair (hd d) @ x" using hex_part_hd assms(1) by blast
  have "strip_address (hex08 n @ '': '' @ hex_part d @ t) = hex_part d @ t"
    by (rule strip_address_line) (use assms(3) x in \<open>simp_all add: hex_pair_def digit_facts byte_digits\<close>)
  then show ?thesis
    using restore_columns[OF assms(1,2,4)] fromhex_hex_part_blanks[OF assms(1)]
    by (auto simp: restore_line_def dehex_def)
qed

section \<open>The whole dump\<close>

definition line_of :: "nat \<Rightarrow> bytes \<Rightarrow> string" where
  "line_of a d = hex08 (a * 16) @ '': '' @ hex_part d @ replicate (padding d) CHR '' '' @ map printable d"

fun layout :: "nat \<Rightarrow> bytes list \<Rightarrow> string list" where
  "layout a [] = []"
| "layout a (d # ds) = line_of a d # layout (Suc a) ds"

lemma dump_lines_layout: "dump_lines a ds = Inr (layout a ds)"
  by (induction a ds rule: layout.induct) (simp_all add: dump_line_eq line_of_def)

lemma dumpgen_layout:
  "dumpgen (Binary data) = Some (Inr (layout 0 (chop 16 data)))"
  "dumpgen (FileLike read_file data) = Some (Inr (layout 0 (chop 16 data)))"
  by (simp_all add: dumpgen_def genchunks_def chunks_eq_chop chunkread_file dump_lines_layout)

lemma layout_snoc: "layout a (ds @ [d]) = layout a ds @ [line_of (a + length ds) d]"
  by (induction a ds rule: layout.induct) simp_all

lemma length_layout [simp]: "length (layout a ds) = length ds"
  by (induction a ds rule: layout.induct) simp_all

lemma layout_nth: "i < length ds \<Longrightarrow> layout a ds ! i = line_of (a + i) (ds ! i)"
proof (induction a ds arbitrary: i rule: layout.induct)
  case (2 a d ds)
  then show ?case by (cases i) simp_all
qed simp

lemma restore_lines_append:
  "restore_lines r (xs @ ys) =
     (case restore_lines r xs of Inl e \<Rightarrow> Inl e | Inr r' \<Rightarrow> restore_lines r' ys)"
  by (induction r xs rule: restore_lines.induct) (simp_all split: sum.split)

lemma restore_line_of:
  "d \<noteq> [] \<Longrightarrow> length d \<le> 16 \<Longrightarrow> a * 16 < 16 ^ 31 \<Longrightarrow> restore_line (line_of a d) = Inr d"
  unfolding line_of_def by (rule restore_line_back) auto

lemma restore_layout:
  assumes "\<forall>d \<in> set ds. d \<noteq> [] \<and> length d \<le> 16" and "(a + length ds) * 16 < 16 ^ 31"
  shows "restore_lines r (layout a ds) = Inr (r @ concat ds)"
  using assms
proof (induction a ds arbitrary: r rule: layout.induct)
  case (2 a d ds)
  have "restore_line (line_of a d) = Inr d"
    by (rule restore_line_of) (use "2.prems" in auto)
  then show ?case using "2.IH"[of "r @ d"] "2.prems" by simp
qed simp

lemma printable_nat:
  "printable b = (if 32 \<le> unat b \<and> unat b \<le> 126 then char_of (unat b) else CHR ''.'')"
  by (simp add: printable_def word_le_nat_alt)

lemma of_char_printable:
  "(of_char (printable b) :: nat) = (if 32 \<le> unat b \<and> unat b \<le> 126 then unat b else 46)"
  by (simp add: printable_nat)

lemma printable_no_newline: "printable b \<noteq> CHR ''\<newline>''"
proof
  assume "printable b = CHR ''\<newline>''"
  then have "(of_char (printable b) :: nat) = 10" by simp
  then show False unfolding of_char_printable by (simp split: if_splits)
qed

lemma printable_space: "is_space (printable b) \<longleftrightarrow> b = 0x20"
proof -
  have "is_space (printable b) \<longleftrightarrow> unat b = 32"
    unfolding is_space_def of_char_printable Let_def by (auto split: if_splits)
  also have "\<dots> \<longleftrightarrow> b = 0x20"
    by (simp add: word_unat_eq_iff)
  finally show ?thesis .
qed

lemma line_of_no_newline: "CHR ''\<newline>'' \<notin> set (line_of a d)"
proof -
  have join: "CHR ''\<newline>'' \<notin> set (join '' '' (map hex_pair e))" for e
  proof (induction e)
    case (Cons b e)
    then show ?case using digit_facts(7)[OF byte_digits(1)[of b]] digit_facts(7)[OF byte_digits(2)[of b]]
      by (cases e) (auto simp: hex_pair_def)
  qed simp
  have "CHR ''\<newline>'' \<notin> set (hex_part d)"
    using join[of d] by (auto simp: hex_part_def Let_def dest: in_set_takeD in_set_dropD)
  then show ?thesis
    using hex08_clean[of "CHR ''\<newline>''"] printable_no_newline by (auto simp: line_of_def dest: sym)
qed

lemma layout_no_newline: "l \<in> set (layout a ds) \<Longrightarrow> CHR ''\<newline>'' \<notin> set l"
  by (induction a ds rule: layout.induct) (auto simp: line_of_no_newline)

lemma rstrip_set: "set (rstrip s) \<subseteq> set s"
  by (auto simp: rstrip_def dest: set_dropWhileD)

text \<open>Stripping the last line removes blanks of its printable column, or all of it and the padding.\<close>

lemma hex_part_last: "d \<noteq> [] \<Longrightarrow> hex_part d \<noteq> [] \<and> \<not> is_space (last (hex_part d))"
proof -
  have *: "join '' '' (map hex_pair e) \<noteq> [] \<and> \<not> is_space (last (join '' '' (map hex_pair e)))" if "e \<noteq> []" for e
    using \<open>e \<noteq> []\<close>
  proof (induction e)
    case (Cons b e)
    then show ?case using digit_facts(4)[OF byte_digits(2)[of b]]
      by (cases e) (auto simp: hex_pair_def)
  qed simp
  assume d: "d \<noteq> []"
  show ?thesis
  proof (cases "length d \<le> 8")
    case True
    then show ?thesis using hex_part_short[OF d] *[OF d] by simp
  next
    case False
    then show ?thesis using hex_part_long[of d] *[of "drop 8 d"] by simp
  qed
qed

lemma rstrip_line:
  assumes "d \<noteq> []"
  shows "\<exists>t. rstrip (line_of a d) = hex08 (a * 16) @ '': '' @ hex_part d @ t \<and>
    ((\<exists>u. t = replicate (padding d) CHR '' '' @ u) \<and> (\<exists>b \<in> set d. b \<noteq> 0x20) \<or>
     t = [] \<and> (\<forall>b \<in> set d. b = 0x20))"
proof (cases "\<forall>b \<in> set d. b = 0x20")
  case True
  let ?p = "hex08 (a * 16) @ '': '' @ hex_part d"
  have "rstrip (?p @ replicate (padding d) CHR '' '' @ map printable d) = rstrip ?p"
    by (rule rstrip_spaces) (use True in \<open>auto simp: printable_space\<close>)
  also have "\<dots> = ?p" by (rule rstrip_id) (use hex_part_last[OF assms] in auto)
  finally show ?thesis using True by (intro exI[of _ "[]"]) (simp add: line_of_def)
next
  case False
  then have ne: "rstrip (map printable d) \<noteq> []"
    by (auto simp: rstrip_def dropWhile_eq_Nil_conv printable_space)
  let ?p = "hex08 (a * 16) @ '': '' @ hex_part d @ replicate (padding d) CHR '' ''"
  have "rstrip (?p @ map printable d) = ?p @ rstrip (map printable d)"
    by (rule rstrip_append[OF ne])
  then show ?thesis using False
    by (intro exI[of _ "replicate (padding d) CHR '' '' @ rstrip (map printable d)"])
      (auto simp: line_of_def)
qed

lemma restore_rstrip_line:
  assumes d: "d \<noteq> []" "length d \<le> 16" and "a * 16 < 16 ^ 31"
  shows "restore_line (rstrip (line_of a d)) = (if d = [0x20] then Inl IndexError else Inr d)"
proof -
  obtain t where t: "rstrip (line_of a d) = hex08 (a * 16) @ '': '' @ hex_part d @ t"
    and c: "(\<exists>u. t = replicate (padding d) CHR '' '' @ u) \<and> (\<exists>b \<in> set d. b \<noteq> 0x20) \<or>
      t = [] \<and> (\<forall>b \<in> set d. b = 0x20)"
    using rstrip_line[OF d(1)] by blast
  show ?thesis
  proof (cases "d = [0x20]")
    case True
    then have tn: "t = []" using c by auto
    have h: "hex_part d = hex_pair 0x20" using True hex_part_short[of d] by simp
    have "strip_address (hex08 (a * 16) @ '': '' @ hex_pair 0x20) = hex_pair 0x20"
      by (rule strip_address_line) (use assms(3) in \<open>simp_all add: hex_pair_def digit_facts byte_digits\<close>)
    then show ?thesis using True unfolding t tn h by (simp add: restore_line_def hex_columns_def)
  next
    case False
    have "\<exists>u. t = replicate (padding d) CHR '' '' @ u \<or> (t = [] \<and> 2 \<le> length d)"
    proof (cases "t = [] \<and> (\<forall>b \<in> set d. b = 0x20)")
      case True
      then show ?thesis using False d(1) by (cases d; cases "tl d") auto
    qed (use c in auto)
    then obtain u where "t = replicate (padding d) CHR '' '' @ u \<or> (t = [] \<and> 2 \<le> length d)" by blast
    from restore_line_back[OF d assms(3) this] False show ?thesis unfolding t by simp
  qed
qed

lemma rstrip_join:
  assumes "rstrip l \<noteq> []"
  shows "rstrip (join sep (ls @ [l])) = join sep (ls @ [rstrip l])"
proof (cases "ls = []")
  case False
  then show ?thesis using rstrip_append[OF assms, of "join sep ls @ sep"] by (simp add: join_append)
qed simp

lemma join_snoc_hd:
  assumes "\<forall>x \<in> set (ls @ [l]). x \<noteq> [] \<and> \<not> is_space (hd x)"
  shows "lstrip (join sep (ls @ [l])) = join sep (ls @ [l])"
  using assms by (cases ls; cases "tl ls") (auto simp: lstrip_id)

lemma line_of_hd: "line_of a d \<noteq> [] \<and> \<not> is_space (hd (line_of a d))"
proof -
  have "hd (hex08 (a * 16)) \<in> set (hex08 (a * 16))" by simp
  from hex08_clean[OF this] show ?thesis by (simp add: line_of_def)
qed

lemma layout_hd: "x \<in> set (layout a ds) \<Longrightarrow> x \<noteq> [] \<and> \<not> is_space (hd x)"
  by (induction a ds rule: layout.induct) (auto simp: line_of_hd)

lemma strip_layout:
  assumes "d \<noteq> []"
  shows "split_on CHR ''\<newline>'' (strip (join ''\<newline>'' (layout 0 ds @ [line_of a d]))) =
    layout 0 ds @ [rstrip (line_of a d)]"
proof -
  obtain t where t: "rstrip (line_of a d) = hex08 (a * 16) @ t" using rstrip_line[OF assms] by blast
  have "hd (hex08 (a * 16)) \<in> set (hex08 (a * 16))" by simp
  then have hd: "rstrip (line_of a d) \<noteq> []" "\<not> is_space (hd (rstrip (line_of a d)))"
    unfolding t using hex08_clean[of "hd (hex08 (a * 16))" "a * 16"] by simp_all
  have "strip (join ''\<newline>'' (layout 0 ds @ [line_of a d])) = join ''\<newline>'' (layout 0 ds @ [rstrip (line_of a d)])"
    unfolding strip_def rstrip_join[OF hd(1)] by (rule join_snoc_hd) (use hd layout_hd in auto)
  moreover have "\<forall>x \<in> set (layout 0 ds @ [rstrip (line_of a d)]). CHR ''\<newline>'' \<notin> set x"
    using layout_no_newline line_of_no_newline rstrip_set[of "line_of a d"] by auto
  ultimately show ?thesis
    by (simp only: split_on_join[of "layout 0 ds @ [rstrip (line_of a d)]" "CHR ''\<newline>''"]
        append_is_Nil_conv list.distinct simp_thms)
qed

lemma last_chunk:
  assumes "chop 16 data = ds @ [d]"
  shows "length data = 16 * length ds + length d" and "0 < length d" and "length d \<le> 16"
    and "data = concat ds @ d" and "\<forall>c \<in> set ds. c \<noteq> [] \<and> length c \<le> 16"
    and "d = [0x20] \<longleftrightarrow> length data mod 16 = 1 \<and> last data = 0x20"
proof -
  show dd: "data = concat ds @ d" using concat_chop[of 16 data] assms by simp
  show d: "0 < length d" and d16: "length d \<le> 16" using chop_sizes[of 16 d data] assms by auto
  have all: "\<forall>c \<in> set ds. length c = 16" using chop_all_but_last[of 16 _ data] assms by auto
  then show "\<forall>c \<in> set ds. c \<noteq> [] \<and> length c \<le> 16" by auto
  have "length (concat ds) = 16 * length ds" using all by (induction ds) auto
  then show len: "length data = 16 * length ds + length d" using dd by simp
  have "last data = last d" using dd d by simp
  moreover have "length data mod 16 = 1 \<longleftrightarrow> length d = 1"
  proof -
    have "length data mod 16 = length d mod 16" unfolding len by simp
    then show ?thesis using d d16 by (cases "length d = 16") auto
  qed
  ultimately show "d = [0x20] \<longleftrightarrow> length data mod 16 = 1 \<and> last data = 0x20"
    by (cases d) auto
qed

lemma restore_text:
  assumes "length data < 16 ^ 31"
  shows "restore (Dump (join ''\<newline>'' (layout 0 (chop 16 data)))) =
    (if data = [] \<or> (length data mod 16 = 1 \<and> last data = 0x20) then Inl IndexError else Inr data)"
proof (cases "chop 16 data" rule: rev_cases)
  case Nil
  then have "data = []" using concat_chop[of 16 data] by simp
  then show ?thesis
    by (simp add: restore_def strip_def rstrip_def lstrip_def restore_line_def strip_address_def
        find_colon_def hex_columns_def)
next
  case (snoc ds d)
  note c = last_chunk[OF snoc]
  have d: "d \<noteq> []" using c(2) by auto
  have bound: "length ds * 16 < 16 ^ 31" using c(1) assms by linarith
  have "restore (Dump (join ''\<newline>'' (layout 0 (chop 16 data)))) =
      restore_lines [] (layout 0 ds @ [rstrip (line_of (length ds) d)])"
    unfolding snoc layout_snoc restore_def by (simp only: restore_input.case strip_layout[OF d] add_0)
  also have "\<dots> = (if d = [0x20] then Inl IndexError else Inr (concat ds @ d))"
    using restore_layout[OF c(5), of 0 "[]"] restore_rstrip_line[OF d c(3) bound] bound
    by (simp add: restore_lines_append)
  finally show ?thesis using c(4,6) d by auto
qed

section \<open>Properties\<close>

text \<open>
  C3. Round trip of the dump, with its two exceptions. For data of fewer than 16^31 bytes, given
  as bytes or as a file that is read to its end, \<open>hexdump\<close> returns a text and \<open>restore\<close> of this text returns the data, except that it raises
  \<^verbatim>\<open>IndexError\<close> (at \<^verbatim>\<open>line[2]\<close>) when the data are empty, or when the last line holds a single byte
  and this byte is a blank: \<^verbatim>\<open>strip()\<close> then takes the printable column and the padding away.
\<close>

theorem restore_hexdump:
  assumes "src = Binary data \<or> src = FileLike read_file data" and "length data < 16 ^ 31"
  shows "\<exists>text. hexdump (Data src) ''return'' = Some (Inr (Single text)) \<and>
    restore (Dump text) =
      (if data = [] \<or> (length data mod 16 = 1 \<and> last data = 0x20) then Inl IndexError else Inr data)"
  using assms(1) restore_text[OF assms(2)] by (auto simp: hexdump_def dumpgen_layout)

lemma restore_hexdump_witness:
  "\<exists>text. hexdump (Data (FileLike read_file [0x48, 0x69])) ''return'' = Some (Inr (Single text)) \<and>
    restore (Dump text) = Inr [0x48, 0x69 :: 8 word]"
  using restore_hexdump[of "FileLike read_file [0x48, 0x69]" "[0x48, 0x69]"] by simp

text \<open>
  Layout of the dump. The lines are as many as there are blocks of sixteen bytes, rounded up;
  line \<open>i\<close> starts with the address \<open>16 * i\<close>, its printable column holds the bytes of block \<open>i\<close>,
  starting at column 52 after the address column, and is the only part whose length varies.
\<close>

theorem dumpgen_shape:
  assumes "dumpgen (Binary data) = Some (Inr ls)"
  shows "length ls = (length data + 15) div 16 \<and>
    (\<forall>i < length ls. \<exists>mid. ls ! i = hex08 (i * 16) @ mid @ map printable (py_slice (16 * i) (16 * i + 16) data) \<and>
       length mid = 52)"
proof -
  have ls: "ls = layout 0 (chop 16 data)" using assms by (simp add: dumpgen_layout)
  have slice: "i < length (chop n xs) \<Longrightarrow> 0 < n \<Longrightarrow> chop n xs ! i = py_slice (n * i) (n * i + n) xs"
    for i n and xs :: bytes
  proof (induction n xs arbitrary: i rule: chop.induct)
    case (1 n xs)
    then show ?case
      by (cases "xs = []"; cases i) (simp_all add: chop_step py_slice_def ac_simps)
  qed
  have "\<exists>mid. ls ! i = hex08 (i * 16) @ mid @ map printable (py_slice (16 * i) (16 * i + 16) data) \<and>
      length mid = 52" if i: "i < length (chop 16 data)" for i
  proof -
    let ?d = "chop 16 data ! i"
    have "?d \<in> set (chop 16 data)" using i by simp
    from chop_sizes[OF _ this] have d: "?d \<noteq> []" "length ?d \<le> 16" by auto
    show ?thesis
      using columns[OF d] layout_nth[OF i, of 0] slice[OF i] unfolding ls
      by (intro exI[of _ "'': '' @ hex_part ?d @ replicate (padding ?d) CHR '' ''"])
        (simp add: line_of_def)
  qed
  then show ?thesis using length_chop[of 16 data] ls by simp
qed

lemma dumpgen_shape_witness:
  "\<exists>ls. dumpgen (Binary (replicate 17 0x41) :: unit mixed) = Some (Inr ls) \<and> length ls = 2"
  using dumpgen_shape[OF dumpgen_layout(1)[of "replicate 17 0x41"]] dumpgen_layout(1)[of "replicate 17 0x41"]
  by auto

text \<open>
  Chunking. \<open>chunks\<close> raises \<^verbatim>\<open>ZeroDivisionError\<close> on size zero; otherwise it cuts the sequence
  into pieces that concatenate to it, all of the requested size but for the last one, which is
  shorter but not empty; and reading a file of the same contents piece by piece gives the same.
\<close>

theorem chunks_cut:
  "case chunks xs n of
     Inl e \<Rightarrow> n = 0 \<and> e = ZeroDivisionError
   | Inr cs \<Rightarrow> 0 < n \<and> concat cs = xs \<and> length cs = (length xs + n - 1) div n \<and>
       (\<forall>c \<in> set (butlast cs). length c = n) \<and> (\<forall>c \<in> set cs. 0 < length c \<and> length c \<le> n) \<and>
       chunkread read_file xs n = Some cs"
proof (cases "n = 0")
  case False
  then have n: "0 < n" by simp
  show ?thesis
    unfolding chunks_eq_chop[OF n] sum.case
    using n concat_chop[OF n] length_chop[OF n] chop_all_but_last[OF n] chop_sizes[OF n]
      chunkread_file[OF n] by blast
qed (simp add: chunks_def)

lemma chunks_cut_witness:
  "chunks [1, 2, 3 :: nat] 2 = Inr [[1, 2], [3]] \<and> chunkread read_file [1, 2, 3 :: nat] 2 = Some [[1, 2], [3]]"
proof -
  have c: "chunks [1, 2, 3 :: nat] 2 = Inr [[1, 2], [3]]"
    by (simp add: chunks_def py_slice_def)
  show ?thesis using chunks_cut[where xs = "[1, 2, 3 :: nat]" and n = 2] c by simp
qed

text \<open>
  A file whose \<^verbatim>\<open>read()\<close> returns less than it is asked for, as pipes and sockets do, gets lines
  whose addresses are wrong: the address counts lines, not bytes.
\<close>

lemma short_reads_misaddressed:
  assumes "\<And>f n. rd f n = (take 1 f, drop 1 f)"
  shows "dumpgen (FileLike rd [b, c]) = Some (Inr [line_of 0 [b], line_of 1 [c]])"
proof -
  have "chunkread rd f 16 = Some (map (\<lambda>x. [x]) f)" for f
  proof (induction f)
    case Nil
    show ?case by (subst chunkread.simps) (simp add: assms)
  next
    case (Cons x f)
    show ?case by (subst chunkread.simps) (simp add: assms[of "x # f"] Cons.IH)
  qed
  then show ?thesis by (simp add: dumpgen_def genchunks_def dump_lines_layout)
qed

end
