(* ===== verification/Stream_Connection.thy ===== *)
theory Stream_Connection
  imports Connection_Base
begin

text \<open>
  \<^verbatim>\<open>connections/stream.py\<close>: a connection over a Trio byte stream. The stream is an object of
  another package; the record \<open>stream_ops\<close> holds the operations of it that the code calls, and
  every definition takes it as an argument. An operation returns its outcome and the stream as
  it is afterwards.
\<close>

record 'st stream_ops =
  receive_some :: "int option \<Rightarrow> 'st \<Rightarrow> bytes outcome \<times> 'st"
  send_all :: "bytes \<Rightarrow> 'st \<Rightarrow> unit outcome \<times> 'st"
  aclose :: "'st \<Rightarrow> unit outcome \<times> 'st"

record 'st stream_connection = connection +
  stream :: "'st option"

definition init_stream_connection :: "'st stream_connection" where
  "init_stream_connection = connection.extend init_connection \<lparr>stream = None\<rparr>"

section \<open>Operations\<close>

text \<open>Calling a method of \<^verbatim>\<open>self._stream\<close>; on \<^verbatim>\<open>None\<close> Python raises an \<^verbatim>\<open>AttributeError\<close>.\<close>

definition on_stream ::
  "('st \<Rightarrow> 'a outcome \<times> 'st) \<Rightarrow> string \<Rightarrow> (('st, 'z) stream_connection_scheme, 'a) action" where
  "on_stream f name c =
     (case stream c of
        None \<Rightarrow> (Raises (AttributeError name), c)
      | Some st \<Rightarrow> (case f st of (r, st') \<Rightarrow> (r, c\<lparr>stream := Some st'\<rparr>)))"

text \<open>The hooks \<^verbatim>\<open>_open()\<close>, around the subclass's \<^verbatim>\<open>_create_stream()\<close>, and \<^verbatim>\<open>_close()\<close>.\<close>

definition stream_open ::
  "(('st, 'z) stream_connection_scheme, 'st) action \<Rightarrow> (('st, 'z) stream_connection_scheme, unit) action" where
  "stream_open create_stream =
     and_then create_stream (\<lambda>st. modify (\<lambda>c. c\<lparr>stream := Some st\<rparr>))"

definition stream_close :: "'st stream_ops \<Rightarrow> (('st, 'z) stream_connection_scheme, unit) action" where
  "stream_close ops =
     try_finally
       (\<lambda>c. if stream c \<noteq> None then on_stream (aclose ops) ''aclose'' c else (Returns (), c))
       (\<lambda>_. modify (\<lambda>c. c\<lparr>stream := None\<rparr>))"

definition close_stream_connection :: "'st stream_ops \<Rightarrow> (('st, 'z) stream_connection_scheme, unit) action" where
  "close_stream_connection ops = conn_close (stream_close ops)"

definition stream_read ::
  "'st stream_ops \<Rightarrow> int option \<Rightarrow> (('st, 'z) stream_connection_scheme, bytes) action" where
  "stream_read ops sz =
     and_then
       (try_except (on_stream (receive_some ops sz) ''receive_some'')
          (\<lambda>ex. and_then (try_finally (close_stream_connection ops) (\<lambda>_. ret ())) (\<lambda>_. throw ex)))
       (\<lambda>data. if data = []
               then and_then (close_stream_connection ops) (\<lambda>_. ret data)
               else ret data)"

definition stream_write ::
  "'st stream_ops \<Rightarrow> bytes \<Rightarrow> (('st, 'z) stream_connection_scheme, unit) action" where
  "stream_write ops data = on_stream (send_all ops data) ''send_all''"

section \<open>Concrete connections\<close>

text \<open>\<^verbatim>\<open>StreamConnection\<close>: the factory of the streams is the caller's.\<close>

definition factory_create ::
  "'st outcome \<Rightarrow> (('st, 'z) stream_connection_scheme, 'st) action" where
  "factory_create made c = (made, c)"

text \<open>
  \<^verbatim>\<open>StreamWrapperConnection\<close>: the stream is there from the start, \<^verbatim>\<open>None\<close> is refused, and the
  connection cannot be opened once closed.
\<close>

definition wrap_stream :: "'st option \<Rightarrow> exn + 'st stream_connection" where
  "wrap_stream s =
     (case s of
        None \<Rightarrow> Inl (ValueError ''wrapped stream must not be None'')
      | Some st \<Rightarrow> Inr (set_state CONNECTED (init_stream_connection\<lparr>stream := Some st\<rparr>)))"

definition wrapper_create :: "(('st, 'z) stream_connection_scheme, 'st) action" where
  "wrapper_create = throw (RuntimeError ''stream wrapper can only be opened once'')"

section \<open>Lemmas\<close>

lemma stream_update_base [simp]:
  "conn_state (c\<lparr>stream := x\<rparr>) = conn_state c" "sent (c\<lparr>stream := x\<rparr>) = sent c"
  "flags_ok (c\<lparr>stream := x\<rparr>) = flags_ok c"
  by (simp_all add: flags_ok_def)

lemma stream_more:
  "connection.more c = connection.more d \<Longrightarrow> stream c = stream d"
  by (cases c; cases d) simp

lemma stream_set_state [simp]: "stream (set_state s c) = stream c"
  by (rule stream_more) simp

lemma leaves_on_stream: "leaves_lifecycle (on_stream f name)"
  by (auto simp: leaves_lifecycle_def on_stream_def split: option.split prod.split)

lemma leaves_and_then:
  assumes "leaves_lifecycle m" and "\<And>x. leaves_lifecycle (f x)"
  shows "leaves_lifecycle (and_then m f)"
  unfolding leaves_lifecycle_def
proof (intro allI impI)
  fix c :: "'a connection_scheme"
  assume c: "flags_ok c"
  obtain r d where m: "m c = (r, d)" by (cases "m c")
  have d: "flags_ok d" "conn_state d = conn_state c" "sent d = sent c"
    using assms(1) c m unfolding leaves_lifecycle_def by force+
  have "flags_ok (snd (f x d)) \<and> conn_state (snd (f x d)) = conn_state d \<and> sent (snd (f x d)) = sent d" for x
    using assms(2)[of x] d(1) unfolding leaves_lifecycle_def by blast
  then show "flags_ok (snd (and_then m f c)) \<and> conn_state (snd (and_then m f c)) = conn_state c \<and>
      sent (snd (and_then m f c)) = sent c"
    using d by (cases r) (simp_all add: action_simps m)
qed

lemma leaves_stream_open: "leaves_lifecycle create \<Longrightarrow> leaves_lifecycle (stream_open create)"
  unfolding stream_open_def
  by (rule leaves_and_then) (auto simp: leaves_lifecycle_def action_simps)

lemma stream_close_result:
  "stream_close ops c =
     (case stream c of
        None \<Rightarrow> (Returns (), c\<lparr>stream := None\<rparr>)
      | Some st \<Rightarrow>
          (case aclose ops st of
             (Blocks, st') \<Rightarrow> (Blocks, c\<lparr>stream := Some st'\<rparr>)
           | (r, st') \<Rightarrow> (r, c\<lparr>stream := None\<rparr>)))"
  by (auto simp: stream_close_def on_stream_def action_simps split: option.split prod.split outcome.split)

lemma leaves_stream_close: "leaves_lifecycle (stream_close ops)"
  by (auto simp: leaves_lifecycle_def stream_close_result split: option.split prod.split outcome.split)

text \<open>Closing a connected stream connection, by the outcome of the stream's own \<^verbatim>\<open>aclose()\<close>.\<close>

lemma close_connected:
  assumes "conn_state c = CONNECTED" and "stream c = Some st" and "aclose ops st = (r, st')"
  shows "\<exists>c'. close_stream_connection ops c = (r, c') \<and>
    (r = Returns () \<longrightarrow> conn_state c' = DISCONNECTED \<and> stream c' = None) \<and>
    (\<forall>e. r = Raises e \<longrightarrow> conn_state c' = CONNECTED \<and> stream c' = None) \<and>
    (r = Blocks \<longrightarrow> conn_state c' = DISCONNECTING \<and> stream c' = Some st')"
  using assms
  by (cases r) (simp_all add: close_stream_connection_def conn_close_def close_body_def
      stream_close_result action_simps)

lemma read_raises:
  assumes "stream c = Some st" and "receive_some ops sz st = (Raises e, st')" and "is_Exception e"
  shows "stream_read ops sz c =
    (case close_stream_connection ops (c\<lparr>stream := Some st'\<rparr>) of
       (Returns _, d) \<Rightarrow> (Raises e, d) | (Raises e', d) \<Rightarrow> (Raises e', d) | (Blocks, d) \<Rightarrow> (Blocks, d))"
  using assms
  by (auto simp: stream_read_def on_stream_def action_simps split: prod.split outcome.split)

lemma read_returns:
  assumes "stream c = Some st" and "receive_some ops sz st = (Returns data, st')"
  shows "stream_read ops sz c =
    (if data = [] then and_then (close_stream_connection ops) (\<lambda>_. ret data) (c\<lparr>stream := Some st'\<rparr>)
     else (Returns data, c\<lparr>stream := Some st'\<rparr>))"
  using assms by (auto simp: stream_read_def on_stream_def action_simps)

section \<open>Properties\<close>

text \<open>
  C19. Reading from a connected stream connection. Data is passed on and the connection stays open, as
  it does when the read is cancelled. An empty read, the end of the file, and an exception call the
  stream's \<^verbatim>\<open>aclose()\<close>: if that returns, the connection is disconnected without a stream, and the read
  returns the empty bytes or raises the stream's exception; if it raises, its exception comes out of
  the read instead, and the connection is connected without a stream; while it waits, so does the
  read, in \<open>DISCONNECTING\<close> with the stream as \<^verbatim>\<open>aclose()\<close> has left it.
\<close>

theorem read_connected:
  assumes c: "conn_state c = CONNECTED" "stream c = Some st"
    and rcv: "receive_some ops sz st = (r, st')"
    and cls: "aclose ops st' = (a, st'')"
    and run: "stream_read ops sz c = (q, c')"
  shows "if r = Returns [] \<or> (\<exists>e. r = Raises e \<and> is_Exception e)
    then (case a of
            Returns _ \<Rightarrow> q = r \<and> conn_state c' = DISCONNECTED \<and> stream c' = None
          | Raises e' \<Rightarrow> q = Raises e' \<and> conn_state c' = CONNECTED \<and> stream c' = None
          | Blocks \<Rightarrow> q = Blocks \<and> conn_state c' = DISCONNECTING \<and> stream c' = Some st'')
    else q = r \<and> conn_state c' = CONNECTED \<and> stream c' = Some st'"
proof -
  let ?c = "c\<lparr>stream := Some st'\<rparr>"
  obtain d where d: "close_stream_connection ops ?c = (a, d)"
      "a = Returns () \<Longrightarrow> conn_state d = DISCONNECTED \<and> stream d = None"
      "\<And>e. a = Raises e \<Longrightarrow> conn_state d = CONNECTED \<and> stream d = None"
      "a = Blocks \<Longrightarrow> conn_state d = DISCONNECTING \<and> stream d = Some st''"
    using close_connected[of ?c st' ops a st''] c cls by auto
  have other: "q = r \<and> c' = ?c" if "r = Blocks \<or> (\<exists>e. r = Raises e \<and> \<not> is_Exception e)"
    using that run rcv c by (auto simp: stream_read_def on_stream_def action_simps)
  show ?thesis
  proof (cases r)
    case (Returns data)
    then show ?thesis using run rcv c d read_returns[of c st ops sz data st']
      by (cases a) (auto simp: action_simps)
  next
    case (Raises e)
    show ?thesis
    proof (cases "is_Exception e")
      case True
      then show ?thesis using run rcv c d Raises read_raises[of c st ops sz e st'] by (cases a) auto
    qed (use Raises other c in auto)
  qed (use other c in auto)
qed

text \<open>
  When the clean-up of a failed read fails too, the clean-up's exception replaces the
  stream's: the caller never sees the read error, and the connection goes back to \<open>CONNECTED\<close>
  although its stream is gone; the next read then fails on the missing stream and disconnects.
\<close>

theorem read_error_masked:
  assumes c: "conn_state c = CONNECTED" "stream c = Some st"
    and rcv: "receive_some ops sz st = (Raises e, st')" "is_Exception e"
    and cls: "aclose ops st' = (Raises e', st'')"
    and run: "stream_read ops sz c = (q, c')"
  shows "q = Raises e' \<and> conn_state c' = CONNECTED \<and> stream c' = None \<and>
    (\<exists>c''. stream_read ops sz c' = (Raises (AttributeError ''receive_some''), c'') \<and>
           conn_state c'' = DISCONNECTED)"
proof -
  let ?c = "c\<lparr>stream := Some st'\<rparr>"
  obtain d where d: "close_stream_connection ops ?c = (Raises e', d)"
      "conn_state d = CONNECTED" "stream d = None"
    using close_connected[of ?c st' ops] c cls by auto
  have q: "q = Raises e'" "c' = d"
    using run c rcv d(1) read_raises[of c st ops sz e st'] by auto
  have "fst (stream_read ops sz d) = Raises (AttributeError ''receive_some'') \<and>
      conn_state (snd (stream_read ops sz d)) = DISCONNECTED"
    using d(2,3) by (simp add: stream_read_def on_stream_def close_stream_connection_def conn_close_def
        close_body_def stream_close_result action_simps)
  then show ?thesis using q d
    by (cases "stream_read ops sz d") auto
qed

text \<open>
  A stream wrapper is connected from its construction; once it is closed, \<^verbatim>\<open>open()\<close> raises
  the wrapper's \<^verbatim>\<open>RuntimeError\<close> and leaves it disconnected.
\<close>

theorem wrapper_opens_once:
  assumes "wrap_stream (Some st) = Inr c" and "aclose ops st = (Returns (), st')"
    and "close_stream_connection ops c = (r, c')"
  shows "conn_state c = CONNECTED \<and> sent c = [StateChanged DISCONNECTED CONNECTED, Connected] \<and>
    r = Returns () \<and> conn_state c' = DISCONNECTED \<and>
    (\<exists>c''. conn_open (stream_open wrapper_create) c' =
        (Raises (RuntimeError ''stream wrapper can only be opened once''), c'') \<and>
      conn_state c'' = DISCONNECTED)"
proof -
  let ?i = "init_stream_connection\<lparr>stream := Some st\<rparr>"
  have i: "flags_ok ?i" "conn_state ?i = DISCONNECTED" "sent ?i = []"
    by (simp_all add: init_stream_connection_def connection.extend_def flags_ok_def)
  have c: "c = set_state CONNECTED ?i" using assms(1) by (simp add: wrap_stream_def)
  have c2: "conn_state c = CONNECTED" "stream c = Some st" unfolding c by simp_all
  have "sent c = sent ?i @ announce (conn_state ?i) CONNECTED"
    unfolding c by (rule sent_set_state) (use i in simp_all)
  then have s: "sent c = [StateChanged DISCONNECTED CONNECTED, Connected]"
    using i by (simp add: announce_def)
  from close_connected[OF c2 assms(2)] assms(3)
  have c': "r = Returns ()" "conn_state c' = DISCONNECTED" by auto
  have "fst (conn_open (stream_open wrapper_create) c') =
        Raises (RuntimeError ''stream wrapper can only be opened once'') \<and>
      conn_state (snd (conn_open (stream_open wrapper_create) c')) = DISCONNECTED"
    using c'(2) by (simp add: conn_open_def open_body_def stream_open_def wrapper_create_def action_simps)
  then show ?thesis using c2 s c' by (cases "conn_open (stream_open wrapper_create) c'") auto
qed

section \<open>Witnesses\<close>

text \<open>A stream on which every read fails with \<open>e\<close> and whose \<^verbatim>\<open>aclose()\<close> has the outcome \<open>r\<close>.\<close>

definition broken_ops :: "exn \<Rightarrow> unit outcome \<Rightarrow> unit stream_ops" where
  "broken_ops e r = \<lparr>receive_some = (\<lambda>_ s. (Raises e, s)), send_all = (\<lambda>_ s. (Raises e, s)),
     aclose = (\<lambda>s. (r, s))\<rparr>"

definition connected_wrapper :: "unit stream_connection" where
  "connected_wrapper = set_state CONNECTED (init_stream_connection\<lparr>stream := Some ()\<rparr>)"

lemma connected_wrapper_simps:
  "conn_state connected_wrapper = CONNECTED" "stream connected_wrapper = Some ()"
  "wrap_stream (Some ()) = Inr connected_wrapper"
  by (simp_all add: connected_wrapper_def wrap_stream_def)

theorem read_connected_witness:
  "\<exists>c'. stream_read (broken_ops (OSError 5) Blocks) None connected_wrapper = (Blocks, c') \<and>
     conn_state c' = DISCONNECTING"
proof -
  let ?ops = "broken_ops (OSError 5) Blocks"
  obtain q c' where run: "stream_read ?ops None connected_wrapper = (q, c')"
    by (cases "stream_read ?ops None connected_wrapper")
  have "receive_some ?ops None () = (Raises (OSError 5), ())" "aclose ?ops () = (Blocks, ())"
    by (simp_all add: broken_ops_def)
  from read_connected[OF connected_wrapper_simps(1,2) this run] run show ?thesis by simp
qed

theorem read_error_masked_witness:
  "\<exists>c'. stream_read (broken_ops (OSError 5) (Raises (OSError 9))) None connected_wrapper
      = (Raises (OSError 9), c') \<and> conn_state c' = CONNECTED \<and> stream c' = None"
proof -
  let ?ops = "broken_ops (OSError 5) (Raises (OSError 9))"
  obtain q c' where run: "stream_read ?ops None connected_wrapper = (q, c')"
    by (cases "stream_read ?ops None connected_wrapper")
  have "receive_some ?ops None () = (Raises (OSError 5), ())" "aclose ?ops () = (Raises (OSError 9), ())"
    by (simp_all add: broken_ops_def)
  from read_error_masked[OF connected_wrapper_simps(1,2) this(1) _ this(2) run] run
  show ?thesis by simp
qed

theorem wrapper_opens_once_witness:
  "\<exists>c'. close_stream_connection (broken_ops (OSError 5) (Returns ())) connected_wrapper = (Returns (), c') \<and>
     conn_state c' = DISCONNECTED"
proof -
  let ?ops = "broken_ops (OSError 5) (Returns ())"
  obtain r c' where run: "close_stream_connection ?ops connected_wrapper = (r, c')"
    by (cases "close_stream_connection ?ops connected_wrapper")
  have "aclose ?ops () = (Returns (), ())" by (simp add: broken_ops_def)
  from wrapper_opens_once[OF connected_wrapper_simps(3) this run] run show ?thesis by simp
qed

end
