(* ===== verification/Channels.thy ===== *)
theory Channels
  imports Stream_Connection "HOL-Library.Sublist"
begin

text \<open>
  The package \<^verbatim>\<open>channels\<close>: \<^verbatim>\<open>ParserChannel\<close> (parser.py), \<^verbatim>\<open>MessageChannel\<close> and
  \<^verbatim>\<open>BroadcastMessageChannel\<close> (message.py), \<^verbatim>\<open>EncoderChannel\<close> (encoder.py) and the lossy wrapper
  (lossy.py).

  The connection below a channel is an action on a state of type \<open>'c\<close>. A parser is a stateful
  generator: fed one piece of data it yields messages and may raise after some of them; the
  messages it has yielded are in the queue by then, because \<^verbatim>\<open>deque.extend\<close> appends one by one.
  A receive loop may never end (a parser that yields nothing on an endless connection), so
  \<^verbatim>\<open>receive()\<close> is a partial function: \<open>None\<close> is the loop that does not end.
\<close>

section \<open>Receiving\<close>

type_synonym ('p, 'r, 'm) parser = "'r \<Rightarrow> 'p \<Rightarrow> ('m list \<times> exn option) \<times> 'p"

record ('c, 'p, 'm) inbound =
  conn_of :: 'c
  parser_of :: 'p
  pending :: "'m list"

definition on_conn :: "('c, 'a) action \<Rightarrow> (('c, 'p, 'm, 'z) inbound_scheme, 'a) action" where
  "on_conn m ch = (case m (conn_of ch) of (r, c) \<Rightarrow> (r, ch\<lparr>conn_of := c\<rparr>))"

text \<open>\<^verbatim>\<open>self._pending.extend(self._parser(data))\<close>.\<close>

definition extend_pending ::
  "('p, 'r, 'm) parser \<Rightarrow> 'r \<Rightarrow> (('c, 'p, 'm, 'z) inbound_scheme, unit) action" where
  "extend_pending parse data ch =
     (case parse data (parser_of ch) of
        ((ms, failure), p) \<Rightarrow>
          (case failure of None \<Rightarrow> Returns () | Some e \<Rightarrow> Raises e,
           ch\<lparr>parser_of := p, pending := pending ch @ ms\<rparr>))"

text \<open>\<^verbatim>\<open>_read()\<close>; \<open>falsy\<close> is Python's truth test on the data of the connection, negated.\<close>

definition channel_read ::
  "('c, 'r) action \<Rightarrow> ('r \<Rightarrow> bool) \<Rightarrow> ('p, 'r, 'm) parser \<Rightarrow> (('c, 'p, 'm, 'z) inbound_scheme, unit) action" where
  "channel_read rd falsy parse =
     and_then (on_conn rd)
       (\<lambda>data. if falsy data then throw EndOfChannel else extend_pending parse data)"

partial_function (option) channel_receive ::
  "('c, 'r) action \<Rightarrow> ('r \<Rightarrow> bool) \<Rightarrow> ('p, 'r, 'm) parser \<Rightarrow> ('c, 'p, 'm, 'z) inbound_scheme \<Rightarrow>
   ('m outcome \<times> ('c, 'p, 'm, 'z) inbound_scheme) option" where
  "channel_receive rd falsy parse ch =
     (case pending ch of
        m # ms \<Rightarrow> Some (Returns m, ch\<lparr>pending := ms\<rparr>)
      | [] \<Rightarrow>
          (case channel_read rd falsy parse ch of (r, ch') \<Rightarrow>
             (case r of
                Returns _ \<Rightarrow> channel_receive rd falsy parse ch'
              | Raises e \<Rightarrow> Some (Raises e, ch')
              | Blocks \<Rightarrow> Some (Blocks, ch'))))"

text \<open>
  \<^verbatim>\<open>ParserChannel.__init__\<close> dispatches on the shape of its arguments: an object with an async
  \<^verbatim>\<open>read\<close> method (and maybe a \<^verbatim>\<open>close\<close>), an async function, or anything else, named by its type;
  a parser object with a callable \<^verbatim>\<open>feed\<close>, a callable, or anything else.
\<close>

datatype ('c, 'r) reader_arg =
    ReadableObject "('c, 'r) action" "('c, unit) action option"
  | AsyncReader "('c, 'r) action"
  | NotAReader string

datatype ('p, 'r, 'm) parser_arg =
    FeedableObject "('p, 'r, 'm) parser"
  | CallableParser "('p, 'r, 'm) parser"
  | NotAParser string

definition parser_of_arg :: "('p, 'r, 'm) parser_arg \<Rightarrow> exn + ('p, 'r, 'm) parser" where
  "parser_of_arg p =
     (case p of
        FeedableObject feed \<Rightarrow> Inr feed
      | CallableParser f \<Rightarrow> Inr f
      | NotAParser t \<Rightarrow> Inl (TypeError (''Parser or callable expected, got '' @ t)))"

record ('c, 'p, 'r, 'm) parser_channel =
  reader_fn :: "('c, 'r) action"
  closer_fn :: "('c, unit) action option"
  parser_fn :: "('p, 'r, 'm) parser"

definition init_parser_channel ::
  "('c, 'r) reader_arg \<Rightarrow> ('p, 'r, 'm) parser_arg \<Rightarrow> exn + ('c, 'p, 'r, 'm) parser_channel" where
  "init_parser_channel reader parser =
     (let rc = (case reader of
                  ReadableObject rd cl \<Rightarrow> Inr (rd, cl)
                | AsyncReader rd \<Rightarrow> Inr (rd, None)
                | NotAReader t \<Rightarrow> Inl (TypeError (''ReadableConnection or async function expected, got '' @ t)))
      in case rc of
           Inl e \<Rightarrow> Inl e
         | Inr (rd, cl) \<Rightarrow>
             (case parser_of_arg parser of
                Inl e \<Rightarrow> Inl e
              | Inr p \<Rightarrow> Inr \<lparr>reader_fn = rd, closer_fn = cl, parser_fn = p\<rparr>))"

definition parser_channel_aclose ::
  "('c, 'p, 'r, 'm) parser_channel \<Rightarrow> (('c, 'p, 'm, 'z) inbound_scheme, unit) action" where
  "parser_channel_aclose self =
     (case closer_fn self of Some cl \<Rightarrow> on_conn cl | None \<Rightarrow> ret ())"

definition parser_channel_receive ::
  "('c, 'p, 'r, 'm) parser_channel \<Rightarrow> ('r \<Rightarrow> bool) \<Rightarrow> ('c, 'p, 'm, 'z) inbound_scheme \<Rightarrow>
   ('m outcome \<times> ('c, 'p, 'm, 'z) inbound_scheme) option" where
  "parser_channel_receive self falsy = channel_receive (reader_fn self) falsy (parser_fn self)"

section \<open>Sending\<close>

text \<open>
  The methods of the connection that \<^verbatim>\<open>MessageChannel\<close> uses, and its encoders. An encoder returns
  the raw form of a message or raises.
\<close>

record ('c, 'r) rw_ops =
  rw_read :: "('c, 'r) action"
  rw_write :: "'r \<Rightarrow> ('c, unit) action"
  rw_close :: "('c, unit) action"
  rw_broadcast :: "'r \<Rightarrow> ('c, unit) action"

record ('c, 'p, 'r, 'm) message_channel =
  ops_of :: "('c, 'r) rw_ops"
  msg_parser :: "('p, 'r, 'm) parser"
  encoder :: "'m \<Rightarrow> exn + 'r"

record ('c, 'p, 'r, 'm) broadcast_channel = "('c, 'p, 'r, 'm) message_channel" +
  broadcast_encoder :: "'m \<Rightarrow> exn + 'r"
  can_broadcast :: bool

definition of_result :: "exn + 'a \<Rightarrow> ('s, 'a) action" where
  [action_simps]: "of_result r = (case r of Inl e \<Rightarrow> throw e | Inr x \<Rightarrow> ret x)"

definition init_message_channel ::
  "('c, 'r) rw_ops \<Rightarrow> ('p, 'r, 'm) parser_arg \<Rightarrow> ('m \<Rightarrow> exn + 'r) \<Rightarrow> exn + ('c, 'p, 'r, 'm) message_channel" where
  "init_message_channel ops parser enc =
     (case parser_of_arg parser of
        Inl e \<Rightarrow> Inl e
      | Inr p \<Rightarrow> Inr \<lparr>ops_of = ops, msg_parser = p, encoder = enc\<rparr>)"

definition message_channel_aclose ::
  "('c, 'p, 'r, 'm, 'y) message_channel_scheme \<Rightarrow> (('c, 'p, 'm, 'z) inbound_scheme, unit) action" where
  "message_channel_aclose self = on_conn (rw_close (ops_of self))"

definition message_channel_read ::
  "('c, 'p, 'r, 'm, 'y) message_channel_scheme \<Rightarrow> ('r \<Rightarrow> bool) \<Rightarrow> (('c, 'p, 'm, 'z) inbound_scheme, unit) action" where
  "message_channel_read self falsy = channel_read (rw_read (ops_of self)) falsy (msg_parser self)"

definition message_channel_receive ::
  "('c, 'p, 'r, 'm, 'y) message_channel_scheme \<Rightarrow> ('r \<Rightarrow> bool) \<Rightarrow> ('c, 'p, 'm, 'z) inbound_scheme \<Rightarrow>
   ('m outcome \<times> ('c, 'p, 'm, 'z) inbound_scheme) option" where
  "message_channel_receive self falsy = channel_receive (rw_read (ops_of self)) falsy (msg_parser self)"

definition message_channel_send ::
  "('c, 'p, 'r, 'm, 'y) message_channel_scheme \<Rightarrow> 'm \<Rightarrow> (('c, 'p, 'm, 'z) inbound_scheme, unit) action" where
  "message_channel_send self value =
     and_then (of_result (encoder self value)) (\<lambda>raw. on_conn (rw_write (ops_of self) raw))"

text \<open>
  \<^verbatim>\<open>for_rpc_protocol\<close>: the parser and the encoder that another package makes of a protocol; the
  channel remembers the protocol. \<^verbatim>\<open>serve_rpc_requests\<close> of the channel starts a session with the
  request factory of its protocol, if it has one.
\<close>

definition for_rpc_protocol ::
  "('u \<Rightarrow> ('p, 'r, 'm) parser_arg) \<Rightarrow> ('u \<Rightarrow> 'm \<Rightarrow> exn + 'r) \<Rightarrow> 'u \<Rightarrow> ('c, 'r) rw_ops \<Rightarrow>
   exn + (('c, 'p, 'r, 'm) message_channel \<times> 'u option)" where
  "for_rpc_protocol create_rpc_parser create_rpc_encoder protocol connection =
     map_sum id (\<lambda>result. (result, Some protocol))
       (init_message_channel connection (create_rpc_parser protocol) (create_rpc_encoder protocol))"

definition channel_serve_rpc :: "('u \<Rightarrow> ('s, 'a) action) \<Rightarrow> 'b \<times> 'u option \<Rightarrow> ('s, 'a) action" where
  "channel_serve_rpc serve_rpc self =
     (case snd self of
        None \<Rightarrow> throw (ValueError ''MessageChannel was not created with .for_rpc_protocol()'')
      | Some protocol \<Rightarrow> serve_rpc protocol)"

text \<open>\<^verbatim>\<open>BroadcastMessageChannel\<close>: the capability is read once, at construction.\<close>

definition init_broadcast_channel ::
  "('c, 'r) rw_ops \<Rightarrow> bool \<Rightarrow> ('p, 'r, 'm) parser_arg \<Rightarrow> ('m \<Rightarrow> exn + 'r) \<Rightarrow> ('m \<Rightarrow> exn + 'r) \<Rightarrow>
   exn + ('c, 'p, 'r, 'm) broadcast_channel" where
  "init_broadcast_channel ops cap parser enc benc =
     (case init_message_channel ops parser enc of
        Inl e \<Rightarrow> Inl e
      | Inr ch \<Rightarrow> Inr (message_channel.extend ch \<lparr>broadcast_encoder = benc, can_broadcast = cap\<rparr>))"

definition channel_broadcast ::
  "('c, 'p, 'r, 'm) broadcast_channel \<Rightarrow> 'm \<Rightarrow> (('c, 'p, 'm, 'z) inbound_scheme, unit) action" where
  "channel_broadcast self value =
     and_then (of_result (broadcast_encoder self value))
       (\<lambda>encoded.
          if can_broadcast self then
            try_except (on_conn (rw_broadcast (ops_of self) encoded))
              (\<lambda>e. if e = NoBroadcastAddressError then ret () else throw e)
          else on_conn (rw_write (ops_of self) encoded))"

text \<open>
  \<^verbatim>\<open>EncoderChannel\<close>. A writer object has an async \<^verbatim>\<open>write\<close> method; what the constructor takes from
  it is its attribute \<^verbatim>\<open>writer\<close>, which it may lack.
\<close>

datatype ('c, 'r) writer_arg =
    WritableObject "'r \<Rightarrow> ('c, unit) action" "('r \<Rightarrow> ('c, unit) action) option" "('c, unit) action option"
  | AsyncWriter "'r \<Rightarrow> ('c, unit) action"
  | NotAWriter string

record ('c, 'r, 'm) encoder_channel =
  writer_fn :: "'r \<Rightarrow> ('c, unit) action"
  enc_closer :: "('c, unit) action option"
  enc_encoder :: "'m \<Rightarrow> exn + 'r"

definition init_encoder_channel ::
  "('c, 'r) writer_arg \<Rightarrow> ('m \<Rightarrow> exn + 'r) \<Rightarrow> exn + ('c, 'r, 'm) encoder_channel" where
  "init_encoder_channel writer enc =
     (case writer of
        WritableObject _ attr cl \<Rightarrow>
          (case attr of
             None \<Rightarrow> Inl (AttributeError ''writer'')
           | Some w \<Rightarrow> Inr \<lparr>writer_fn = w, enc_closer = cl, enc_encoder = enc\<rparr>)
      | AsyncWriter w \<Rightarrow> Inr \<lparr>writer_fn = w, enc_closer = None, enc_encoder = enc\<rparr>
      | NotAWriter t \<Rightarrow> Inl (TypeError (''WritableConnection or async function expected, got '' @ t)))"

definition encoder_channel_aclose :: "('c, 'r, 'm) encoder_channel \<Rightarrow> ('c, unit) action" where
  "encoder_channel_aclose self = (case enc_closer self of Some cl \<Rightarrow> cl | None \<Rightarrow> ret ())"

definition encoder_channel_send :: "('c, 'r, 'm) encoder_channel \<Rightarrow> 'm \<Rightarrow> ('c, unit) action" where
  "encoder_channel_send self value =
     and_then (of_result (enc_encoder self value)) (writer_fn self)"

section \<open>Packet loss\<close>

text \<open>
  \<^verbatim>\<open>LossyChannelWrapper\<close>. The random numbers come from a generator: \<open>random\<close> takes its state to a
  number and the next state. The numbers are of any linearly ordered type; the wrapper only
  compares them with the loss probability. The state of the wrapper is that of the wrapped
  channel and that of the generator.
\<close>

definition lossy_send ::
  "('v \<Rightarrow> ('s, unit) action) \<Rightarrow> ('g \<Rightarrow> 'f::linorder \<times> 'g) \<Rightarrow> 'f \<Rightarrow> 'v \<Rightarrow> ('s \<times> 'g, unit) action" where
  "lossy_send send random loss_probability value =
     (\<lambda>(s, g). case random g of (x, g') \<Rightarrow>
        if loss_probability \<le> x then (case send value s of (r, s') \<Rightarrow> (r, (s', g')))
        else (Returns (), (s, g')))"

definition lossy_aclose :: "('s, unit) action \<Rightarrow> ('s \<times> 'g, unit) action" where
  "lossy_aclose close = (\<lambda>(s, g). case close s of (r, s') \<Rightarrow> (r, (s', g)))"

partial_function (option) lossy_receive ::
  "('s \<Rightarrow> ('m outcome \<times> 's) option) \<Rightarrow> ('g \<Rightarrow> 'f::linorder \<times> 'g) \<Rightarrow> 'f \<Rightarrow> 's \<times> 'g \<Rightarrow>
   ('m outcome \<times> 's \<times> 'g) option" where
  "lossy_receive receive random loss_probability st =
     Option.bind (receive (fst st)) (\<lambda>(r, s').
       case r of
         Returns m \<Rightarrow>
           (case random (snd st) of (x, g') \<Rightarrow>
              if loss_probability \<le> x then Some (Returns m, (s', g'))
              else lossy_receive receive random loss_probability (s', g'))
       | Raises e \<Rightarrow> Some (Raises e, (s', snd st))
       | Blocks \<Rightarrow> Some (Blocks, (s', snd st)))"

text \<open>The wrapper's attributes, and its construction with the default of one message in ten.\<close>

record ('x, 'g, 'f) lossy_channel =
  wrapped_channel :: 'x
  loss_probability :: 'f
  random_source :: "'g \<Rightarrow> 'f \<times> 'g"

definition init_lossy_channel :: "'x \<Rightarrow> 'f::field option \<Rightarrow> ('g \<Rightarrow> 'f \<times> 'g) \<Rightarrow> ('x, 'g, 'f) lossy_channel" where
  "init_lossy_channel channel p random =
     \<lparr>wrapped_channel = channel, loss_probability = (case p of None \<Rightarrow> 1 / 10 | Some q \<Rightarrow> q), random_source = random\<rparr>"

definition create_lossy_channel :: "'x \<Rightarrow> 'f::field option \<Rightarrow> ('g \<Rightarrow> 'f \<times> 'g) \<Rightarrow> ('x, 'g, 'f) lossy_channel" where
  "create_lossy_channel channel p random = init_lossy_channel channel p random"

section \<open>Reading a channel to its end\<close>

text \<open>
  \<^verbatim>\<open>async for message in channel\<close>: the messages, in order, and how the loop ended. The loop
  takes \<^verbatim>\<open>EndOfChannel\<close> for its end and lets every other exception through.
\<close>

partial_function (option) drain ::
  "('s \<Rightarrow> ('m outcome \<times> 's) option) \<Rightarrow> 's \<Rightarrow> ('m list \<times> unit outcome) option" where
  "drain receive s =
     Option.bind (receive s) (\<lambda>(r, s').
       case r of
         Returns m \<Rightarrow> Option.bind (drain receive s') (\<lambda>(ms, q). Some (m # ms, q))
       | Raises e \<Rightarrow> Some ([], if e = EndOfChannel then Returns () else Raises e)
       | Blocks \<Rightarrow> Some ([], Blocks))"

section \<open>The contracts\<close>

text \<open>
  A source of messages: what is still to come out of it is a list of events, each a message or
  an exception, and \<open>receive\<close> delivers them in order; after the last one it raises
  \<^verbatim>\<open>EndOfChannel\<close>. Nothing is promised after that.
\<close>

fun delivered :: "(exn + 'm) list \<Rightarrow> 'm list \<times> unit outcome" where
  "delivered [] = ([], Returns ())"
| "delivered (Inl e # es) = ([], if e = EndOfChannel then Returns () else Raises e)"
| "delivered (Inr m # es) = map_prod (Cons m) id (delivered es)"

locale message_source =
  fixes receive :: "'s \<Rightarrow> ('m outcome \<times> 's) option"
    and ready :: "'s \<Rightarrow> bool"
    and remaining :: "'s \<Rightarrow> (exn + 'm) list"
  assumes next_message: "ready s \<Longrightarrow> remaining s = Inr m # es \<Longrightarrow>
      \<exists>s'. receive s = Some (Returns m, s') \<and> ready s' \<and> remaining s' = es"
    and next_error: "ready s \<Longrightarrow> remaining s = Inl e # es \<Longrightarrow>
      \<exists>s'. receive s = Some (Raises e, s') \<and> ready s' \<and> remaining s' = es"
    and at_end: "ready s \<Longrightarrow> remaining s = [] \<Longrightarrow> \<exists>s'. receive s = Some (Raises EndOfChannel, s')"
begin

lemma drain_delivers: "ready s \<Longrightarrow> drain receive s = Some (delivered (remaining s))"
proof (induction "remaining s" arbitrary: s)
  case Nil
  then show ?case using at_end[of s] by (subst drain.simps) auto
next
  case (Cons ev es)
  show ?case
  proof (cases ev)
    case (Inl e)
    then show ?thesis using next_error[of s e es] Cons.prems Cons.hyps(2)[symmetric]
      by (subst drain.simps) auto
  next
    case (Inr m)
    then obtain s' where "receive s = Some (Returns m, s')" "ready s'" "remaining s' = es"
      using next_message[of s m es] Cons.prems Cons.hyps(2) by auto
    then show ?thesis using Cons.hyps(1)[of s'] Inr Cons.hyps(2)[symmetric]
      by (subst drain.simps) (auto split: prod.split simp: map_prod_def)
  qed
qed

end

text \<open>Losing packets: every message is kept or dropped by a draw; exceptions take no draw.\<close>

fun thin :: "('g \<Rightarrow> 'f::linorder \<times> 'g) \<Rightarrow> 'f \<Rightarrow> 'g \<Rightarrow> (exn + 'm) list \<Rightarrow> (exn + 'm) list" where
  "thin random p g [] = []"
| "thin random p g (Inl e # es) = Inl e # thin random p g es"
| "thin random p g (Inr m # es) =
     (case random g of (x, g') \<Rightarrow> if p \<le> x then Inr m # thin random p g' es else thin random p g' es)"

context message_source begin

lemma lossy_message:
  "ready s \<Longrightarrow> thin random p g (remaining s) = Inr m # es \<Longrightarrow>
    \<exists>s' g'. lossy_receive receive random p (s, g) = Some (Returns m, (s', g')) \<and>
      ready s' \<and> thin random p g' (remaining s') = es"
proof (induction "remaining s" arbitrary: s g)
  case (Cons ev evs)
  from Cons.prems Cons.hyps(2)[symmetric] obtain n where ev: "ev = Inr n"
    by (cases ev) auto
  obtain s' where s': "receive s = Some (Returns n, s')" "ready s'" "remaining s' = evs"
    using next_message[of s n evs] Cons.prems(1) Cons.hyps(2) ev by auto
  obtain x g' where r: "random g = (x, g')" by (cases "random g")
  show ?case
  proof (cases "p \<le> x")
    case True
    then show ?thesis using s' r Cons.prems(2) Cons.hyps(2)[symmetric] ev
      by (subst lossy_receive.simps) auto
  next
    case False
    then have "thin random p g' (remaining s') = Inr m # es"
      using s' r Cons.prems(2) Cons.hyps(2)[symmetric] ev by auto
    then show ?thesis using Cons.hyps(1)[of s' g'] s' r False
      by (subst lossy_receive.simps) auto
  qed
qed simp

lemma lossy_error:
  "ready s \<Longrightarrow> thin random p g (remaining s) = Inl e # es \<Longrightarrow>
    \<exists>s' g'. lossy_receive receive random p (s, g) = Some (Raises e, (s', g')) \<and>
      ready s' \<and> thin random p g' (remaining s') = es"
proof (induction "remaining s" arbitrary: s g)
  case (Cons ev evs)
  show ?case
  proof (cases ev)
    case (Inl f)
    then show ?thesis using next_error[of s f evs] Cons.prems Cons.hyps(2)[symmetric]
      by (subst lossy_receive.simps) auto
  next
    case (Inr n)
    obtain s' where s': "receive s = Some (Returns n, s')" "ready s'" "remaining s' = evs"
      using next_message[of s n evs] Cons.prems(1) Cons.hyps(2) Inr by auto
    obtain x g' where r: "random g = (x, g')" by (cases "random g")
    have "\<not> p \<le> x" and "thin random p g' (remaining s') = Inl e # es"
      using s' r Cons.prems(2) Cons.hyps(2)[symmetric] Inr by (auto split: if_splits)
    then show ?thesis using Cons.hyps(1)[of s' g'] s' r
      by (subst lossy_receive.simps) auto
  qed
qed simp

lemma lossy_end:
  "ready s \<Longrightarrow> thin random p g (remaining s) = [] \<Longrightarrow>
    \<exists>t. lossy_receive receive random p (s, g) = Some (Raises EndOfChannel, t)"
proof (induction "remaining s" arbitrary: s g)
  case Nil
  then show ?case using at_end[of s] by (subst lossy_receive.simps) auto
next
  case (Cons ev evs)
  from Cons.prems Cons.hyps(2)[symmetric] obtain n where ev: "ev = Inr n"
    by (cases ev) auto
  obtain s' where s': "receive s = Some (Returns n, s')" "ready s'" "remaining s' = evs"
    using next_message[of s n evs] Cons.prems(1) Cons.hyps(2) ev by auto
  obtain x g' where r: "random g = (x, g')" by (cases "random g")
  have "\<not> p \<le> x" "thin random p g' (remaining s') = []"
    using s' r Cons.prems(2) Cons.hyps(2)[symmetric] ev by (auto split: if_splits)
  then show ?case using Cons.hyps(1)[of s' g'] s' r
    by (subst lossy_receive.simps) auto
qed

lemma lossy_source:
  "message_source (lossy_receive receive random p) (ready \<circ> fst)
     (\<lambda>(s, g). thin random p g (remaining s))"
proof (unfold_locales, goal_cases)
  case (1 s m es)
  then show ?case using lossy_message[of "fst s" random p "snd s" m es] by (cases s) auto
next
  case (2 s e es)
  then show ?case using lossy_error[of "fst s" random p "snd s" e es] by (cases s) auto
next
  case (3 s)
  then show ?case using lossy_end[of "fst s" random p "snd s"] by (cases s) auto
qed

end

text \<open>
  A source of raw data: the pieces \<open>script c\<close> come out of \<open>rd\<close> one by one, none of them falsy;
  then a falsy piece or \<^verbatim>\<open>EndOfChannel\<close>.
\<close>

locale chunk_source =
  fixes rd :: "('c, 'r) action"
    and falsy :: "'r \<Rightarrow> bool"
    and live :: "'c \<Rightarrow> bool"
    and script :: "'c \<Rightarrow> 'r list"
  assumes chunk: "live c \<Longrightarrow> script c = d # ds \<Longrightarrow>
      \<exists>c'. rd c = (Returns d, c') \<and> \<not> falsy d \<and> live c' \<and> script c' = ds"
    and finish: "live c \<Longrightarrow> script c = [] \<Longrightarrow>
      \<exists>c'. (\<exists>d. rd c = (Returns d, c') \<and> falsy d) \<or> rd c = (Raises EndOfChannel, c')"

text \<open>
  The events of the pieces. When the parser raises while it works on a piece, the exception
  comes out of \<open>receive\<close> first, before the messages it had yielded from this piece.
\<close>

fun parse_events :: "('p, 'r, 'm) parser \<Rightarrow> 'p \<Rightarrow> 'r list \<Rightarrow> (exn + 'm) list" where
  "parse_events parse p [] = []"
| "parse_events parse p (d # ds) =
     (case parse d p of ((ms, failure), p') \<Rightarrow>
        (case failure of None \<Rightarrow> [] | Some e \<Rightarrow> [Inl e]) @ map Inr ms @ parse_events parse p' ds)"

definition channel_events ::
  "('p, 'r, 'm) parser \<Rightarrow> ('c \<Rightarrow> 'r list) \<Rightarrow> ('c, 'p, 'm, 'z) inbound_scheme \<Rightarrow> (exn + 'm) list" where
  "channel_events parse script ch =
     map Inr (pending ch) @ parse_events parse (parser_of ch) (script (conn_of ch))"

context chunk_source begin

lemma receive_pending:
  "pending ch = m # ms \<Longrightarrow> channel_receive rd falsy parse ch = Some (Returns m, ch\<lparr>pending := ms\<rparr>)"
  by (subst channel_receive.simps) simp

lemma receive_step:
  assumes "pending ch = []" and "live (conn_of ch)" and "script (conn_of ch) = d # ds"
    and "parse d (parser_of ch) = ((ms, failure), p)"
  shows "\<exists>c'. live c' \<and> script c' = ds \<and>
    channel_receive rd falsy parse ch =
      (let ch' = ch\<lparr>conn_of := c', parser_of := p, pending := ms\<rparr>
       in case failure of Some e \<Rightarrow> Some (Raises e, ch') | None \<Rightarrow> channel_receive rd falsy parse ch')"
proof -
  obtain c' where c': "rd (conn_of ch) = (Returns d, c')" "\<not> falsy d" "live c'" "script c' = ds"
    using chunk[OF assms(2,3)] by blast
  show ?thesis
    by (intro exI[of _ c'], subst channel_receive.simps)
      (use c' assms in \<open>auto simp: channel_read_def on_conn_def extend_pending_def action_simps
        split: option.split\<close>)
qed

lemma receive_eof:
  assumes "pending ch = []" and "live (conn_of ch)" and "script (conn_of ch) = []"
  shows "\<exists>ch'. channel_receive rd falsy parse ch = Some (Raises EndOfChannel, ch')"
proof -
  obtain c' where "(\<exists>d. rd (conn_of ch) = (Returns d, c') \<and> falsy d) \<or>
      rd (conn_of ch) = (Raises EndOfChannel, c')"
    using finish[OF assms(2,3)] by blast
  then show ?thesis
    by (intro exI[of _ "ch\<lparr>conn_of := c'\<rparr>"], subst channel_receive.simps)
      (auto simp: assms(1) channel_read_def on_conn_def action_simps)
qed

lemma receive_events:
  "live (conn_of ch) \<Longrightarrow>
    (case channel_events parse script ch of
       [] \<Rightarrow> \<exists>ch'. channel_receive rd falsy parse ch = Some (Raises EndOfChannel, ch')
     | ev # evs \<Rightarrow> \<exists>ch'. channel_receive rd falsy parse ch =
          Some (case ev of Inl e \<Rightarrow> Raises e | Inr m \<Rightarrow> Returns m, ch') \<and>
         live (conn_of ch') \<and> channel_events parse script ch' = evs)"
proof (induction "script (conn_of ch)" arbitrary: ch)
  case Nil
  show ?case
  proof (cases "pending ch")
    case pn: Nil
    then show ?thesis using receive_eof[of ch parse] Nil by (simp add: channel_events_def)
  next
    case (Cons m ms)
    then show ?thesis using receive_pending[OF Cons, of parse] Nil.prems Nil.hyps[symmetric]
      by (auto simp: channel_events_def)
  qed
next
  case (Cons d ds)
  show ?case
  proof (cases "pending ch")
    case pn: Nil
    obtain ms failure p where pr: "parse d (parser_of ch) = ((ms, failure), p)"
      by (metis surj_pair)
    obtain c' where c': "live c'" "script c' = ds" and rc: "channel_receive rd falsy parse ch =
      (let ch' = ch\<lparr>conn_of := c', parser_of := p, pending := ms\<rparr>
       in case failure of Some e \<Rightarrow> Some (Raises e, ch') | None \<Rightarrow> channel_receive rd falsy parse ch')"
      using receive_step[where parse = parse, OF pn Cons.prems Cons.hyps(2)[symmetric] pr] by blast
    let ?ch = "ch\<lparr>conn_of := c', parser_of := p, pending := ms\<rparr>"
    show ?thesis
    proof (cases failure)
      case None
      have "channel_receive rd falsy parse ch = channel_receive rd falsy parse ?ch"
        "channel_events parse script ch = channel_events parse script ?ch"
        using rc None pn pr Cons.hyps(2)[symmetric] c' by (simp_all add: channel_events_def)
      then show ?thesis using Cons.hyps(1)[of ?ch] c' by (simp only:) simp
    next
      case (Some e)
      then show ?thesis using rc pn pr Cons.hyps(2)[symmetric] c'
        by (auto simp: channel_events_def Let_def)
    qed
  next
    case pc: (Cons m ms)
    then show ?thesis using receive_pending[OF pc, of parse] Cons.prems by (auto simp: channel_events_def)
  qed
qed

lemma channel_source:
  "message_source (channel_receive rd falsy parse) (live \<circ> conn_of) (channel_events parse script)"
proof (unfold_locales, goal_cases)
  case (1 s m es)
  then show ?case using receive_events[of s parse] by auto
next
  case (2 s e es)
  then show ?case using receive_events[of s parse] by auto
next
  case (3 s)
  then show ?case using receive_events[of s parse] by auto
qed

end

section \<open>Providers\<close>

text \<open>
  A stream connection is a source of raw data when its stream yields pieces and then the empty
  bytes that stand for the end of the file.
\<close>

definition stream_live :: "'st stream_connection \<Rightarrow> bool" where
  "stream_live c \<longleftrightarrow> conn_state c = CONNECTED \<and> stream c \<noteq> None"

definition stream_script :: "('st \<Rightarrow> bytes list) \<Rightarrow> 'st stream_connection \<Rightarrow> bytes list" where
  "stream_script contents c = contents (the (stream c))"

locale byte_stream =
  fixes ops :: "'st stream_ops"
    and sz :: "int option"
    and contents :: "'st \<Rightarrow> bytes list"
  assumes receive_chunk: "contents st = d # ds \<Longrightarrow>
      \<exists>st'. receive_some ops sz st = (Returns d, st') \<and> d \<noteq> [] \<and> contents st' = ds"
    and receive_eof: "contents st = [] \<Longrightarrow>
      \<exists>st' st''. receive_some ops sz st = (Returns [], st') \<and> aclose ops st' = (Returns (), st'')"
begin

lemma stream_source:
  "chunk_source (stream_read ops sz) (\<lambda>data. data = []) stream_live (stream_script contents)"
proof (unfold_locales, goal_cases)
  case (1 c d ds)
  then obtain st where st: "conn_state c = CONNECTED" "stream c = Some st" "contents st = d # ds"
    by (auto simp: stream_live_def stream_script_def)
  then obtain st' where st': "receive_some ops sz st = (Returns d, st')" "d \<noteq> []" "contents st' = ds"
    using receive_chunk by blast
  then show ?case using read_returns[of c st ops sz d st', OF st(2) st'(1)] st(1)
    by (intro exI[of _ "c\<lparr>stream := Some st'\<rparr>"]) (simp add: stream_live_def stream_script_def)
next
  case (2 c)
  then obtain st where st: "conn_state c = CONNECTED" "stream c = Some st" "contents st = []"
    by (auto simp: stream_live_def stream_script_def)
  then obtain st' st'' where st': "receive_some ops sz st = (Returns [], st')" "aclose ops st' = (Returns (), st'')"
    using receive_eof by blast
  have "conn_state (c\<lparr>stream := Some st'\<rparr>) = CONNECTED" using st(1) by simp
  from close_connected[OF this _ st'(2)] obtain d
    where "close_stream_connection ops (c\<lparr>stream := Some st'\<rparr>) = (Returns (), d)" by auto
  then show ?case using read_returns[OF st(2) st'(1)]
    by (intro exI[of _ d] disjI1 exI[of _ "[]"]) (simp add: action_simps)
qed

end

sublocale byte_stream \<subseteq> stream: chunk_source "stream_read ops sz" "\<lambda>data. data = []" stream_live
  "stream_script contents"
  by (rule stream_source)

text \<open>A stream that plays back a list of pieces up to the first empty one.\<close>

definition replay_ops :: "bytes list stream_ops" where
  "replay_ops =
     \<lparr>receive_some = (\<lambda>_ st. case st of [] \<Rightarrow> (Returns [], []) | d # ds \<Rightarrow> (Returns d, ds)),
      send_all = (\<lambda>_ st. (Returns (), st)), aclose = (\<lambda>st. (Returns (), st))\<rparr>"

definition replay_contents :: "bytes list \<Rightarrow> bytes list" where
  "replay_contents st = takeWhile (\<lambda>d. d \<noteq> []) st"

interpretation replay: byte_stream replay_ops sz replay_contents
proof (unfold_locales, goal_cases)
  case (1 st d ds)
  then show ?case by (cases st) (auto simp: replay_ops_def replay_contents_def split: if_splits)
next
  case (2 st)
  then show ?case by (cases st) (auto simp: replay_ops_def replay_contents_def split: if_splits)
qed

text \<open>Parser channels over it are sources of messages, and so are lossy wrappers of these.\<close>

interpretation parsed: message_source
  "channel_receive (stream_read replay_ops sz) (\<lambda>data. data = []) parse"
  "stream_live \<circ> conn_of" "channel_events parse (stream_script replay_contents)"
  by (rule replay.stream.channel_source)

interpretation lossy: message_source
  "lossy_receive (channel_receive (stream_read replay_ops sz) (\<lambda>data. data = []) parse) random p"
  "(stream_live \<circ> conn_of) \<circ> fst"
  "\<lambda>(ch, g). thin random p g (channel_events parse (stream_script replay_contents) ch)"
  by (rule parsed.lossy_source)

section \<open>Lemmas\<close>

text \<open>What a parser that does not raise makes of the pieces.\<close>

fun parse_all :: "('p, 'r, 'm) parser \<Rightarrow> 'p \<Rightarrow> 'r list \<Rightarrow> 'm list" where
  "parse_all parse p [] = []"
| "parse_all parse p (d # ds) = (case parse d p of ((ms, _), p') \<Rightarrow> ms @ parse_all parse p' ds)"

lemma parse_events_quiet:
  "\<forall>d p. snd (fst (parse d p)) = None \<Longrightarrow>
    parse_events parse p ds = map Inr (parse_all parse p ds)"
proof (induction ds arbitrary: p)
  case (Cons d ds)
  obtain ms f p' where pr: "parse d p = ((ms, f), p')" by (metis surj_pair)
  then have "f = None" using Cons.prems by (metis fst_conv snd_conv)
  then show ?case using Cons pr by simp
qed simp

lemma delivered_messages [simp]: "delivered (map Inr ms) = (ms, Returns ())"
  by (induction ms) simp_all

lemma subseq_thin: "subseq (thin random p g es) es"
  by (induction random p g es rule: thin.induct) (auto split: prod.split)

lemma thin_lossless: "\<forall>g. p \<le> fst (random g) \<Longrightarrow> thin random p g es = es"
  by (induction random p g es rule: thin.induct) (auto split: prod.split, metis fst_conv)

lemma thin_lost: "\<forall>g. fst (random g) < p \<Longrightarrow> thin random p g es = filter isl es"
  by (induction random p g es rule: thin.induct) (auto split: prod.split, metis fst_conv not_le)

section \<open>Properties\<close>

text \<open>
  C5. No message is lost, invented or reordered. Reading a parser channel to its end, on a
  connection that yields some pieces of data and then ends, gives the messages that were
  waiting in the channel followed by all that the parser makes of the pieces, in order, and the
  loop ends normally; a parser that does not raise is enough for that.
\<close>

theorem channel_delivers_all:
  assumes src: "chunk_source rd falsy live script" and live: "live (conn_of ch)"
    and init: "init_parser_channel (ReadableObject rd cl) parser = Inr self"
    and quiet: "\<forall>d p. snd (fst (parser_fn self d p)) = None"
  shows "drain (parser_channel_receive self falsy) ch =
    Some (pending ch @ parse_all (parser_fn self) (parser_of ch) (script (conn_of ch)), Returns ())"
proof -
  have rd: "reader_fn self = rd" using init
    by (auto simp: init_parser_channel_def split: sum.splits)
  note m = chunk_source.channel_source[OF src]
  have "channel_events (parser_fn self) script ch =
      map Inr (pending ch @ parse_all (parser_fn self) (parser_of ch) (script (conn_of ch)))"
    by (simp add: channel_events_def parse_events_quiet[OF quiet])
  then show ?thesis
    using message_source.drain_delivers[OF m, of ch "parser_fn self"] live
    by (simp only: parser_channel_receive_def rd comp_apply delivered_messages)
qed

text \<open>
  An exception of the parser overtakes the messages it had yielded from the same data: this
  \<^verbatim>\<open>receive()\<close> raises it, the messages stay in the channel, and the next \<^verbatim>\<open>receive()\<close> returns
  the first of them without reading from the connection.
\<close>

theorem parser_error_overtakes:
  assumes src: "chunk_source rd falsy live script" "live (conn_of ch)" "script (conn_of ch) = d # ds"
    and pn: "pending ch = []" and parse: "parse d (parser_of ch) = ((ms, Some e), p)"
  shows "\<exists>ch'. channel_receive rd falsy parse ch = Some (Raises e, ch') \<and> pending ch' = ms \<and>
    script (conn_of ch') = ds \<and>
    (\<forall>m ms'. ms = m # ms' \<longrightarrow>
       channel_receive rd falsy parse ch' = Some (Returns m, ch'\<lparr>pending := ms'\<rparr>))"
proof -
  note step = chunk_source.receive_step[where parse = parse, OF src(1) pn src(2,3) parse]
  show ?thesis using step by (auto simp: Let_def chunk_source.receive_pending[OF src(1)])
qed

text \<open>
  The lossy wrapper, over any source of messages: a loop over it gets the messages of the
  source but for those whose draw fell below the loss probability, in their order, and ends as
  the loop over the source does, exceptions being never lost. Nothing is lost when every draw
  reaches the probability; every message is when none does, and the loop still ends.
\<close>

theorem lossy_channel_thins:
  assumes "message_source receive ready remaining" and "ready s"
  shows "drain (lossy_receive receive random p) (s, g) = Some (delivered (thin random p g (remaining s))) \<and>
    subseq (thin random p g (remaining s)) (remaining s) \<and>
    ((\<forall>g. p \<le> fst (random g)) \<longrightarrow> thin random p g (remaining s) = remaining s) \<and>
    ((\<forall>g. fst (random g) < p) \<longrightarrow> thin random p g (remaining s) = filter isl (remaining s))"
  using message_source.drain_delivers[OF message_source.lossy_source[OF assms(1)], of "(s, g)"]
    assms(2) subseq_thin thin_lossless thin_lost by auto

text \<open>
  Broadcasting. A missing broadcast address is never reported by a connection that can
  broadcast: \<^verbatim>\<open>broadcast()\<close> then returns normally. Every other outcome of the connection's own
  broadcast comes through, and a connection that cannot broadcast gets a plain write.
\<close>

theorem broadcast_outcome:
  assumes "init_broadcast_channel ops cap parser enc benc = Inr self" and "benc value = Inr raw"
  shows "fst (channel_broadcast self value ch) =
    (if cap then
       (if fst (rw_broadcast ops raw (conn_of ch)) = Raises NoBroadcastAddressError then Returns ()
        else fst (rw_broadcast ops raw (conn_of ch)))
     else fst (rw_write ops raw (conn_of ch)))"
proof -
  have self: "broadcast_encoder self = benc" "can_broadcast self = cap" "ops_of self = ops"
    using assms(1)
    by (auto simp: init_broadcast_channel_def init_message_channel_def message_channel.extend_def
        split: sum.splits)
  show ?thesis
    by (auto simp: channel_broadcast_def self assms(2) action_simps on_conn_def
        split: prod.split outcome.split)
qed

text \<open>
  \<^verbatim>\<open>EncoderChannel\<close> over a connection object that has \<^verbatim>\<open>write\<close> but no attribute \<^verbatim>\<open>writer\<close>, as
  every connection of the package, cannot be constructed; over an async function it can, and
  then writes the encoding of each value, or raises the encoder's exception and writes nothing.
\<close>

theorem encoder_channel_construction:
  "init_encoder_channel (WritableObject wr None cl) enc = Inl (AttributeError ''writer'') \<and>
   (\<exists>self. init_encoder_channel (AsyncWriter w) enc = Inr self \<and>
     encoder_channel_send self value c =
       (case enc value of Inl e \<Rightarrow> (Raises e, c) | Inr raw \<Rightarrow> w raw c) \<and>
     encoder_channel_aclose self c = (Returns (), c))"
  by (auto simp: init_encoder_channel_def encoder_channel_send_def encoder_channel_aclose_def
      action_simps split: sum.split)

section \<open>Witnesses\<close>

text \<open>A connected stream with two pieces, and the parser whose messages are the bytes.\<close>

definition two_pieces :: "(bytes list stream_connection, unit, 8 word) inbound" where
  "two_pieces = \<lparr>conn_of = set_state CONNECTED (init_stream_connection\<lparr>stream := Some [[1, 2], [3]]\<rparr>),
     parser_of = (), pending = [7]\<rparr>"

definition byte_parser :: "(unit, bytes, 8 word) parser" where
  "byte_parser d p = ((d, None), p)"

definition failing_parser :: "(unit, bytes, 8 word) parser" where
  "failing_parser d p = ((d, Some (ValueError ''junk'')), p)"

definition byte_channel :: "(bytes list stream_connection, unit, bytes, 8 word) parser_channel" where
  "byte_channel = \<lparr>reader_fn = stream_read replay_ops None, closer_fn = None, parser_fn = byte_parser\<rparr>"

lemma two_pieces_simps:
  "stream_live (conn_of two_pieces)" "pending two_pieces = [7]"
  "stream_script replay_contents (conn_of two_pieces) = [[1, 2], [3]]"
  by (simp_all add: two_pieces_def stream_live_def stream_script_def replay_contents_def)

theorem channel_delivers_all_witness:
  "drain (parser_channel_receive byte_channel (\<lambda>data. data = [])) two_pieces =
    Some ([7, 1, 2, 3], Returns ())"
proof -
  have "init_parser_channel (ReadableObject (stream_read replay_ops None) None) (CallableParser byte_parser) = Inr byte_channel"
    by (simp add: init_parser_channel_def parser_of_arg_def byte_channel_def)
  from channel_delivers_all[OF replay.stream.chunk_source_axioms two_pieces_simps(1) this]
  show ?thesis by (simp add: byte_channel_def byte_parser_def two_pieces_simps)
qed

theorem parser_error_overtakes_witness:
  "\<exists>ch'. channel_receive (stream_read replay_ops None) (\<lambda>data. data = []) failing_parser
      (two_pieces\<lparr>pending := []\<rparr>) = Some (Raises (ValueError ''junk''), ch') \<and> pending ch' = [1, 2]"
  using parser_error_overtakes[OF replay.stream.chunk_source_axioms, of "two_pieces\<lparr>pending := []\<rparr>"
      "[1, 2]" "[[3]]" failing_parser "[1, 2]" "ValueError ''junk''" "()"]
  by (auto simp: two_pieces_simps failing_parser_def)

text \<open>A generator that alternates between 0 and 1: with probability 1 every other message is lost.\<close>

definition alternating :: "nat \<Rightarrow> nat \<times> nat" where
  "alternating g = (g mod 2, Suc g)"

theorem lossy_channel_thins_witness:
  "drain (lossy_receive (channel_receive (stream_read replay_ops None) (\<lambda>data. data = []) byte_parser)
      alternating 1) (two_pieces, 0) = Some ([1, 3], Returns ())"
  using lossy_channel_thins[OF parsed.message_source_axioms[of None byte_parser], of two_pieces alternating 1 0]
  by (simp add: two_pieces_simps channel_events_def byte_parser_def alternating_def)

definition no_address_ops :: "(nat, bytes) rw_ops" where
  "no_address_ops = \<lparr>rw_read = block, rw_write = (\<lambda>_ n. (Returns (), Suc n)), rw_close = ret (),
     rw_broadcast = (\<lambda>_. throw NoBroadcastAddressError)\<rparr>"

theorem broadcast_outcome_witness:
  "\<exists>self. init_broadcast_channel no_address_ops True (CallableParser byte_parser)
      (\<lambda>m. Inr [m]) (\<lambda>m. Inr [m]) = Inr self \<and>
    fst (channel_broadcast self 5 \<lparr>conn_of = 0, parser_of = (), pending = []\<rparr>) = Returns ()"
proof -
  obtain self where self: "init_broadcast_channel no_address_ops True (CallableParser byte_parser)
      (\<lambda>m. Inr [m]) (\<lambda>m. Inr [m]) = Inr self"
    by (simp add: init_broadcast_channel_def init_message_channel_def parser_of_arg_def)
  show ?thesis
    using self broadcast_outcome[OF self, of 5 "[5]"]
    by (simp add: no_address_ops_def action_simps)
qed

end
