(* ===== verification/Rpc.thy ===== *)
theory Rpc
  imports Prelude
begin

text \<open>
  \<^verbatim>\<open>channels/rpc.py\<close>: the handling of one inbound message, the loop over a channel, and the sending
  of a request.

  The map of pending requests is \<^verbatim>\<open>FutureMap\<close> of another package. The record \<open>future_ops\<close> holds what
  the code calls of it, over a state \<open>'m\<close>; \<open>future_laws\<close> says what the code relies on: a new
  future is pending, one that is resolved keeps its outcome, and futures of other keys are left
  alone. Messages are those of \<^verbatim>\<open>tinyrpc\<close>: a request \<open>'q\<close>, a response with a result \<open>'r\<close>, an error
  \<open>'e\<close>. The request handler is the caller's: it returns a response or \<^verbatim>\<open>None\<close>, or raises.
\<close>

section \<open>Messages and state\<close>

text \<open>\<^verbatim>\<open>unique_id\<close> of a message: the protocol decides whether it is a number or a string.\<close>

datatype rpc_id = IntId int | StrId string

fun digit :: "nat \<Rightarrow> char" where
  "digit n = char_of (48 + n)"

fun str_nat :: "nat \<Rightarrow> string" where
  "str_nat n = (if n < 10 then [digit n] else str_nat (n div 10) @ [digit (n mod 10)])"

declare str_nat.simps [simp del]

text \<open>\<^verbatim>\<open>str(request_id)\<close>.\<close>

fun str_id :: "rpc_id \<Rightarrow> string" where
  "str_id (IntId n) = (if n < 0 then CHR ''-'' # str_nat (nat (- n)) else str_nat (nat n))"
| "str_id (StrId s) = s"

datatype error_member = ErrorDict "int option" "string option" | ErrorOther string

datatype 'e rpc_error = RPCError int string | PeerError 'e

text \<open>The last two arguments of a response: its \<^verbatim>\<open>error\<close> attribute, if it has one, and its result.\<close>

datatype ('q, 'r, 'e) message =
    Request bool 'q
  | ErrorResponse rpc_id error_member
  | Response rpc_id "'e option" 'r
  | Unknown

datatype ('r, 'e) future = Pending | Resolved 'r | Failed "'e rpc_error"

record ('m, 'r, 'e) future_ops =
  fut_new :: "rpc_id \<Rightarrow> 'm \<Rightarrow> 'm"
  fut_get :: "rpc_id \<Rightarrow> 'm \<Rightarrow> ('r, 'e) future option"
  fut_set :: "rpc_id \<Rightarrow> ('r, 'e) future \<Rightarrow> 'm \<Rightarrow> 'm"

definition future_laws :: "('m, 'r, 'e) future_ops \<Rightarrow> bool" where
  "future_laws ops \<longleftrightarrow>
     (\<forall>i m. fut_get ops i (fut_new ops i m) = Some Pending) \<and>
     (\<forall>i j m. i \<noteq> j \<longrightarrow> fut_get ops j (fut_new ops i m) = fut_get ops j m) \<and>
     (\<forall>i f m. fut_get ops i m = Some Pending \<longrightarrow> fut_get ops i (fut_set ops i f m) = Some f) \<and>
     (\<forall>i j f m. i \<noteq> j \<longrightarrow> fut_get ops j (fut_set ops i f m) = fut_get ops j m)"

datatype warning =
    DuplicateErrorResponse rpc_id
  | StaleErrorResponse rpc_id
  | DuplicateResponse rpc_id
  | StaleResponse rpc_id
  | UnknownMessageType

text \<open>
  \<open>outbox\<close> is what has gone into the outbound queue, responses \<open>'p\<close> and requests alike;
  \<open>queue_closed\<close> tells that its sending end is closed, \<open>scope_cancelled\<close> that the user's tasks are.
\<close>

record ('m, 'p) rpc_state =
  pending :: 'm
  outbox :: "'p list"
  has_log :: bool
  warnings :: "warning list"
  queue_closed :: bool
  scope_cancelled :: bool

section \<open>Handlers\<close>

definition warn :: "warning \<Rightarrow> ('m, 'p) rpc_state \<Rightarrow> ('m, 'p) rpc_state" where
  "warn w s = (if has_log s then s\<lparr>warnings := warnings s @ [w]\<rparr> else s)"

fun error_of :: "error_member \<Rightarrow> 'e rpc_error" where
  "error_of (ErrorDict code text) =
     RPCError (case code of None \<Rightarrow> 0 | Some c \<Rightarrow> c) (case text of None \<Rightarrow> [] | Some t \<Rightarrow> t)"
| "error_of (ErrorOther text) = RPCError 0 text"

definition settle ::
  "('m, 'r, 'e) future_ops \<Rightarrow> rpc_id \<Rightarrow> ('r, 'e) future \<Rightarrow> warning \<Rightarrow> warning \<Rightarrow>
   ('m, 'p) rpc_state \<Rightarrow> ('m, 'p) rpc_state" where
  "settle ops i f duplicate stale s =
     (case fut_get ops i (pending s) of
        Some Pending \<Rightarrow> s\<lparr>pending := fut_set ops i f (pending s)\<rparr>
      | Some _ \<Rightarrow> warn duplicate s
      | None \<Rightarrow> warn stale s)"

fun handle_single_inbound_message ::
  "('m, 'r, 'e) future_ops \<Rightarrow> ('q \<Rightarrow> 'p option outcome) \<Rightarrow> ('q, 'r, 'e) message \<Rightarrow>
   (('m, 'p) rpc_state, unit) action" where
  "handle_single_inbound_message ops handler (Request one_way q) s =
     (case handler q of
        Returns (Some response) \<Rightarrow>
          (Returns (), if one_way then s else s\<lparr>outbox := outbox s @ [response]\<rparr>)
      | Returns None \<Rightarrow> (Returns (), s)
      | Raises e \<Rightarrow> (Raises e, s)
      | Blocks \<Rightarrow> (Blocks, s))"
| "handle_single_inbound_message ops handler (ErrorResponse i error) s =
     (Returns (), settle ops i (Failed (error_of error)) (DuplicateErrorResponse i) (StaleErrorResponse i) s)"
| "handle_single_inbound_message ops handler (Response i error result) s =
     (Returns (),
      settle ops i (case error of Some e \<Rightarrow> Failed (PeerError e) | None \<Rightarrow> Resolved result)
        (DuplicateResponse i) (StaleResponse i) s)"
| "handle_single_inbound_message ops handler Unknown s = (Returns (), warn UnknownMessageType s)"

text \<open>
  \<^verbatim>\<open>handle_inbound_messages\<close> on the messages of a channel that then ends: the queue is closed in any
  case, the users' tasks are cancelled only where no exception was raised.
\<close>

fun handle_all ::
  "('m, 'r, 'e) future_ops \<Rightarrow> ('q \<Rightarrow> 'p option outcome) \<Rightarrow> ('q, 'r, 'e) message list \<Rightarrow>
   (('m, 'p) rpc_state, unit) action" where
  "handle_all ops handler [] = ret ()"
| "handle_all ops handler (m # ms) =
     and_then (handle_single_inbound_message ops handler m) (\<lambda>_. handle_all ops handler ms)"

definition handle_inbound_messages ::
  "('m, 'r, 'e) future_ops \<Rightarrow> ('q \<Rightarrow> 'p option outcome) \<Rightarrow> ('q, 'r, 'e) message list \<Rightarrow>
   (('m, 'p) rpc_state, unit) action" where
  "handle_inbound_messages ops handler ms =
     and_then (try_finally (handle_all ops handler ms) (\<lambda>_. modify (\<lambda>s. s\<lparr>queue_closed := True\<rparr>)))
       (\<lambda>_. modify (\<lambda>s. s\<lparr>scope_cancelled := True\<rparr>))"

text \<open>
  \<^verbatim>\<open>send_request\<close> up to the wait for the response. The request is made by the caller's function:
  its \<^verbatim>\<open>unique_id\<close> and the message. The key that is waited for is returned, if there is one.
\<close>

definition send_request ::
  "('m, 'r, 'e) future_ops \<Rightarrow> bool \<Rightarrow> rpc_id option \<times> 'p \<Rightarrow> (('m, 'p) rpc_state, rpc_id option) action" where
  "send_request ops one_way req s =
     (let needs_response = \<not> one_way \<and> fst req \<noteq> None;
          key = StrId (case fst req of Some i \<Rightarrow> str_id i | None \<Rightarrow> []);
          s1 = (if needs_response then s\<lparr>pending := fut_new ops key (pending s)\<rparr> else s)
      in (Returns (if needs_response then Some key else None), s1\<lparr>outbox := outbox s1 @ [snd req]\<rparr>))"

section \<open>What a message answers\<close>

fun answers :: "rpc_id \<Rightarrow> ('q, 'r, 'e) message \<Rightarrow> ('r, 'e) future option" where
  "answers i (ErrorResponse j error) = (if i = j then Some (Failed (error_of error)) else None)"
| "answers i (Response j error result) =
     (if i = j then Some (case error of Some e \<Rightarrow> Failed (PeerError e) | None \<Rightarrow> Resolved result) else None)"
| "answers i _ = None"

fun first_answer :: "rpc_id \<Rightarrow> ('q, 'r, 'e) message list \<Rightarrow> ('r, 'e) future option" where
  "first_answer i [] = None"
| "first_answer i (m # ms) = (case answers i m of Some f \<Rightarrow> Some f | None \<Rightarrow> first_answer i ms)"

lemma first_answer_none: "(\<And>m. m \<in> set ms \<Longrightarrow> answers i m = None) \<Longrightarrow> first_answer i ms = None"
  by (induction ms) auto

fun replies :: "('q \<Rightarrow> 'p option outcome) \<Rightarrow> ('q, 'r, 'e) message list \<Rightarrow> 'p list" where
  "replies handler [] = []"
| "replies handler (Request False q # ms) =
     (case handler q of Returns (Some r) \<Rightarrow> [r] | _ \<Rightarrow> []) @ replies handler ms"
| "replies handler (_ # ms) = replies handler ms"

lemma settle_future:
  assumes "future_laws ops"
  shows "fut_get ops j (pending (settle ops i f d st s)) =
    (if i = j \<and> fut_get ops i (pending s) = Some Pending then Some f else fut_get ops j (pending s))"
proof -
  have other: "i \<noteq> j \<Longrightarrow> fut_get ops j (fut_set ops i f m) = fut_get ops j m" for m
    using assms unfolding future_laws_def by blast
  have same: "fut_get ops i m = Some Pending \<Longrightarrow> fut_get ops i (fut_set ops i f m) = Some f" for m
    using assms unfolding future_laws_def by blast
  show ?thesis
    using other same
    by (cases "i = j") (auto simp: settle_def warn_def split: option.split future.split)
qed

lemma settle_outbox [simp]: "outbox (settle ops i f d st s) = outbox s"
  by (auto simp: settle_def warn_def split: option.split future.split)

text \<open>The effect of one message on the future of one request, and on the outbox.\<close>

lemma single_future:
  assumes "future_laws ops" and "handle_single_inbound_message ops handler m s = (Returns (), s')"
    and "fut_get ops i (pending s) = Some g"
  shows "fut_get ops i (pending s') =
    Some (if g = Pending then case answers i m of Some f \<Rightarrow> f | None \<Rightarrow> Pending else g)"
  using assms(2,3)
  by (cases m) (auto simp: warn_def settle_future[OF assms(1)] split: outcome.splits option.splits if_splits)

lemma single_outbox:
  "handle_single_inbound_message ops handler m s = (Returns (), s') \<Longrightarrow> outbox s' = outbox s @ replies handler [m]"
proof (cases m)
  case (Request one_way q)
  assume "handle_single_inbound_message ops handler m s = (Returns (), s')"
  with Request show ?thesis by (cases one_way) (auto split: outcome.splits option.splits)
qed (auto simp: warn_def)

lemma replies_Cons: "replies handler (m # ms) = replies handler [m] @ replies handler ms"
  by (cases "(handler, [m])" rule: replies.cases) auto

lemma handle_all_run:
  assumes "future_laws ops" and "handle_all ops handler ms s = (Returns (), s')"
    and "fut_get ops i (pending s) = Some g"
  shows "fut_get ops i (pending s') =
      Some (if g = Pending then case first_answer i ms of Some f \<Rightarrow> f | None \<Rightarrow> Pending else g) \<and>
    outbox s' = outbox s @ replies handler ms"
  using assms(2,3)
proof (induction ms arbitrary: s g)
  case Nil
  then show ?case by (simp add: action_simps)
next
  case (Cons m ms)
  from Cons.prems(1) obtain t where 1: "handle_single_inbound_message ops handler m s = (Returns (), t)"
      and 2: "handle_all ops handler ms t = (Returns (), s')"
    by (auto elim: and_then_returns)
  note f = single_future[OF assms(1) 1 Cons.prems(2)]
  note ih = Cons.IH[OF 2 f]
  have "outbox s' = outbox s @ replies handler (m # ms)"
    using ih single_outbox[OF 1] replies_Cons[of handler m ms] by simp
  moreover have "answers i m \<noteq> Some Pending" by (cases m) (auto split: option.split)
  ultimately show ?case using ih by (auto split: option.splits)
qed

section \<open>Properties\<close>

text \<open>
  A request that waits for a response. After the messages \<open>ms\<close> of the channel have been handled,
  the future of the request holds what the first message that answers its key says, the later
  ones having changed nothing, or is pending if there is none. Into the outbound queue went the
  request and, in order, the responses of the handler to the two-way requests of the peer. The
  queue is then closed and the users' tasks are cancelled.
\<close>

theorem first_response_wins:
  assumes "future_laws ops" and "send_request ops False (Some i, req) s = (Returns (Some key), s1)"
    and "handle_inbound_messages ops handler ms s1 = (Returns (), s')"
  shows "key = StrId (str_id i) \<and>
    fut_get ops key (pending s') =
      Some (case first_answer key ms of Some f \<Rightarrow> f | None \<Rightarrow> Pending) \<and>
    outbox s' = outbox s @ [req] @ replies handler ms \<and> queue_closed s' \<and> scope_cancelled s'"
proof -
  have s1: "key = StrId (str_id i)" "fut_get ops key (pending s1) = Some Pending" "outbox s1 = outbox s @ [req]"
    using assms(1,2) by (auto simp: send_request_def Let_def future_laws_def)
  obtain t where t: "handle_all ops handler ms s1 = (Returns (), t)"
      "s' = t\<lparr>queue_closed := True, scope_cancelled := True\<rparr>"
    using assms(3)
    by (auto simp: handle_inbound_messages_def action_simps split: prod.splits outcome.splits)
  show ?thesis using handle_all_run[OF assms(1) t(1) s1(2)] s1 t(2) by simp
qed

text \<open>
  A request whose \<^verbatim>\<open>unique_id\<close> is a number is never answered: its future is filed under the
  number's decimal string, while responses are looked up by their number as it is. Whatever
  responses with numbers come in, its own among them, the future is still pending in the end,
  provided that the map of futures tells a number from a string, as a \<^verbatim>\<open>dict\<close> does.
\<close>

theorem integer_id_never_answered:
  assumes "future_laws ops" and "send_request ops False (Some (IntId n), req) s = (Returns (Some key), s1)"
    and "handle_inbound_messages ops handler ms s1 = (Returns (), s')"
    and "\<And>i e. ErrorResponse i e \<in> set ms \<Longrightarrow> i \<in> range IntId"
    and "\<And>i e r. Response i e r \<in> set ms \<Longrightarrow> i \<in> range IntId"
  shows "fut_get ops key (pending s') = Some Pending"
proof -
  have s1: "key = StrId (str_id (IntId n))" "fut_get ops key (pending s1) = Some Pending"
    using assms(1,2) by (auto simp: send_request_def Let_def future_laws_def)
  have "answers key m = None" if "m \<in> set ms" for m
  proof (cases m)
    case (ErrorResponse j e)
    then show ?thesis using that assms(4)[of j e] s1(1) by (auto simp del: str_id.simps)
  next
    case (Response j e r)
    then show ?thesis using that assms(5)[of j e r] s1(1) by (auto simp del: str_id.simps)
  qed simp_all
  then have none: "first_answer key ms = None" by (rule first_answer_none)
  obtain t where t: "handle_all ops handler ms s1 = (Returns (), t)" "pending s' = pending t"
    using assms(3)
    by (auto simp: handle_inbound_messages_def action_simps split: prod.splits outcome.splits)
  show ?thesis using handle_all_run[OF assms(1) t(1) s1(2)] none t(2) by simp
qed

section \<open>Witnesses\<close>

text \<open>Futures in a map.\<close>

definition map_futures :: "(rpc_id \<rightharpoonup> (string, nat) future, string, nat) future_ops" where
  "map_futures = \<lparr>fut_new = (\<lambda>i m. m(i \<mapsto> Pending)), fut_get = (\<lambda>i m. m i), fut_set = (\<lambda>i f m. m(i \<mapsto> f))\<rparr>"

lemma map_futures_laws: "future_laws map_futures"
  by (simp add: future_laws_def map_futures_def)

definition quiet :: "(rpc_id \<rightharpoonup> (string, nat) future, string) rpc_state" where
  "quiet = \<lparr>pending = (\<lambda>_. None), outbox = [], has_log = True, warnings = [], queue_closed = False,
     scope_cancelled = False\<rparr>"

definition echo :: "string \<Rightarrow> string option outcome" where
  "echo q = Returns (if q = [] then None else Some q)"

theorem first_response_wins_witness:
  "\<exists>s1 s'. send_request map_futures False (Some (StrId ''a''), ''q'') quiet = (Returns (Some (StrId ''a'')), s1) \<and>
     handle_inbound_messages map_futures echo
       [Request False ''hi'', Request True ''x'', ErrorResponse (StrId ''a'') (ErrorDict (Some 7) None),
        Response (StrId ''a'') None ''late''] s1 = (Returns (), s') \<and>
     pending s' (StrId ''a'') = Some (Failed (RPCError 7 [])) \<and> outbox s' = [''q'', ''hi'']"
proof -
  let ?ms = "[Request False ''hi'', Request True ''x'', ErrorResponse (StrId ''a'') (ErrorDict (Some 7) None),
        Response (StrId ''a'') None ''late'']"
  obtain s1 where s1: "send_request map_futures False (Some (StrId ''a''), ''q'') quiet = (Returns (Some (StrId ''a'')), s1)"
    by (simp add: send_request_def Let_def)
  obtain s' where s': "handle_inbound_messages map_futures echo ?ms s1 = (Returns (), s')"
    by (simp add: handle_inbound_messages_def echo_def action_simps)
  have "pending s' (StrId ''a'') = Some (Failed (RPCError 7 [])) \<and> outbox s' = [''q'', ''hi'']"
    using first_response_wins[OF map_futures_laws s1 s'] by (simp add: map_futures_def quiet_def echo_def)
  with s1 s' show ?thesis by blast
qed

theorem integer_id_never_answered_witness:
  "\<exists>s1 s'. send_request map_futures False (Some (IntId 12), ''q'') quiet = (Returns (Some (StrId ''12'')), s1) \<and>
     handle_inbound_messages map_futures echo [Response (IntId 12) None ''r''] s1 = (Returns (), s') \<and>
     pending s' (StrId ''12'') = Some Pending"
proof -
  have d: "str_id (IntId 12) = ''12''"
    by code_simp
  obtain s1 where s1: "send_request map_futures False (Some (IntId 12), ''q'') quiet = (Returns (Some (StrId ''12'')), s1)"
    using d by (simp add: send_request_def Let_def)
  obtain s' where s': "handle_inbound_messages map_futures echo [Response (IntId 12) None ''r''] s1 = (Returns (), s')"
    by (simp add: handle_inbound_messages_def action_simps)
  have "fut_get map_futures (StrId ''12'') (pending s') = Some Pending"
    by (rule integer_id_never_answered[OF map_futures_laws s1 s']) auto
  with s1 s' show ?thesis by (auto simp: map_futures_def)
qed

end
