(* ===== verification/Rpc_Session.thy ===== *)
theory Rpc_Session
  imports Rpc "HOL-Library.Sublist"
begin

text \<open>
  A session of \<^verbatim>\<open>serve_rpc_requests\<close> (\<^verbatim>\<open>channels/rpc.py\<close>) with its concurrent tasks, and the proxies
  through which the user calls the peer.

  The tasks are the one that handles inbound messages, the one that sends outbound messages, the
  body of the \<^verbatim>\<open>async with\<close> block, and the calls of \<^verbatim>\<open>send_request\<close>, which the user numbers. A step
  of the relation is what one task does between two suspension points; the handler of a request
  may take its time, its call is part of the step that receives the request. An exception of the
  handler, of the channel or of the body cancels the nursery and ends the session; such runs
  end before the exception here and are continued in \<open>Rpc_Crash\<close>.

  The outbound queue has no buffer: a sender waits in \<open>senders\<close> until the outbound task takes its
  message. Closing the sending end wakes the waiting senders up with \<^verbatim>\<open>ClosedResourceError\<close>; at the end
  of the channel this, the cancellation of the scope and the end of the body are one step. The caller
  of \<^verbatim>\<open>send_request\<close> may be cancelled at any of its waits; if it still waits to send, its message is
  withdrawn from the queue, and its future, whose context it has not entered, stays in the map.
\<close>

section \<open>Proxies\<close>

text \<open>
  \<^verbatim>\<open>RPCRemoteProxy\<close>: attributes are made into methods, and kept. A method calls the sender with its
  name, the arguments \<open>'a\<close> and the flag of the proxy.
\<close>

record rpc_method =
  method_name :: string
  method_one_way :: bool

record rpc_proxy =
  methods :: "string \<rightharpoonup> rpc_method"
  proxy_one_way :: bool

definition init_proxy :: "bool \<Rightarrow> rpc_proxy" where
  "init_proxy one_way = \<lparr>methods = (\<lambda>_. None), proxy_one_way = one_way\<rparr>"

definition proxy_getattr :: "string \<Rightarrow> rpc_proxy \<Rightarrow> rpc_method \<times> rpc_proxy" where
  "proxy_getattr name self =
     (case methods self name of
        Some func \<Rightarrow> (func, self)
      | None \<Rightarrow>
          (let func = \<lparr>method_name = name, method_one_way = proxy_one_way self\<rparr>
           in (func, self\<lparr>methods := (methods self)(name \<mapsto> func)\<rparr>)))"

definition call_method :: "(string \<Rightarrow> bool \<Rightarrow> 'a \<Rightarrow> 'b) \<Rightarrow> rpc_method \<Rightarrow> 'a \<Rightarrow> 'b" where
  "call_method sender self args = sender (method_name self) (method_one_way self) args"

text \<open>\<^verbatim>\<open>RPCRemotePeer\<close>: the proxy for notifications and the one for requests.\<close>

definition init_peer :: "rpc_proxy \<times> rpc_proxy" where
  "init_peer = (init_proxy True, init_proxy False)"

definition proxy_ok :: "rpc_proxy \<Rightarrow> bool" where
  "proxy_ok p \<longleftrightarrow> (\<forall>n m. methods p n = Some m \<longrightarrow> method_name m = n \<and> method_one_way m = proxy_one_way p)"

lemma proxy_ok_init: "proxy_ok (init_proxy b)"
  by (simp add: proxy_ok_def init_proxy_def)

lemma proxy_getattr_ok:
  "proxy_ok p \<Longrightarrow> proxy_getattr n p = (m, p') \<Longrightarrow>
    proxy_ok p' \<and> proxy_one_way p' = proxy_one_way p \<and> methods p' n = Some m \<and>
    call_method sender m args = sender n (proxy_one_way p) args"
  by (auto simp: proxy_ok_def proxy_getattr_def call_method_def Let_def split: option.splits if_splits)

section \<open>The state of a session\<close>

datatype inbound_task = Reading | Responding | InboundEnded

datatype 'p outbound_task = Fetching | Transmitting 'p | OutboundEnded

datatype body_task = BodyRuns | BodyLeft | BodyCancelled

datatype ('r, 'e) call_result = NoResponse | Result 'r | Error "'e rpc_error" | TooSlow | Interrupted exn

datatype ('r, 'e) rpc_call = NotCalled | Sending | Waiting | Finished "('r, 'e) call_result"

text \<open>
  \<open>core\<close> is the state that the handlers of \<open>Rpc\<close> work on; its \<open>outbox\<close> lists what has been handed to
  the queue, in the order of the calls of \<^verbatim>\<open>send\<close>. \<open>keys\<close> is the key a call waits for, if any.
  \<open>transmitted\<close>, \<open>received\<close> and \<open>since\<close> record what has happened: the messages sent over the channel,
  those received, and how many had been received when a call was made; \<open>handed\<close> is the \<open>outbox\<close> with
  the calls that handed their messages over (\<open>None\<close> for a response), and \<open>withdrawn\<close> the calls that were
  cancelled before the outbound task had taken theirs.
\<close>

record ('m, 'p, 'q, 'r, 'e) rpc_session =
  core :: "('m, 'p) rpc_state"
  inbound :: inbound_task
  outbound :: "'p outbound_task"
  senders :: "(nat option \<times> 'p) list"
  calls :: "nat \<Rightarrow> ('r, 'e) rpc_call"
  keys :: "nat \<Rightarrow> rpc_id option"
  body :: body_task
  transmitted :: "'p list"
  received :: "('q, 'r, 'e) message list"
  since :: "nat \<Rightarrow> nat"
  handed :: "(nat option \<times> 'p) list"
  withdrawn :: "nat set"

definition init_session :: "'m \<Rightarrow> bool \<Rightarrow> ('m, 'p, 'q, 'r, 'e) rpc_session" where
  "init_session futures log =
     \<lparr>core = \<lparr>pending = futures, outbox = [], has_log = log, warnings = [], queue_closed = False, scope_cancelled = False\<rparr>,
      inbound = Reading, outbound = Fetching, senders = [], calls = (\<lambda>_. NotCalled), keys = (\<lambda>_. None),
      body = BodyRuns, transmitted = [], received = [], since = (\<lambda>_. 0), handed = [], withdrawn = {}\<rparr>"

text \<open>Leaving \<^verbatim>\<open>async with future_context\<close> removes the future from the map.\<close>

record ('m, 'r, 'e) session_futures = "('m, 'r, 'e) future_ops" +
  fut_drop :: "rpc_id \<Rightarrow> 'm \<Rightarrow> 'm"

definition session_laws :: "('m, 'r, 'e) session_futures \<Rightarrow> bool" where
  "session_laws ops \<longleftrightarrow> future_laws (future_ops.truncate ops) \<and>
     (\<forall>i j m. i \<noteq> j \<longrightarrow> fut_get ops j (fut_drop ops i m) = fut_get ops j m)"

definition finish_call :: "('m, 'r, 'e) session_futures \<Rightarrow> nat \<Rightarrow> rpc_id \<Rightarrow> ('r, 'e) call_result \<Rightarrow>
    ('m, 'p, 'q, 'r, 'e) rpc_session \<Rightarrow> ('m, 'p, 'q, 'r, 'e) rpc_session" where
  "finish_call ops i key r s =
     s\<lparr>core := (core s)\<lparr>pending := fut_drop ops key (pending (core s))\<rparr>,
       calls := (calls s)(i := Finished r)\<rparr>"

definition wake_senders :: "(nat \<Rightarrow> ('r, 'e) rpc_call) \<Rightarrow> nat \<Rightarrow> ('r, 'e) rpc_call" where
  "wake_senders cs i = (if cs i = Sending then Finished (Interrupted ClosedResourceError) else cs i)"

text \<open>The caller is cancelled while it waits in \<^verbatim>\<open>out_queue_tx.send\<close>.\<close>

definition withdraw :: "nat \<Rightarrow> ('m, 'p, 'q, 'r, 'e) rpc_session \<Rightarrow> ('m, 'p, 'q, 'r, 'e) rpc_session" where
  "withdraw i s =
     s\<lparr>senders := filter (\<lambda>(x, _). x \<noteq> Some i) (senders s),
       calls := (calls s)(i := Finished (Interrupted Cancelled)), withdrawn := insert i (withdrawn s)\<rparr>"

section \<open>Steps\<close>

inductive session_step ::
  "('m, 'r, 'e) session_futures \<Rightarrow> ('q \<Rightarrow> 'p option outcome) \<Rightarrow>
   ('m, 'p, 'q, 'r, 'e) rpc_session \<Rightarrow> ('m, 'p, 'q, 'r, 'e) rpc_session \<Rightarrow> bool" for ops handler where
  receive_message:
    "inbound s = Reading \<Longrightarrow>
     handle_single_inbound_message (future_ops.truncate ops) handler m (core s) = (Returns (), c) \<Longrightarrow>
     session_step ops handler s
       (s\<lparr>core := c, inbound := (if replies handler [m] = [] then Reading else Responding),
          senders := senders s @ map (Pair None) (replies handler [m]), received := received s @ [m],
          handed := handed s @ map (Pair None) (replies handler [m])\<rparr>)"
| fetch_response:
    "outbound s = Fetching \<Longrightarrow> senders s = (None, p) # xs \<Longrightarrow>
     session_step ops handler s (s\<lparr>outbound := Transmitting p, senders := xs, inbound := Reading\<rparr>)"
| fetch_request:
    "outbound s = Fetching \<Longrightarrow> senders s = (Some i, p) # xs \<Longrightarrow>
     session_step ops handler s
       (s\<lparr>outbound := Transmitting p, senders := xs,
          calls := (calls s)(i := (if keys s i = None then Finished NoResponse else Waiting))\<rparr>)"
| transmit:
    "outbound s = Transmitting p \<Longrightarrow>
     session_step ops handler s (s\<lparr>outbound := Fetching, transmitted := transmitted s @ [p]\<rparr>)"
| outbound_ends:
    "outbound s = Fetching \<Longrightarrow> queue_closed (core s) \<Longrightarrow> senders s = [] \<Longrightarrow>
     session_step ops handler s (s\<lparr>outbound := OutboundEnded\<rparr>)"
| channel_ends:
    "inbound s = Reading \<Longrightarrow>
     session_step ops handler s
       (s\<lparr>core := (core s)\<lparr>queue_closed := True, scope_cancelled := True\<rparr>, inbound := InboundEnded,
          senders := [], calls := wake_senders (calls s),
          body := (if body s = BodyRuns then BodyCancelled else body s)\<rparr>)"
| request:
    "calls s i = NotCalled \<Longrightarrow> \<not> queue_closed (core s) \<Longrightarrow>
     send_request (future_ops.truncate ops) one_way req (core s) = (Returns key, c) \<Longrightarrow>
     (\<forall>k. key = Some k \<longrightarrow> fut_get ops k (pending (core s)) = None) \<Longrightarrow>
     session_step ops handler s
       (s\<lparr>core := c, senders := senders s @ [(Some i, snd req)], calls := (calls s)(i := Sending),
          keys := (keys s)(i := key), since := (since s)(i := length (received s)),
          handed := handed s @ [(Some i, snd req)]\<rparr>)"
| request_refused:
    "calls s i = NotCalled \<Longrightarrow> queue_closed (core s) \<Longrightarrow>
     send_request (future_ops.truncate ops) one_way req (core s) = (Returns key, c) \<Longrightarrow>
     (\<forall>k. key = Some k \<longrightarrow> fut_get ops k (pending (core s)) = None) \<Longrightarrow>
     session_step ops handler s
       (s\<lparr>core := (core s)\<lparr>pending := pending c\<rparr>,
          calls := (calls s)(i := Finished (Interrupted ClosedResourceError))\<rparr>)"
| request_cancelled:
    "calls s i = NotCalled \<Longrightarrow>
     send_request (future_ops.truncate ops) one_way req (core s) = (Returns key, c) \<Longrightarrow>
     (\<forall>k. key = Some k \<longrightarrow> fut_get ops k (pending (core s)) = None) \<Longrightarrow>
     session_step ops handler s
       (s\<lparr>core := (core s)\<lparr>pending := pending c\<rparr>,
          calls := (calls s)(i := Finished (Interrupted Cancelled))\<rparr>)"
| request_withdrawn:
    "calls s i = Sending \<Longrightarrow> session_step ops handler s (withdraw i s)"
| resolved:
    "calls s i = Waiting \<Longrightarrow> keys s i = Some key \<Longrightarrow> fut_get ops key (pending (core s)) = Some (Resolved r) \<Longrightarrow>
     session_step ops handler s (finish_call ops i key (Result r) s)"
| failed:
    "calls s i = Waiting \<Longrightarrow> keys s i = Some key \<Longrightarrow> fut_get ops key (pending (core s)) = Some (Failed e) \<Longrightarrow>
     session_step ops handler s (finish_call ops i key (Error e) s)"
| timed_out:
    "calls s i = Waiting \<Longrightarrow> keys s i = Some key \<Longrightarrow>
     session_step ops handler s (finish_call ops i key TooSlow s)"
| call_cancelled:
    "calls s i = Waiting \<Longrightarrow> keys s i = Some key \<Longrightarrow>
     session_step ops handler s (finish_call ops i key (Interrupted Cancelled) s)"
| body_leaves:
    "body s = BodyRuns \<Longrightarrow> session_step ops handler s (s\<lparr>body := BodyLeft\<rparr>)"

text \<open>The nursery is left, and with it the \<^verbatim>\<open>async with\<close> block, when the body and both tasks have ended.\<close>

definition session_over :: "('m, 'p, 'q, 'r, 'e) rpc_session \<Rightarrow> bool" where
  "session_over s \<longleftrightarrow> body s \<noteq> BodyRuns \<and> inbound s = InboundEnded \<and> outbound s = OutboundEnded"

inductive session_reachable ::
  "('m, 'r, 'e) session_futures \<Rightarrow> ('q \<Rightarrow> 'p option outcome) \<Rightarrow> ('m, 'p, 'q, 'r, 'e) rpc_session \<Rightarrow> bool"
  for ops handler where
  session_starts: "session_reachable ops handler (init_session futures log)"
| session_moves: "session_reachable ops handler s \<Longrightarrow> session_step ops handler s s' \<Longrightarrow>
    session_reachable ops handler s'"

section \<open>Fields\<close>

lemma truncate_ops [simp]:
  "fut_get (future_ops.truncate ops) = fut_get ops" "fut_new (future_ops.truncate ops) = fut_new ops"
  "fut_set (future_ops.truncate ops) = fut_set ops"
  by (simp_all add: future_ops.truncate_def)

lemma finish_call_simps [simp]:
  "inbound (finish_call ops i key r s) = inbound s" "outbound (finish_call ops i key r s) = outbound s"
  "senders (finish_call ops i key r s) = senders s" "keys (finish_call ops i key r s) = keys s"
  "body (finish_call ops i key r s) = body s" "transmitted (finish_call ops i key r s) = transmitted s"
  "received (finish_call ops i key r s) = received s" "since (finish_call ops i key r s) = since s"
  "calls (finish_call ops i key r s) = (calls s)(i := Finished r)"
  "outbox (core (finish_call ops i key r s)) = outbox (core s)"
  "queue_closed (core (finish_call ops i key r s)) = queue_closed (core s)"
  "scope_cancelled (core (finish_call ops i key r s)) = scope_cancelled (core s)"
  "pending (core (finish_call ops i key r s)) = fut_drop ops key (pending (core s))"
  "handed (finish_call ops i key r s) = handed s" "withdrawn (finish_call ops i key r s) = withdrawn s"
  by (simp_all add: finish_call_def)

lemma withdraw_simps [simp]:
  "core (withdraw i s) = core s" "inbound (withdraw i s) = inbound s" "outbound (withdraw i s) = outbound s"
  "senders (withdraw i s) = filter (\<lambda>(x, _). x \<noteq> Some i) (senders s)"
  "calls (withdraw i s) = (calls s)(i := Finished (Interrupted Cancelled))" "keys (withdraw i s) = keys s"
  "body (withdraw i s) = body s" "transmitted (withdraw i s) = transmitted s" "received (withdraw i s) = received s"
  "since (withdraw i s) = since s" "handed (withdraw i s) = handed s" "withdrawn (withdraw i s) = insert i (withdrawn s)"
  by (simp_all add: withdraw_def)

lemma settle_flags [simp]:
  "queue_closed (settle ops i f d st s) = queue_closed s" "scope_cancelled (settle ops i f d st s) = scope_cancelled s"
  by (auto simp: settle_def warn_def split: option.split future.split)

lemma single_flags:
  assumes "handle_single_inbound_message ops handler m s = (Returns (), c)"
  shows "queue_closed c = queue_closed s" "scope_cancelled c = scope_cancelled s"
  using assms by (cases m; auto simp: warn_def split: outcome.splits option.splits if_splits)+

lemma replies_single: "replies handler [m] = [] \<or> (\<exists>p. replies handler [m] = [p])"
  by (cases "(handler, [m])" rule: replies.cases) (auto split: outcome.split option.split)

lemma send_request_fields:
  assumes "send_request ops one_way req s = (Returns key, c)"
  shows "outbox c = outbox s @ [snd req]" "queue_closed c = queue_closed s" "scope_cancelled c = scope_cancelled s"
    "pending c = (case key of None \<Rightarrow> pending s | Some k \<Rightarrow> fut_new ops k (pending s))"
  using assms by (auto simp: send_request_def Let_def split: if_splits option.splits)

lemma wake_senders_simps [simp]:
  "wake_senders cs i \<noteq> Sending" "(wake_senders cs i = Waiting) = (cs i = Waiting)"
  "(wake_senders cs i = Finished (Result r)) = (cs i = Finished (Result r))"
  "(wake_senders cs i = Finished (Error e)) = (cs i = Finished (Error e))"
  "(wake_senders cs i = Finished NoResponse) = (cs i = Finished NoResponse)"
  by (auto simp: wake_senders_def)

section \<open>Invariants\<close>

text \<open>Who waits in the queue.\<close>

definition waits :: "'a \<Rightarrow> ('a \<times> 'p) list \<Rightarrow> bool" where
  "waits x xs \<longleftrightarrow> x \<in> fst ` set xs"

lemma waits_simps [simp]:
  "\<not> waits x []" "waits x ((y, p) # xs) = (x = y \<or> waits x xs)" "waits x (xs @ ys) = (waits x xs \<or> waits x ys)"
  by (auto simp: waits_def)

fun once :: "('a \<times> 'p) list \<Rightarrow> bool" where
  "once [] = True"
| "once ((x, p) # xs) = (\<not> waits x xs \<and> once xs)"

lemma once_append [simp]: "once (xs @ [(x, p)]) = (once xs \<and> \<not> waits x xs)"
  by (induction xs rule: once.induct) auto

lemma waits_filter [simp]: "waits x (filter (\<lambda>(y, _). P y) xs) = (P x \<and> waits x xs)"
  by (induction xs) auto

lemma once_filter: "once xs \<Longrightarrow> once (filter (\<lambda>(y, _). P y) xs)"
  by (induction xs rule: once.induct) auto

definition queue_inv :: "('m, 'p, 'q, 'r, 'e) rpc_session \<Rightarrow> bool" where
  "queue_inv s \<longleftrightarrow>
     once (senders s) \<and> waits None (senders s) = (inbound s = Responding) \<and>
     (\<forall>i. waits (Some i) (senders s) = (calls s i = Sending))"

lemma queue_inv_step:
  assumes "session_step ops handler s s'" and "queue_inv s"
  shows "queue_inv s'"
  using assms
proof (cases rule: session_step.cases)
  case (receive_message m c)
  show ?thesis
  proof (cases "replies handler [m] = []")
    case True
    then show ?thesis using receive_message(1,2) assms(2) by (simp add: queue_inv_def)
  next
    case False
    then obtain p where "replies handler [m] = [p]" using replies_single[of handler m] by blast
    then show ?thesis using receive_message(1,2) assms(2) by (simp add: queue_inv_def)
  qed
next
  case (request i one_way req key c)
  then show ?thesis using assms(2) by (cases req) (auto simp: queue_inv_def)
next
  case (request_withdrawn i)
  then show ?thesis using assms(2) by (simp add: queue_inv_def once_filter)
qed (use assms(2) in \<open>auto simp: queue_inv_def\<close>)

text \<open>What has been queued, and what becomes of it.\<close>

fun in_flight :: "'p outbound_task \<Rightarrow> 'p list" where
  "in_flight (Transmitting p) = [p]"
| "in_flight _ = []"

text \<open>What has been handed to the queue and has not been withdrawn.\<close>

definition kept :: "('m, 'p, 'q, 'r, 'e) rpc_session \<Rightarrow> (nat option \<times> 'p) list" where
  "kept s = filter (\<lambda>(x, _). x \<notin> Some ` withdrawn s) (handed s)"

definition order_inv :: "('m, 'p, 'q, 'r, 'e) rpc_session \<Rightarrow> bool" where
  "order_inv s \<longleftrightarrow>
     queue_closed (core s) = (inbound s = InboundEnded) \<and>
     scope_cancelled (core s) = (inbound s = InboundEnded) \<and>
     (inbound s = InboundEnded \<longrightarrow> senders s = [] \<and> body s \<noteq> BodyRuns) \<and>
     (outbound s = OutboundEnded \<longrightarrow> inbound s = InboundEnded)"

text \<open>What is kept has been sent, in its order, or is still to be sent; the latter is the queue while both tasks run.\<close>

definition split_at ::
  "(nat option \<times> 'p) list \<Rightarrow> (nat option \<times> 'p) list \<Rightarrow> ('m, 'p, 'q, 'r, 'e) rpc_session \<Rightarrow> bool" where
  "split_at ts us s \<longleftrightarrow>
     map snd ts = transmitted s @ in_flight (outbound s) \<and> kept s = ts @ us \<and>
     (\<forall>i. calls s i = Sending \<longrightarrow> \<not> waits (Some i) ts) \<and>
     (inbound s \<noteq> InboundEnded \<and> outbound s \<noteq> OutboundEnded \<longrightarrow> us = senders s)"

definition sent_inv :: "('m, 'p, 'q, 'r, 'e) rpc_session \<Rightarrow> bool" where
  "sent_inv s \<longleftrightarrow>
     map snd (handed s) = outbox (core s) \<and>
     (\<forall>i. waits (Some i) (handed s) \<longrightarrow> calls s i \<noteq> NotCalled) \<and>
     (\<forall>i \<in> withdrawn s. calls s i = Finished (Interrupted Cancelled)) \<and>
     (\<exists>ts us. split_at ts us s)"

lemma kept_simps [simp]:
  "kept (s\<lparr>core := a\<rparr>) = kept s" "kept (s\<lparr>calls := b\<rparr>) = kept s" "kept (s\<lparr>inbound := x\<rparr>) = kept s"
  "kept (s\<lparr>outbound := y\<rparr>) = kept s" "kept (s\<lparr>senders := z\<rparr>) = kept s" "kept (s\<lparr>keys := u\<rparr>) = kept s"
  "kept (s\<lparr>body := v\<rparr>) = kept s" "kept (s\<lparr>transmitted := w\<rparr>) = kept s" "kept (s\<lparr>received := q\<rparr>) = kept s"
  "kept (s\<lparr>since := n\<rparr>) = kept s" "kept (finish_call ops i key r s) = kept s"
  "kept (withdraw i s) = filter (\<lambda>(x, _). x \<noteq> Some i) (kept s)"
  by (auto simp: kept_def intro!: filter_cong)

lemma kept_handed:
  "kept (s\<lparr>handed := handed s @ map (Pair None) ps\<rparr>) = kept s @ map (Pair None) ps"
  "i \<notin> withdrawn s \<Longrightarrow> kept (s\<lparr>handed := handed s @ [(Some i, p)]\<rparr>) = kept s @ [(Some i, p)]"
  by (auto simp: kept_def filter_map comp_def)

lemma waits_kept: "waits x (kept s) \<Longrightarrow> waits x (handed s)"
  by (auto simp: kept_def)

lemma filter_not_waiting: "\<not> waits x xs \<Longrightarrow> filter (\<lambda>(y, _). y \<noteq> x) xs = xs"
  by (induction xs) auto

lemma sent_invI:
  assumes "map snd (handed s) = outbox (core s)" and "\<And>i. waits (Some i) (handed s) \<Longrightarrow> calls s i \<noteq> NotCalled"
    and "\<And>i. i \<in> withdrawn s \<Longrightarrow> calls s i = Finished (Interrupted Cancelled)" and "split_at ts us s"
  shows "sent_inv s"
  using assms by (auto simp: sent_inv_def)

lemma sent_invE:
  assumes "sent_inv s"
  obtains ts us where "map snd (handed s) = outbox (core s)" "\<And>i. waits (Some i) (handed s) \<Longrightarrow> calls s i \<noteq> NotCalled"
    "\<And>i. i \<in> withdrawn s \<Longrightarrow> calls s i = Finished (Interrupted Cancelled)" "split_at ts us s"
  using assms by (auto simp: sent_inv_def)

text \<open>Calls that are taken up, end, or are withdrawn.\<close>

lemma sent_inv_calls:
  assumes "sent_inv s" and "handed s' = handed s" "outbox (core s') = outbox (core s)" "withdrawn s' = withdrawn s"
    and "transmitted s' = transmitted s" "in_flight (outbound s') = in_flight (outbound s)"
    and "inbound s' \<noteq> InboundEnded \<and> outbound s' \<noteq> OutboundEnded \<longrightarrow>
      inbound s \<noteq> InboundEnded \<and> outbound s \<noteq> OutboundEnded \<and> senders s' = senders s"
    and "\<And>j. calls s j \<noteq> NotCalled \<Longrightarrow> calls s' j \<noteq> NotCalled"
    and "\<And>j r. calls s j = Finished r \<Longrightarrow> calls s' j = Finished r"
    and "\<And>j. calls s' j = Sending \<Longrightarrow> calls s j = Sending"
  shows "sent_inv s'"
proof -
  obtain ts us where o: "map snd (handed s) = outbox (core s)" "\<And>i. waits (Some i) (handed s) \<Longrightarrow> calls s i \<noteq> NotCalled"
    "\<And>i. i \<in> withdrawn s \<Longrightarrow> calls s i = Finished (Interrupted Cancelled)" "split_at ts us s"
    using assms(1) by (rule sent_invE) blast
  have k: "kept s' = kept s" by (simp add: kept_def assms(2,4))
  show ?thesis
    by (rule sent_invI[of s' ts us]) (use o assms(2-10) k in \<open>auto simp: split_at_def\<close>)
qed

lemma sent_inv_withdraw:
  assumes "sent_inv s" and "calls s i = Sending"
  shows "sent_inv (withdraw i s)"
proof -
  obtain ts us where o: "map snd (handed s) = outbox (core s)" "\<And>i. waits (Some i) (handed s) \<Longrightarrow> calls s i \<noteq> NotCalled"
    "\<And>i. i \<in> withdrawn s \<Longrightarrow> calls s i = Finished (Interrupted Cancelled)" and sp: "split_at ts us s"
    using assms(1) by (rule sent_invE) blast
  have "\<not> waits (Some i) ts" using sp assms(2) by (simp add: split_at_def)
  then have ts: "filter (\<lambda>(x, _). x \<noteq> Some i) ts = ts" by (rule filter_not_waiting)
  have "split_at ts (filter (\<lambda>(x, _). x \<noteq> Some i) us) (withdraw i s)"
    using sp by (auto simp: split_at_def ts)
  then show ?thesis by (rule sent_invI[rotated 3]) (use o in auto)
qed

lemma order_inv_step:
  assumes "session_step ops handler s s'" and "order_inv s"
  shows "order_inv s'"
  using assms
proof (cases rule: session_step.cases)
  case (receive_message m c)
  then show ?thesis using assms(2) single_flags[OF receive_message(3)] by (auto simp: order_inv_def)
next
  case (request i one_way req key c)
  then show ?thesis using assms(2) send_request_fields[OF request(4)] by (auto simp: order_inv_def)
qed (use assms(2) in \<open>auto simp: order_inv_def\<close>)

lemma sent_inv_step:
  assumes "session_step ops handler s s'" and "order_inv s" "queue_inv s" and inv: "sent_inv s"
  shows "sent_inv s'"
proof -
  obtain ts us where o: "map snd (handed s) = outbox (core s)" "\<And>i. waits (Some i) (handed s) \<Longrightarrow> calls s i \<noteq> NotCalled"
    "\<And>i. i \<in> withdrawn s \<Longrightarrow> calls s i = Finished (Interrupted Cancelled)" and sp: "split_at ts us s"
    using inv by (rule sent_invE) blast
  from assms(1) show ?thesis
  proof (cases rule: session_step.cases)
    case (receive_message m c)
    let ?rs = "replies handler [m]"
    have "kept s' = kept s @ map (Pair None) ?rs" using kept_handed(1)[of s ?rs] by (simp add: receive_message(1) kept_def)
    then have "split_at ts (us @ map (Pair None) ?rs) s'"
      using sp receive_message(1,2) by (simp add: split_at_def)
    moreover have "map snd (handed s') = outbox (core s')"
      using o(1) single_outbox[OF receive_message(3)] by (simp add: receive_message(1) comp_def)
    moreover have "\<not> waits (Some i) (map (Pair None) ?rs)" for i :: nat by (auto simp: waits_def)
    ultimately show ?thesis by (intro sent_invI) (use o(2,3) receive_message(1) in auto)
  next
    case (fetch_response p xs)
    then have "inbound s \<noteq> InboundEnded" using assms(2) by (auto simp: order_inv_def)
    then have "split_at (ts @ [(None, p)]) xs s'"
      using sp fetch_response by (simp add: split_at_def)
    then show ?thesis by (rule sent_invI[rotated 3]) (use o fetch_response(1) in auto)
  next
    case (fetch_request i p xs)
    then have "inbound s \<noteq> InboundEnded" using assms(2) by (auto simp: order_inv_def)
    then have "split_at (ts @ [(Some i, p)]) xs s'"
      using sp fetch_request by (auto simp: split_at_def)
    moreover have "calls s i = Sending" using assms(3) fetch_request(3) by (simp add: queue_inv_def) metis
    then have "i \<notin> withdrawn s" using o(3)[of i] by auto
    ultimately show ?thesis by (intro sent_invI) (use o fetch_request(1) in auto)
  next
    case (request i one_way req key c)
    have w: "i \<notin> withdrawn s" "\<not> waits (Some i) ts"
      using o(2,3) request(2) sp waits_kept[of "Some i" s] by (auto simp: split_at_def)
    have "kept s' = kept s @ [(Some i, snd req)]"
      using kept_handed(2)[OF w(1), of "snd req"] by (simp add: request(1) kept_def)
    then have "split_at ts (us @ [(Some i, snd req)]) s'"
      using sp w(2) request(1) by (auto simp: split_at_def)
    then show ?thesis
      by (rule sent_invI[rotated 3])
        (use o w(1) request(1) send_request_fields(1)[OF request(4)] in \<open>auto split: if_splits\<close>)
  next
    case (transmit p)
    then have "split_at ts us s'" using sp by (simp add: split_at_def)
    then show ?thesis by (rule sent_invI[rotated 3]) (use o transmit(1) in auto)
  next
    case (request_withdrawn i)
    show ?thesis unfolding request_withdrawn(1) by (rule sent_inv_withdraw[OF inv request_withdrawn(2)])
  qed ((rule sent_inv_calls[OF inv]; force simp: wake_senders_def split: if_splits)+)
qed

text \<open>What the futures of the calls hold, and what the finished calls returned.\<close>

definition answer_so_far :: "rpc_id \<Rightarrow> ('q, 'r, 'e) message list \<Rightarrow> ('r, 'e) future" where
  "answer_so_far k ms = (case first_answer k ms of Some f \<Rightarrow> f | None \<Rightarrow> Pending)"

definition active :: "('r, 'e) rpc_call \<Rightarrow> bool" where
  "active c \<longleftrightarrow> c = Sending \<or> c = Waiting"

definition since_call :: "('m, 'p, 'q, 'r, 'e) rpc_session \<Rightarrow> nat \<Rightarrow> ('q, 'r, 'e) message list" where
  "since_call s i = drop (since s i) (received s)"

definition future_inv :: "('m, 'r, 'e) session_futures \<Rightarrow> ('m, 'p, 'q, 'r, 'e) rpc_session \<Rightarrow> bool" where
  "future_inv ops s \<longleftrightarrow>
     (\<forall>i k. active (calls s i) \<longrightarrow> keys s i = Some k \<longrightarrow>
        fut_get ops k (pending (core s)) = Some (answer_so_far k (since_call s i))) \<and>
     (\<forall>i j k. i \<noteq> j \<longrightarrow> active (calls s i) \<longrightarrow> active (calls s j) \<longrightarrow> keys s i = Some k \<longrightarrow> keys s j \<noteq> Some k) \<and>
     (\<forall>i. calls s i = Waiting \<longrightarrow> keys s i \<noteq> None) \<and>
     (\<forall>i. since s i \<le> length (received s))"

definition result_inv :: "('m, 'p, 'q, 'r, 'e) rpc_session \<Rightarrow> bool" where
  "result_inv s \<longleftrightarrow>
     (\<forall>i r. calls s i = Finished (Result r) \<longrightarrow>
        (\<exists>k. keys s i = Some k \<and> first_answer k (since_call s i) = Some (Resolved r))) \<and>
     (\<forall>i e. calls s i = Finished (Error e) \<longrightarrow>
        (\<exists>k. keys s i = Some k \<and> first_answer k (since_call s i) = Some (Failed e))) \<and>
     (\<forall>i. calls s i = Finished NoResponse \<longrightarrow> keys s i = None)"

lemma first_answer_append:
  "first_answer k (ms @ ns) = (case first_answer k ms of Some f \<Rightarrow> Some f | None \<Rightarrow> first_answer k ns)"
  by (induction ms) (auto split: option.split)

lemma answers_not_pending: "answers k m \<noteq> Some Pending"
  by (cases m) (auto split: option.split)

lemma first_answer_not_pending: "first_answer k ms \<noteq> Some Pending"
  by (induction ms) (auto split: option.split simp: answers_not_pending)

lemma answer_so_far_iff:
  "answer_so_far k ms = Resolved r \<longleftrightarrow> first_answer k ms = Some (Resolved r)"
  "answer_so_far k ms = Failed e \<longleftrightarrow> first_answer k ms = Some (Failed e)"
  by (auto simp: answer_so_far_def split: option.split)

lemma answer_so_far_snoc:
  "answer_so_far k (ms @ [m]) =
     (if answer_so_far k ms = Pending then case answers k m of Some f \<Rightarrow> f | None \<Rightarrow> Pending
      else answer_so_far k ms)"
  by (auto simp: answer_so_far_def first_answer_append first_answer_not_pending split: option.split)

lemma since_call_simps [simp]:
  "since_call (s\<lparr>core := a\<rparr>) i = since_call s i" "since_call (s\<lparr>calls := b\<rparr>) i = since_call s i"
  "since_call (s\<lparr>inbound := x\<rparr>) i = since_call s i" "since_call (s\<lparr>outbound := y\<rparr>) i = since_call s i"
  "since_call (s\<lparr>senders := z\<rparr>) i = since_call s i" "since_call (s\<lparr>keys := u\<rparr>) i = since_call s i"
  "since_call (s\<lparr>body := v\<rparr>) i = since_call s i" "since_call (s\<lparr>transmitted := w\<rparr>) i = since_call s i"
  "since_call (finish_call ops j key r s) i = since_call s i" "since_call (withdraw j s) i = since_call s i"
  "since_call (s\<lparr>handed := h\<rparr>) i = since_call s i" "since_call (s\<lparr>withdrawn := d\<rparr>) i = since_call s i"
  by (simp_all add: since_call_def)

lemma active_simps [simp]:
  "active Sending" "active Waiting" "\<not> active NotCalled" "\<not> active (Finished r)"
  "active (wake_senders cs i) = (cs i = Waiting)"
  by (auto simp: active_def wake_senders_def)

lemma laws_of_session:
  assumes "session_laws ops"
  shows "fut_get ops k (fut_new ops k m) = Some Pending" "j \<noteq> k \<Longrightarrow> fut_get ops j (fut_new ops k m) = fut_get ops j m"
    "j \<noteq> k \<Longrightarrow> fut_get ops j (fut_drop ops k m) = fut_get ops j m" "future_laws (future_ops.truncate ops)"
proof -
  show f: "future_laws (future_ops.truncate ops)" using assms by (simp add: session_laws_def)
  show "fut_get ops k (fut_new ops k m) = Some Pending" using f by (simp add: future_laws_def)
  show "fut_get ops j (fut_new ops k m) = fut_get ops j m" if "j \<noteq> k"
    using f that by (metis future_laws_def truncate_ops(1,2))
  show "fut_get ops j (fut_drop ops k m) = fut_get ops j m" if "j \<noteq> k"
    using assms that by (metis session_laws_def)
qed

lemma new_future_keeps:
  assumes "session_laws ops" and "future_inv ops s" and "active (calls s i)" and "keys s i = Some k"
    and "send_request (future_ops.truncate ops) one_way req (core s) = (Returns key, c)"
    and "\<forall>k. key = Some k \<longrightarrow> fut_get ops k (pending (core s)) = None"
  shows "fut_get ops k (pending c) = Some (answer_so_far k (since_call s i)) \<and> key \<noteq> Some k"
proof -
  have f: "fut_get ops k (pending (core s)) = Some (answer_so_far k (since_call s i))"
    using assms(2-4) by (simp add: future_inv_def)
  then have "key \<noteq> Some k" using assms(6) by auto
  then show ?thesis
    using f laws_of_session(2)[OF assms(1)] send_request_fields(4)[OF assms(5)] by (cases key) auto
qed

lemma waiting_answer:
  assumes "future_inv ops s" and "calls s i = Waiting" and "keys s i = Some k"
    and "fut_get ops k (pending (core s)) = Some f"
  shows "answer_so_far k (since_call s i) = f"
proof -
  have "active (calls s i)" using assms(2) by simp
  then show ?thesis using assms(1,3,4) by (simp add: future_inv_def)
qed

lemma future_inv_finish:
  assumes "session_laws ops" and "future_inv ops s" and "calls s i = Waiting" and "keys s i = Some k"
  shows "future_inv ops (finish_call ops i k r s)"
  unfolding future_inv_def
proof (intro conjI allI impI)
  fix j l assume j: "active (calls (finish_call ops i k r s) j)" "keys (finish_call ops i k r s) j = Some l"
  then have ij: "j \<noteq> i" and old: "active (calls s j)" by (auto split: if_splits)
  then have "l \<noteq> k" using assms(2-4) j(2) unfolding future_inv_def by (metis active_simps(2) finish_call_simps(4))
  then show "fut_get ops l (pending (core (finish_call ops i k r s))) =
      Some (answer_so_far l (since_call (finish_call ops i k r s) j))"
    using assms(2) old j(2) laws_of_session(3)[OF assms(1)] by (simp add: future_inv_def)
qed (use assms(2) in \<open>auto simp: future_inv_def split: if_splits\<close>)

lemma future_inv_handed: "future_inv ops (s\<lparr>handed := h\<rparr>) = future_inv ops s"
  by (simp add: future_inv_def)

lemma future_inv_receive:
  assumes laws: "session_laws ops" and inv: "future_inv ops s"
    and m: "handle_single_inbound_message (future_ops.truncate ops) handler m (core s) = (Returns (), c)"
    and i: "active (calls s i)" "keys s i = Some k"
  shows "fut_get ops k (pending c) = Some (answer_so_far k (drop (since s i) (received s @ [m])))"
proof -
  have "fut_get (future_ops.truncate ops) k (pending (core s)) = Some (answer_so_far k (since_call s i))"
    using inv i by (simp add: future_inv_def)
  note u = single_future[OF laws_of_session(4)[OF laws] m this]
  have "drop (since s i) (received s @ [m]) = since_call s i @ [m]"
    using inv by (simp add: future_inv_def since_call_def)
  then show ?thesis using u by (simp add: answer_so_far_snoc)
qed

lemma future_inv_frame:
  assumes "future_inv ops s" and "\<And>i. active (calls s' i) \<Longrightarrow> active (calls s i)"
    and "\<And>i. calls s' i = Waiting \<Longrightarrow> keys s i \<noteq> None"
    and "keys s' = keys s" "pending (core s') = pending (core s)" "received s' = received s" "since s' = since s"
  shows "future_inv ops s'"
  using assms(1-3) unfolding future_inv_def since_call_def assms(4-7) by (intro conjI allI impI) blast+

lemma future_inv_request:
  assumes laws: "session_laws ops" and inv: "future_inv ops s"
    and req: "send_request (future_ops.truncate ops) one_way req (core s) = (Returns key, c)"
    and fresh: "\<forall>k. key = Some k \<longrightarrow> fut_get ops k (pending (core s)) = None"
  shows "future_inv ops (s\<lparr>core := c, senders := xs, calls := (calls s)(i := Sending), keys := (keys s)(i := key),
    since := (since s)(i := length (received s))\<rparr>)" (is "future_inv ops ?s")
  unfolding future_inv_def
proof (intro conjI allI impI)
  note old = new_future_keeps[OF laws inv _ _ req fresh]
  fix j k assume j: "active (calls ?s j)" "keys ?s j = Some k"
  show "fut_get ops k (pending (core ?s)) = Some (answer_so_far k (since_call ?s j))"
  proof (cases "j = i")
    case True
    then show ?thesis using j(2) laws_of_session(1)[OF laws] send_request_fields(4)[OF req]
      by (simp add: since_call_def answer_so_far_def)
  next
    case False
    then show ?thesis using j old[of j k] by (simp add: since_call_def)
  qed
  fix l assume l: "j \<noteq> l" "active (calls ?s l)"
  show "keys ?s l \<noteq> Some k"
  proof (cases "i \<in> {j, l}")
    case True
    then show ?thesis using j l old[of j k] old[of l k] by auto
  next
    case False
    then show ?thesis using j l inv by (auto simp: future_inv_def)
  qed
qed (use inv in \<open>auto simp: future_inv_def split: if_splits\<close>)

lemma future_inv_refused:
  assumes laws: "session_laws ops" and inv: "future_inv ops s" and idle: "calls s i = NotCalled"
    and req: "send_request (future_ops.truncate ops) one_way req (core s) = (Returns key, c)"
    and fresh: "\<forall>k. key = Some k \<longrightarrow> fut_get ops k (pending (core s)) = None"
  shows "future_inv ops (s\<lparr>core := (core s)\<lparr>pending := pending c\<rparr>, calls := (calls s)(i := Finished r)\<rparr>)"
    (is "future_inv ops ?s")
  unfolding future_inv_def
proof (intro conjI allI impI)
  fix j k assume j: "active (calls ?s j)" "keys ?s j = Some k"
  then have "active (calls s j)" by (auto split: if_splits)
  then show "fut_get ops k (pending (core ?s)) = Some (answer_so_far k (since_call ?s j))"
    using j new_future_keeps[OF laws inv _ _ req fresh, of j k] by simp
qed (use inv in \<open>auto simp: future_inv_def split: if_splits\<close>)

lemma future_inv_step:
  assumes "session_step ops handler s s'" and laws: "session_laws ops" and inv: "future_inv ops s" "queue_inv s"
  shows "future_inv ops s'"
  using assms(1)
proof (cases rule: session_step.cases)
  case (receive_message m c)
  have "since s i \<le> length (received s) + 1" for i using inv(1) by (simp add: future_inv_def le_SucI)
  then show ?thesis
    unfolding receive_message(1) future_inv_def
    using future_inv_receive[OF laws inv(1) receive_message(3)] inv(1)
    by (simp add: since_call_def future_inv_def)
next
  case (fetch_request i p xs)
  then have "calls s i = Sending" using inv(2) by (auto simp: queue_inv_def)
  then have a: "active (calls s i)" by simp
  show ?thesis
    by (rule future_inv_frame[OF inv(1)])
      (use fetch_request(1) a inv(1) in \<open>auto simp: future_inv_def split: if_splits\<close>)
next
  case (request i one_way req key c)
  show ?thesis unfolding request(1) future_inv_handed by (rule future_inv_request[OF laws inv(1) request(4,5)])
next
  case (request_refused i one_way req key c)
  show ?thesis unfolding request_refused(1)
    by (rule future_inv_refused[OF laws inv(1) request_refused(2,4,5)])
next
  case (request_cancelled i one_way req key c)
  show ?thesis unfolding request_cancelled(1)
    by (rule future_inv_refused[OF laws inv(1) request_cancelled(2-4)])
next
  case (request_withdrawn i)
  show ?thesis
    by (rule future_inv_frame[OF inv(1)]) (use request_withdrawn(1) inv(1) in \<open>auto simp: future_inv_def split: if_splits\<close>)
next
  case channel_ends
  show ?thesis
    by (rule future_inv_frame[OF inv(1)]) (use channel_ends(1) inv(1) in \<open>auto simp: future_inv_def\<close>)
qed (use future_inv_finish[OF laws inv(1)] future_inv_frame[OF inv(1)] inv(1) in \<open>simp_all add: future_inv_def\<close>)

lemma first_answer_stays: "first_answer k ms = Some f \<Longrightarrow> first_answer k (ms @ ns) = Some f"
  by (simp add: first_answer_append)

lemma result_inv_step:
  assumes "session_step ops handler s s'" and inv: "result_inv s" "future_inv ops s" "queue_inv s"
  shows "result_inv s'"
  using assms(1)
proof (cases rule: session_step.cases)
  case (receive_message m c)
  have "since_call s' i = since_call s i @ [m]" for i
    using receive_message(1) inv(2) by (simp add: since_call_def future_inv_def)
  then show ?thesis using receive_message(1) inv(1) by (fastforce simp: result_inv_def first_answer_stays)
next
  case (request i one_way req key c)
  have "since_call s' j = since_call s j" if "j \<noteq> i" for j
    using that request(1) by (simp add: since_call_def)
  then show ?thesis using request(1) inv(1) by (auto simp: result_inv_def)
next
  case (resolved i key r)
  then have "first_answer key (since_call s i) = Some (Resolved r)"
    using waiting_answer[OF inv(2)] by (simp flip: answer_so_far_iff)
  then show ?thesis using resolved inv(1) by (auto simp: result_inv_def)
next
  case (failed i key e)
  then have "first_answer key (since_call s i) = Some (Failed e)"
    using waiting_answer[OF inv(2)] by (simp flip: answer_so_far_iff)
  then show ?thesis using failed inv(1) by (auto simp: result_inv_def)
qed (use inv(1) in \<open>auto simp: result_inv_def\<close>)

lemma session_inv:
  assumes "session_reachable ops handler s" and "session_laws ops"
  shows "queue_inv s \<and> order_inv s \<and> future_inv ops s \<and> result_inv s \<and> sent_inv s"
  using assms(1)
proof induction
  case (session_starts futures log)
  show ?case
    by (auto simp: init_session_def queue_inv_def order_inv_def future_inv_def result_inv_def sent_inv_def split_at_def
        kept_def)
next
  case (session_moves s s')
  then show ?case
    using queue_inv_step order_inv_step future_inv_step[OF _ assms(2)] result_inv_step sent_inv_step by blast
qed

text \<open>The timeout of a request starts when the outbound task has taken it: before, it can wait for ever.\<close>

lemma no_timeout_while_sending:
  assumes "session_step ops handler s s'" and "calls s i = Sending"
  shows "calls s' i \<noteq> Finished TooSlow"
  using assms by (cases rule: session_step.cases) (auto simp: wake_senders_def)

section \<open>Properties\<close>

lemma sent_prefix: "sent_inv s \<Longrightarrow> prefix (transmitted s) (map snd (kept s))"
  by (auto simp: sent_inv_def split_at_def prefix_def)

text \<open>
  Every call of the peer gets its own answer. In every reachable state of a session, with
  any number of calls and any messages in any order: a call that returned a result was answered
  with this result by the first message, of those received since the call was made, that carries
  its key; likewise for an error of the peer; a call returned without waiting only where no
  response is expected; and the future of a waiting call holds the answer received so far.
\<close>

theorem calls_get_their_answers:
  assumes "session_reachable ops handler s" and "session_laws ops"
  shows "case calls s i of
      Finished (Result r) \<Rightarrow> \<exists>k. keys s i = Some k \<and> first_answer k (since_call s i) = Some (Resolved r)
    | Finished (Error e) \<Rightarrow> \<exists>k. keys s i = Some k \<and> first_answer k (since_call s i) = Some (Failed e)
    | Finished NoResponse \<Rightarrow> keys s i = None
    | Waiting \<Rightarrow> \<exists>k. keys s i = Some k \<and>
        fut_get ops k (pending (core s)) = Some (answer_so_far k (since_call s i))
    | _ \<Rightarrow> True"
proof -
  have inv: "future_inv ops s" "result_inv s" using session_inv[OF assms] by simp_all
  show ?thesis
  proof (cases "calls s i")
    case Waiting
    then have "active (calls s i)" by simp
    then show ?thesis using inv(1) Waiting by (auto simp: future_inv_def)
  next
    case (Finished x)
    then show ?thesis using inv(2) by (cases x) (auto simp: result_inv_def)
  qed simp_all
qed

text \<open>
  C34. The outbound queue is fair and loses nothing while the channel is up. What has been sent over
  the channel, is being sent, and waits in the queue is, in this order, what responses and requests
  have been handed to the queue, less the requests that were withdrawn because their callers were
  cancelled; and in any case what has been sent is a prefix of that.
\<close>

theorem outbound_in_order:
  assumes "session_reachable ops handler s" and "session_laws ops"
  shows "map snd (handed s) = outbox (core s) \<and> (\<forall>i \<in> withdrawn s. calls s i = Finished (Interrupted Cancelled)) \<and>
    prefix (transmitted s) (map snd (kept s)) \<and>
    (\<not> queue_closed (core s) \<longrightarrow>
       map snd (kept s) = transmitted s @ in_flight (outbound s) @ map snd (senders s))"
proof -
  have inv: "sent_inv s" "order_inv s" using session_inv[OF assms] by simp_all
  then obtain ts us where o: "map snd (handed s) = outbox (core s)"
    "\<And>i. i \<in> withdrawn s \<Longrightarrow> calls s i = Finished (Interrupted Cancelled)" "split_at ts us s"
    by (metis sent_invE)
  have "map snd (kept s) = transmitted s @ in_flight (outbound s) @ map snd (senders s)" if "\<not> queue_closed (core s)"
  proof -
    have "us = senders s" using o(3) inv(2) that by (auto simp: split_at_def order_inv_def)
    then show ?thesis using o(3) by (simp add: split_at_def)
  qed
  then show ?thesis using o(1,2) sent_prefix[OF inv(1)] by simp
qed

text \<open>
  C33. The end of the channel ends the session. Once the channel has ended, the body has been
  cancelled or has left, nobody waits in the queue, and the session can run to its end by itself:
  the message in flight, if any, is still sent, and no other.
\<close>

theorem session_shuts_down:
  assumes "session_reachable ops handler s" and "session_laws ops" and "inbound s = InboundEnded"
  shows "body s \<noteq> BodyRuns \<and> senders s = [] \<and> scope_cancelled (core s) \<and>
    (\<exists>s'. (session_step ops handler)\<^sup>*\<^sup>* s s' \<and> session_over s' \<and>
       transmitted s' = transmitted s @ in_flight (outbound s))"
proof -
  have inv: "body s \<noteq> BodyRuns" "senders s = []" "scope_cancelled (core s)" "queue_closed (core s)"
    using session_inv[OF assms(1,2)] assms(3) by (auto simp: order_inv_def)
  have ends: "session_step ops handler t (t\<lparr>outbound := OutboundEnded\<rparr>)"
    if "outbound t = Fetching" "queue_closed (core t)" "senders t = []" for t
    using that by (rule outbound_ends)
  have "\<exists>s'. (session_step ops handler)\<^sup>*\<^sup>* s s' \<and> session_over s' \<and>
      transmitted s' = transmitted s @ in_flight (outbound s)"
  proof (cases "outbound s")
    case Fetching
    then show ?thesis using ends[of s] inv assms(3)
      by (intro exI[of _ "s\<lparr>outbound := OutboundEnded\<rparr>"]) (auto simp: session_over_def)
  next
    case (Transmitting p)
    let ?t = "s\<lparr>outbound := Fetching, transmitted := transmitted s @ [p]\<rparr>"
    have "session_step ops handler s ?t" using Transmitting by (rule transmit)
    moreover have "session_step ops handler ?t (?t\<lparr>outbound := OutboundEnded\<rparr>)"
      by (rule ends) (use inv in simp_all)
    ultimately show ?thesis using Transmitting inv assms(3)
      by (intro exI[of _ "?t\<lparr>outbound := OutboundEnded\<rparr>"])
        (auto simp: session_over_def intro: rtranclp.rtrancl_into_rtrancl)
  next
    case OutboundEnded
    then show ?thesis using inv assms(3) by (intro exI[of _ s]) (auto simp: session_over_def)
  qed
  then show ?thesis using inv by simp
qed

section \<open>Witnesses\<close>

text \<open>A request is made, taken, sent, answered, and its call returns the result.\<close>

definition session_map :: "(rpc_id \<rightharpoonup> (string, nat) future, string, nat) session_futures" where
  "session_map = future_ops.extend map_futures \<lparr>fut_drop = (\<lambda>i m. m(i := None))\<rparr>"

lemma session_map_simps [simp]:
  "fut_get session_map i m = m i" "fut_new session_map i m = m(i \<mapsto> Pending)"
  "fut_drop session_map i m = m(i := None)" "future_ops.truncate session_map = map_futures"
  by (simp_all add: session_map_def map_futures_def future_ops.extend_def future_ops.truncate_def)

lemma session_map_laws: "session_laws session_map"
  by (simp add: session_laws_def map_futures_laws)

lemma sample_session:
  "\<exists>s. session_reachable session_map echo s \<and> calls s 0 = Finished (Result ''yes'') \<and>
     keys s 0 = Some (StrId ''a'') \<and> transmitted s = [''q''] \<and> senders s = [] \<and> outbound s = Fetching \<and>
     inbound s = Reading \<and> \<not> queue_closed (core s) \<and> withdrawn s = {}"
proof -
  let ?init = "init_session (\<lambda>_. None) False :: (rpc_id \<rightharpoonup> (string, nat) future, string, string, string, nat) rpc_session"
  obtain c where c: "send_request map_futures False (Some (StrId ''a''), ''q'') (core ?init) = (Returns (Some (StrId ''a'')), c)"
      "pending c = [StrId ''a'' \<mapsto> Pending]" "\<not> queue_closed c"
    by (simp add: send_request_def Let_def map_futures_def init_session_def)
  define s1 where "s1 = ?init\<lparr>core := c, senders := [(Some 0, ''q'')], calls := (\<lambda>_. NotCalled)(0 := Sending),
     keys := (\<lambda>_. None)(0 := Some (StrId ''a'')), since := (\<lambda>_. 0)(0 := 0), handed := [(Some 0, ''q'')]\<rparr>"
  have "session_step session_map echo ?init s1"
    using request[of ?init 0 session_map False "(Some (StrId ''a''), ''q'')" "Some (StrId ''a'')" c echo] c(1)
    by (simp add: s1_def init_session_def)
  then have r1: "session_reachable session_map echo s1" by (rule session_moves[OF session_starts])
  define s2 where "s2 = s1\<lparr>outbound := Transmitting ''q'', senders := [], calls := (\<lambda>_. NotCalled)(0 := Waiting)\<rparr>"
  have "session_step session_map echo s1 s2"
    using fetch_request[of s1 0 "''q''" "[]" session_map echo] by (simp add: s1_def s2_def init_session_def)
  then have r2: "session_reachable session_map echo s2" by (rule session_moves[OF r1])
  define s3 where "s3 = s2\<lparr>outbound := Fetching, transmitted := [''q'']\<rparr>"
  have "session_step session_map echo s2 s3"
    using transmit[of s2 "''q''" session_map echo] by (simp add: s1_def s2_def s3_def init_session_def)
  then have r3: "session_reachable session_map echo s3" by (rule session_moves[OF r2])
  let ?m = "Response (StrId ''a'') None ''yes''"
  define d where "d = c\<lparr>pending := [StrId ''a'' \<mapsto> Resolved ''yes'']\<rparr>"
  define s4 where "s4 = s3\<lparr>core := d, received := [?m]\<rparr>"
  have "session_step session_map echo s3 s4"
    using receive_message[of s3 session_map echo ?m d] c(2)
    by (simp add: s1_def s2_def s3_def s4_def d_def init_session_def settle_def map_futures_def fun_upd_upd)
  then have r4: "session_reachable session_map echo s4" by (rule session_moves[OF r3])
  have "session_step session_map echo s4 (finish_call session_map 0 (StrId ''a'') (Result ''yes'') s4)"
    by (rule resolved) (simp_all add: s1_def s2_def s3_def s4_def d_def init_session_def)
  then have "session_reachable session_map echo (finish_call session_map 0 (StrId ''a'') (Result ''yes'') s4)"
    by (rule session_moves[OF r4])
  then show ?thesis
    using c(3) by (intro exI[of _ "finish_call session_map 0 (StrId ''a'') (Result ''yes'') s4"])
      (simp add: s1_def s2_def s3_def s4_def d_def init_session_def)
qed

theorem calls_get_their_answers_witness:
  "\<exists>s. session_reachable session_map echo s \<and> calls s 0 = Finished (Result ''yes'') \<and>
     first_answer (StrId ''a'') (since_call s 0) = Some (Resolved ''yes'')"
proof -
  obtain s where s: "session_reachable session_map echo s" "calls s 0 = Finished (Result ''yes'')"
      "keys s 0 = Some (StrId ''a'')"
    using sample_session by auto
  show ?thesis using calls_get_their_answers[OF s(1) session_map_laws, of 0] s by auto
qed

theorem outbound_in_order_witness:
  "\<exists>s. session_reachable session_map echo s \<and> transmitted s = [''q''] \<and> outbox (core s) = [''q'']"
proof -
  obtain s where s: "session_reachable session_map echo s" "transmitted s = [''q'']" "senders s = []"
      "outbound s = Fetching" "\<not> queue_closed (core s)" "withdrawn s = {}"
    using sample_session by auto
  have "kept s = handed s" using s(6) by (simp add: kept_def)
  then show ?thesis using outbound_in_order[OF s(1) session_map_laws] s by auto
qed

theorem session_shuts_down_witness:
  "\<exists>s s'. session_reachable session_map echo s \<and> inbound s = InboundEnded \<and>
     (session_step session_map echo)\<^sup>*\<^sup>* s s' \<and> session_over s' \<and> transmitted s' = [''q'']"
proof -
  obtain s where s: "session_reachable session_map echo s" "transmitted s = [''q'']"
      "outbound s = Fetching" "inbound s = Reading"
    using sample_session by auto
  obtain t where t: "session_step session_map echo s t" "inbound t = InboundEnded" "transmitted t = [''q'']"
      "outbound t = Fetching"
    using channel_ends[OF s(4), of session_map echo] s by fastforce
  then have "session_reachable session_map echo t" using session_moves[OF s(1)] by blast
  from session_shuts_down[OF this session_map_laws t(2)] t this show ?thesis by auto
qed

end
