(* ===== verification/Memory_Connections.thy ===== *)
theory Memory_Connections
  imports Stream_Connection
begin

text \<open>
  Connections without I/O of their own: \<^verbatim>\<open>DummyConnection\<close> (connections/dummy.py) and
  \<^verbatim>\<open>ChannelConnection\<close> (connections/channel.py), which reads from and writes to the two ends of
  Trio channels it is given. \<^verbatim>\<open>sleep(0)\<close> is a checkpoint, which returns; \<^verbatim>\<open>sleep_forever()\<close> blocks.
\<close>

section \<open>Dummy connections\<close>

definition dummy_open :: "('z connection_scheme, unit) action" where
  "dummy_open = ret ()"

definition dummy_close :: "('z connection_scheme, unit) action" where
  "dummy_close = ret ()"

definition dummy_read :: "('z connection_scheme, bytes) action" where
  "dummy_read = and_then block (\<lambda>_::unit. ret [])"

definition dummy_write :: "'d \<Rightarrow> ('z connection_scheme, unit) action" where
  "dummy_write data = ret ()"

lemma leaves_dummy [simp]: "leaves_lifecycle dummy_open" "leaves_lifecycle dummy_close"
  by (simp_all add: dummy_open_def dummy_close_def)

section \<open>Channel connections\<close>

text \<open>
  The channels are Trio's: a state of type \<open>'q\<close> with the four operations the class calls on the
  two ends it holds.
\<close>

record ('q, 'i, 'o) channel_ops =
  tx_send :: "'o \<Rightarrow> ('q, unit) action"
  tx_aclose :: "('q, unit) action"
  rx_receive :: "('q, 'i) action"
  rx_aclose :: "('q, unit) action"

record 'q channel_connection = connection +
  net :: 'q

definition on_net :: "('q, 'a) action \<Rightarrow> (('q, 'z) channel_connection_scheme, 'a) action" where
  "on_net m c = (case m (net c) of (r, q) \<Rightarrow> (r, c\<lparr>net := q\<rparr>))"

definition channel_conn_open :: "(('q, 'z) channel_connection_scheme, unit) action" where
  "channel_conn_open = ret ()"

definition channel_conn_close ::
  "('q, 'i, 'o) channel_ops \<Rightarrow> (('q, 'z) channel_connection_scheme, unit) action" where
  "channel_conn_close ops = and_then (on_net (tx_aclose ops)) (\<lambda>_. on_net (rx_aclose ops))"

definition channel_conn_read ::
  "('q, 'i, 'o) channel_ops \<Rightarrow> (('q, 'z) channel_connection_scheme, 'i) action" where
  "channel_conn_read ops = on_net (rx_receive ops)"

definition channel_conn_write ::
  "('q, 'i, 'o) channel_ops \<Rightarrow> 'o \<Rightarrow> (('q, 'z) channel_connection_scheme, unit) action" where
  "channel_conn_write ops data = on_net (tx_send ops data)"

lemma net_update_base [simp]:
  "conn_state (c\<lparr>net := x\<rparr>) = conn_state c" "sent (c\<lparr>net := x\<rparr>) = sent c"
  "flags_ok (c\<lparr>net := x\<rparr>) = flags_ok c"
  by (simp_all add: flags_ok_def)

lemma leaves_on_net [simp]: "leaves_lifecycle (on_net m)"
  by (auto simp: leaves_lifecycle_def on_net_def split: prod.split)

lemma leaves_channel_conn [simp]:
  "leaves_lifecycle channel_conn_open" "leaves_lifecycle (channel_conn_close ops)"
  by (auto simp: channel_conn_open_def channel_conn_close_def intro: leaves_and_then)

end
