(* ===== verification/Supervision.thy ===== *)
theory Supervision
  imports Complex_Main Memory_Connections
begin

text \<open>
  \<^verbatim>\<open>connections/supervision.py\<close>: the function \<open>supervise\<close>, its policies, and the
  \<^verbatim>\<open>ConnectionSupervisor\<close>.

  The connection, the task and the policy are given by the caller: they are actions on a world of
  type \<open>'w\<close>, gathered in the record \<open>supervised\<close>. The nursery in which the task races with
  \<^verbatim>\<open>wait_until_disconnected\<close> and \<^verbatim>\<open>trio.sleep\<close> are Trio's and are arguments too. The loop may run
  forever: \<open>None\<close> is the loop that does not end.
\<close>

section \<open>Policies\<close>

text \<open>
  What a policy is called with (besides the connection), and what it may answer. A float is a
  rational number: the two infinities and NaN are left out.
\<close>

datatype event = Opened | Closed | Failed exn

datatype answer = AnswerNone | AnswerBool bool | AnswerInt int | AnswerFloat rat | AnswerOther string

type_synonym 'w policy = "event \<Rightarrow> ('w, answer) action"

definition constant_policy :: "answer \<Rightarrow> 'w policy" where
  "constant_policy x = (\<lambda>_. ret x)"

definition constant_delay_policy :: "rat \<Rightarrow> 'w policy" where
  "constant_delay_policy seconds = constant_policy (AnswerFloat seconds)"

definition default_policy :: "'w policy" where
  "default_policy = constant_delay_policy 1"

definition no_reconnection_policy :: "'w policy" where
  "no_reconnection_policy = constant_policy (AnswerBool False)"

section \<open>The loop\<close>

record 'w supervised =
  sv_open :: "('w, unit) action"
  sv_wait :: "('w, unit) action"
  sv_task :: "('w, unit) action option"
  sv_race :: "('w, unit) action \<Rightarrow> ('w, unit) action \<Rightarrow> ('w, unit) action"
  sv_sleep :: "rat \<Rightarrow> ('w, unit) action"

text \<open>Waiting for the end of the connection, or for that of the task if there is one.\<close>

definition session :: "'w supervised \<Rightarrow> ('w, unit) action" where
  "session sv =
     (case sv_task sv of
        Some task \<Rightarrow> sv_race sv task (sv_wait sv)
      | None \<Rightarrow> sv_wait sv)"

text \<open>The \<^verbatim>\<open>try\<close> statement: its body, then \<^verbatim>\<open>except Exception\<close> or \<^verbatim>\<open>else\<close>.\<close>

definition attempt :: "'w supervised \<Rightarrow> 'w policy \<Rightarrow> ('w, answer) action" where
  "attempt sv policy w =
     (case and_then (sv_open sv) (\<lambda>_. and_then (policy Opened) (\<lambda>_. session sv)) w of
        (Returns _, w') \<Rightarrow> policy Closed w'
      | (Raises ex, w') \<Rightarrow> if is_Exception ex then policy (Failed ex) w' else (Raises ex, w')
      | (Blocks, w') \<Rightarrow> (Blocks, w'))"

text \<open>\<^verbatim>\<open>isinstance(action, (int, float))\<close>, with the number; \<^verbatim>\<open>bool\<close> is a subclass of \<^verbatim>\<open>int\<close>.\<close>

definition delay_of :: "answer \<Rightarrow> rat option" where
  "delay_of a =
     (case a of
        AnswerBool b \<Rightarrow> Some (of_bool b)
      | AnswerInt n \<Rightarrow> Some (of_int n)
      | AnswerFloat x \<Rightarrow> Some x
      | _ \<Rightarrow> None)"

text \<open>Any other answer, named by its text.\<close>

definition invalid_action :: "answer \<Rightarrow> exn" where
  "invalid_action a =
     ValueError (''invalid supervision policy action: '' @ (case a of AnswerOther t \<Rightarrow> t | _ \<Rightarrow> []))"

text \<open>One pass of the \<^verbatim>\<open>while\<close> loop: whether it goes on.\<close>

datatype verdict = Again | Stop "unit outcome"

definition one_pass :: "'w supervised \<Rightarrow> 'w policy \<Rightarrow> 'w \<Rightarrow> verdict \<times> 'w" where
  "one_pass sv policy w =
     (case attempt sv policy w of
        (Raises e, w') \<Rightarrow> (Stop (Raises e), w')
      | (Blocks, w') \<Rightarrow> (Stop Blocks, w')
      | (Returns a, w') \<Rightarrow>
          if a = AnswerBool False \<or> a = AnswerNone then (Stop (Returns ()), w')
          else (case delay_of a of
                  Some d \<Rightarrow>
                    (case sv_sleep sv d w' of
                       (Returns _, w'') \<Rightarrow> (Again, w'')
                     | (Raises e, w'') \<Rightarrow> (Stop (Raises e), w'')
                     | (Blocks, w'') \<Rightarrow> (Stop Blocks, w''))
                | None \<Rightarrow> (Stop (Raises (invalid_action a)), w')))"

partial_function (option) supervise_loop ::
  "'w supervised \<Rightarrow> 'w policy \<Rightarrow> 'w \<Rightarrow> (unit outcome \<times> 'w) option" where
  "supervise_loop sv policy w =
     (case one_pass sv policy w of (v, w') \<Rightarrow>
        (case v of Again \<Rightarrow> supervise_loop sv policy w' | Stop r \<Rightarrow> Some (r, w')))"

definition supervise :: "'w supervised \<Rightarrow> 'w policy option \<Rightarrow> 'w \<Rightarrow> (unit outcome \<times> 'w) option" where
  "supervise sv policy =
     supervise_loop sv (case policy of Some p \<Rightarrow> p | None \<Rightarrow> default_policy)"

section \<open>The supervisor\<close>

text \<open>
  A connection of the supervisor: its operations, whether it is a listener, and the action that
  accepts an incoming connection when it is one (the accepted connections are of type \<open>'k\<close> again).
\<close>

record 'w entry =
  entry_policy :: "'w policy"
  cancel_called :: bool

datatype ('k, 'w) command =
    Add 'k "('k \<Rightarrow> ('w, unit) action) option" "'w policy option"
  | Remove 'k

record ('k, 'w) supervisor =
  sup_policy :: "'w policy"
  entries :: "'k \<Rightarrow> 'w entry option"
  has_nursery :: bool
  sup_queue :: "('k, 'w) command list"
  spawned :: "('k \<times> ('k \<Rightarrow> ('w, unit) action) option \<times> 'w policy option) list"
  clients :: "(('k \<Rightarrow> ('w, unit) action) \<times> 'k) list"
  world :: 'w

definition init_supervisor :: "'w policy option \<Rightarrow> 'w \<Rightarrow> ('k, 'w) supervisor" where
  "init_supervisor policy w =
     \<lparr>sup_policy = (case policy of Some p \<Rightarrow> p | None \<Rightarrow> default_policy), entries = (\<lambda>_. None),
      has_nursery = False, sup_queue = [], spawned = [], clients = [], world = w\<rparr>"

text \<open>\<^verbatim>\<open>add\<close> and \<^verbatim>\<open>remove\<close> send a command into a queue of 32 places, and wait when it is full.\<close>

definition queue_size :: nat where "queue_size = 32"

definition enqueue :: "('k, 'w) command \<Rightarrow> (('k, 'w) supervisor, unit) action" where
  "enqueue cmd s =
     (if length (sup_queue s) < queue_size
      then (Returns (), s\<lparr>sup_queue := sup_queue s @ [cmd]\<rparr>) else (Blocks, s))"

definition supervisor_add ::
  "'k \<Rightarrow> ('k \<Rightarrow> ('w, unit) action) option \<Rightarrow> 'w policy option \<Rightarrow> (('k, 'w) supervisor, unit) action" where
  "supervisor_add conn task policy = enqueue (Add conn task policy)"

definition supervisor_remove :: "'k \<Rightarrow> (('k, 'w) supervisor, unit) action" where
  "supervisor_remove conn = enqueue (Remove conn)"

text \<open>
  One pass of \<^verbatim>\<open>_run_main_loop\<close>: \<open>start_soon\<close> of \<^verbatim>\<open>supervise\<close> is recorded in \<open>spawned\<close>;
  \<^verbatim>\<open>entry.cancel()\<close> is recorded in the entry.
\<close>

definition cancel_entry :: "'w entry \<Rightarrow> 'w entry" where
  "cancel_entry e = e\<lparr>cancel_called := True\<rparr>"

definition handle_command :: "('k, 'w) command \<Rightarrow> ('k, 'w) supervisor \<Rightarrow> ('k, 'w) supervisor" where
  "handle_command cmd s =
     (case cmd of
        Add conn task policy \<Rightarrow> s\<lparr>spawned := spawned s @ [(conn, task, policy)]\<rparr>
      | Remove conn \<Rightarrow>
          (case entries s conn of
             None \<Rightarrow> s
           | Some e \<Rightarrow> s\<lparr>entries := (entries s)(conn := Some (cancel_entry e))\<rparr>))"

definition main_loop_step :: "(('k, 'w) supervisor, unit) action" where
  "main_loop_step s =
     (if \<not> has_nursery s then (Raises AssertionError, s)
      else case sup_queue s of
             [] \<Rightarrow> (Blocks, s)
           | cmd # cmds \<Rightarrow> (Returns (), handle_command cmd (s\<lparr>sup_queue := cmds\<rparr>)))"

text \<open>
  The method \<^verbatim>\<open>supervise\<close>. The operations of the connection come as \<open>sv\<close> (without a task) and
  \<open>close\<close>; \<open>was_connected\<close> and \<open>listener\<close> are what \<^verbatim>\<open>is_connected\<close> and \<^verbatim>\<open>isinstance\<close> answer; \<open>accepting\<close>
  is \<^verbatim>\<open>_handle_incoming_connections_from_listener\<close> with its task. The cancel scope turns a
  \<^verbatim>\<open>Cancelled\<close> of its own, recorded in the entry while it exists, into a normal return.
\<close>

definition on_world :: "('w, 'a) action \<Rightarrow> (('k, 'w) supervisor, 'a) action" where
  "on_world m s = (case m (world s) of (r, w) \<Rightarrow> (r, s\<lparr>world := w\<rparr>))"

definition leave_scope :: "bool \<Rightarrow> unit outcome \<Rightarrow> unit outcome" where
  "leave_scope cancelled r = (if cancelled \<and> r = Raises Cancelled then Returns () else r)"

text \<open>
  The \<^verbatim>\<open>finally\<close> clause: the entry goes, and the connection is closed if it was not connected at
  the start. An exception of \<^verbatim>\<open>close()\<close> replaces the one in flight.
\<close>

definition end_supervision ::
  "'k \<Rightarrow> ('w, unit) action \<Rightarrow> bool \<Rightarrow> unit outcome \<Rightarrow> ('k, 'w) supervisor \<Rightarrow> unit outcome \<times> ('k, 'w) supervisor" where
  "end_supervision conn close should_close r s =
     (let s' = s\<lparr>entries := (entries s)(conn := None)\<rparr> in
      if should_close then (case on_world close s' of (Returns _, s'') \<Rightarrow> (r, s'') | q \<Rightarrow> q)
      else (r, s'))"

text \<open>
  While the supervised loop runs, the main loop may cancel the entry: \<open>interrupted\<close> says whether
  it has done so by the end of the loop.
\<close>

definition supervisor_supervise ::
  "'w supervised \<Rightarrow> ('w, unit) action \<Rightarrow> bool \<Rightarrow> bool \<Rightarrow> (('k \<Rightarrow> ('w, unit) action) \<Rightarrow> ('w, unit) action) \<Rightarrow>
   bool \<Rightarrow> 'k \<Rightarrow> ('k \<Rightarrow> ('w, unit) action) option \<Rightarrow> 'w policy option \<Rightarrow> ('k, 'w) supervisor \<Rightarrow>
   (unit outcome \<times> ('k, 'w) supervisor) option" where
  "supervisor_supervise sv close was_connected listener accepting interrupted conn task policy s =
     (if entries s conn \<noteq> None then Some (Raises AssertionError, s)
      else
        let policy = (case policy of Some p \<Rightarrow> p | None \<Rightarrow> sup_policy s);
            should_close = \<not> was_connected
        in if listener \<and> task = None
           then Some (Raises (RuntimeError ''task must be specified for ListenerConnection instances''), s)
           else
             let task' = (case task of
                            None \<Rightarrow> None
                          | Some f \<Rightarrow> Some (if listener then accepting f else f conn));
                 s1 = s\<lparr>entries := (entries s)(conn \<mapsto>
                          \<lparr>entry_policy = policy, cancel_called = False\<rparr>)\<rparr>
             in case supervise (sv\<lparr>sv_task := task'\<rparr>) (Some (sup_policy s)) (world s1) of
                  None \<Rightarrow> None
                | Some (Blocks, w) \<Rightarrow> Some (Blocks, s1\<lparr>world := w\<rparr>)
                | Some (r, w) \<Rightarrow>
                    (case end_supervision conn close should_close r (s1\<lparr>world := w\<rparr>) of
                       (q, s2) \<Rightarrow> Some (leave_scope interrupted q, s2)))"

text \<open>
  \<^verbatim>\<open>_handle_incoming_connections_from_listener\<close>: the clients accepted, each given to the task in the
  nursery; an exception ends the loop and is logged.
\<close>

partial_function (option) accept_loop ::
  "('w, 'k) action \<Rightarrow> ('k \<Rightarrow> ('w, unit) action) \<Rightarrow> ('k, 'w) supervisor \<Rightarrow>
   (unit outcome \<times> ('k, 'w) supervisor) option" where
  "accept_loop accept task s =
     (case on_world accept s of (r, s') \<Rightarrow>
        (case r of
           Returns client \<Rightarrow> accept_loop accept task (s'\<lparr>clients := clients s' @ [(task, client)]\<rparr>)
         | Raises e \<Rightarrow> Some (if is_Exception e then Returns () else Raises e, s')
         | Blocks \<Rightarrow> Some (Blocks, s')))"

definition handle_incoming ::
  "('w, 'k) action \<Rightarrow> ('k \<Rightarrow> ('w, unit) action) \<Rightarrow> ('k, 'w) supervisor \<Rightarrow>
   (unit outcome \<times> ('k, 'w) supervisor) option" where
  "handle_incoming accept task s =
     (if \<not> has_nursery s then Some (Raises AssertionError, s) else accept_loop accept task s)"

section \<open>The passes of the loop\<close>

text \<open>The world after \<open>k\<close> passes that each asked for another one.\<close>

fun after :: "'w supervised \<Rightarrow> 'w policy \<Rightarrow> nat \<Rightarrow> 'w \<Rightarrow> 'w option" where
  "after sv policy 0 w = Some w"
| "after sv policy (Suc k) w =
     (case one_pass sv policy w of (Again, w') \<Rightarrow> after sv policy k w' | (Stop _, _) \<Rightarrow> None)"

lemma loop_after:
  "after sv policy k w = Some v \<Longrightarrow> supervise_loop sv policy w = supervise_loop sv policy v"
proof (induction k arbitrary: w)
  case (Suc k)
  obtain w' where "one_pass sv policy w = (Again, w')" "after sv policy k w' = Some v"
    using Suc.prems by (auto split: prod.splits verdict.splits)
  then show ?case using Suc.IH[of w'] by (subst supervise_loop.simps) simp
qed simp

lemma loop_stops:
  "one_pass sv policy w = (Stop r, w') \<Longrightarrow> supervise_loop sv policy w = Some (r, w')"
  by (subst supervise_loop.simps) simp

lemma loop_result:
  "supervise_loop sv policy w = Some (r, w') \<Longrightarrow>
    \<exists>k v. after sv policy k w = Some v \<and> one_pass sv policy v = (Stop r, w')"
proof -
  have "\<exists>k v. after sv policy k w = Some v \<and> one_pass sv policy v = (Stop (fst y), snd y)"
    if "supervise_loop sv policy w = Some y" for sv :: "'a supervised" and policy w y
  proof (rule supervise_loop.raw_induct[OF _ that, where P = "\<lambda>sv policy w y.
      \<exists>k v. after sv policy k w = Some v \<and> one_pass sv policy v = (Stop (fst y), snd y)"], goal_cases)
    case (1 f sv policy w y)
    obtain v w1 where p: "one_pass sv policy w = (v, w1)" by (cases "one_pass sv policy w")
    show ?case
    proof (cases v)
      case Again
      with 1(2) p have "f sv policy w1 = Some y" by simp
      from 1(1)[OF this] obtain k u
        where "after sv policy k w1 = Some u" "one_pass sv policy u = (Stop (fst y), snd y)" by blast
      then show ?thesis using p Again by (intro exI[of _ "Suc k"]) auto
    next
      case (Stop q)
      then show ?thesis using 1(2) p by (intro exI[of _ 0]) auto
    qed
  qed
  then show "supervise_loop sv policy w = Some (r, w') \<Longrightarrow>
    \<exists>k v. after sv policy k w = Some v \<and> one_pass sv policy v = (Stop r, w')" by auto
qed

lemma loop_iff:
  "supervise_loop sv policy w = Some (r, w') \<longleftrightarrow>
    (\<exists>k v. after sv policy k w = Some v \<and> one_pass sv policy v = (Stop r, w'))"
  using loop_result loop_after loop_stops by metis

text \<open>An invariant of the passes holds of the result.\<close>

lemma after_invariant:
  assumes "after sv policy k w = Some v" and "P w"
    and "\<And>u u'. P u \<Longrightarrow> one_pass sv policy u = (Again, u') \<Longrightarrow> P u'"
  shows "P v"
  using assms(1,2)
proof (induction k arbitrary: w)
  case (Suc k)
  then obtain w' where "one_pass sv policy w = (Again, w')" "after sv policy k w' = Some v"
    by (auto split: prod.splits verdict.splits)
  then show ?case using Suc assms(3) by blast
qed simp

section \<open>The calls of the policy\<close>

text \<open>The same loop in a world that records the calls of the policy.\<close>

definition unlogged :: "('w, 'a) action \<Rightarrow> ('w \<times> event list, 'a) action" where
  "unlogged m = (\<lambda>(w, l). case m w of (r, w') \<Rightarrow> (r, (w', l)))"

definition logged_policy :: "'w policy \<Rightarrow> ('w \<times> event list) policy" where
  "logged_policy policy ev = (\<lambda>(w, l). case policy ev w of (r, w') \<Rightarrow> (r, (w', l @ [ev])))"

definition logged :: "'w supervised \<Rightarrow> ('w \<times> event list) supervised" where
  "logged sv = \<lparr>sv_open = unlogged (sv_open sv), sv_wait = unlogged (sv_wait sv),
     sv_task = map_option unlogged (sv_task sv), sv_race = (\<lambda>_ _. unlogged (session sv)),
     sv_sleep = (\<lambda>d. unlogged (sv_sleep sv d))\<rparr>"

lemma logged_simps [simp]:
  "sv_open (logged sv) = unlogged (sv_open sv)" "sv_sleep (logged sv) d = unlogged (sv_sleep sv d)"
  by (simp_all add: logged_def)

lemma session_logged: "session (logged sv) = unlogged (session sv)"
  by (cases "sv_task sv") (simp_all add: session_def logged_def)

definition whole_round :: "event list \<Rightarrow> bool" where
  "whole_round l \<longleftrightarrow> l = [Opened, Closed] \<or>
     (\<exists>e. is_Exception e \<and> (l = [Failed e] \<or> l = [Opened, Failed e]))"

lemma attempt_logged:
  assumes "attempt (logged sv) (logged_policy policy) (w, l) = (r, (w', l'))"
  shows "\<exists>x. l' = l @ x \<and> (whole_round x \<or> ((x = [] \<or> x = [Opened]) \<and> (\<forall>a. r \<noteq> Returns a)))"
  using assms
  by (auto simp: attempt_def session_logged unlogged_def logged_policy_def whole_round_def
      action_simps split: outcome.splits prod.splits if_splits)

lemma pass_logged:
  assumes "one_pass (logged sv) (logged_policy policy) (w, l) = (v, (w', l'))"
  shows "\<exists>x. l' = l @ x \<and>
    (whole_round x \<or> ((x = [] \<or> x = [Opened]) \<and> v \<noteq> Again \<and> v \<noteq> Stop (Returns ())))"
proof -
  obtain r w1 l1 where a: "attempt (logged sv) (logged_policy policy) (w, l) = (r, (w1, l1))"
    by (metis surj_pair)
  obtain x where x: "l1 = l @ x" "whole_round x \<or> ((x = [] \<or> x = [Opened]) \<and> (\<forall>a. r \<noteq> Returns a))"
    using attempt_logged[OF a] by blast
  show ?thesis using assms x
    by (auto simp: one_pass_def a unlogged_def
        split: outcome.splits prod.splits if_splits option.splits)
qed

lemma logged_rounds:
  assumes "after (logged sv) (logged_policy policy) k (w, []) = Some (w', l)"
  shows "\<exists>rounds. l = concat rounds \<and> (\<forall>x \<in> set rounds. whole_round x)"
proof -
  have "case (w', l) of (_, l) \<Rightarrow> \<exists>rounds. l = concat rounds \<and> (\<forall>x \<in> set rounds. whole_round x)"
  proof (rule after_invariant[OF assms], goal_cases)
    case 1
    then show ?case by (intro prod.case_eq_if[THEN iffD2] exI[of _ "[]"]) simp
  next
    case (2 u u')
    obtain w1 l1 w2 l2 where u: "u = (w1, l1)" "u' = (w2, l2)" by (metis surj_pair)
    obtain rounds where r: "l1 = concat rounds" "\<forall>x \<in> set rounds. whole_round x"
      using 2(1) u by auto
    obtain x where x: "l2 = l1 @ x" "whole_round x"
      using pass_logged[of sv policy w1 l1 Again w2 l2] 2(2) u by auto
    show ?case unfolding u prod.case
      by (rule exI[of _ "rounds @ [x]"]) (use r x in auto)
  qed
  then show ?thesis by simp
qed

section \<open>The contract with the connection\<close>

text \<open>
  What the loop relies on: after \<^verbatim>\<open>open()\<close> returns the connection is up, after it raises it is not,
  after \<^verbatim>\<open>wait_until_disconnected()\<close> returns it is down; \<open>ok\<close> is kept.
\<close>

locale supervisable =
  fixes open_op wait_op :: "('w, unit) action"
    and up down ok :: "'w \<Rightarrow> bool"
  assumes open_returns: "ok w \<Longrightarrow> open_op w = (Returns (), w') \<Longrightarrow> up w'"
    and open_raises: "ok w \<Longrightarrow> open_op w = (Raises e, w') \<Longrightarrow> \<not> up w'"
    and wait_returns: "ok w \<Longrightarrow> wait_op w = (Returns (), w') \<Longrightarrow> down w'"
    and open_ok: "preserves ok open_op"
    and wait_ok: "preserves ok wait_op"
begin

text \<open>A policy that fails when it is told what is not true of the connection.\<close>

definition checked :: "'w policy \<Rightarrow> 'w policy" where
  "checked policy ev w =
     (if (ev = Opened \<and> \<not> up w) \<or> (ev = Closed \<and> \<not> down w) then (Raises AssertionError, w)
      else policy ev w)"

lemma attempt_checked:
  assumes ok: "ok w" and pol: "\<And>ev. preserves ok (policy ev)"
    and sv: "sv_open sv = open_op" "sv_wait sv = wait_op" "sv_task sv = None"
  shows "attempt sv (checked policy) w = attempt sv policy w" and "ok (snd (attempt sv policy w))"
proof -
  obtain r1 w1 where o: "open_op w = (r1, w1)" by (cases "open_op w")
  have ok1: "ok w1" using preservesE[OF open_ok ok o] .
  obtain r2 w2 where p: "policy Opened w1 = (r2, w2)" by (cases "policy Opened w1")
  have ok2: "ok w2" using preservesE[OF pol ok1 p] .
  obtain r3 w3 where wt: "wait_op w2 = (r3, w3)" by (cases "wait_op w2")
  have ok3: "ok w3" using preservesE[OF wait_ok ok2 wt] .
  have up1: "r1 = Returns () \<Longrightarrow> up w1" using open_returns[OF ok] o by simp
  have down3: "r3 = Returns () \<Longrightarrow> down w3" using wait_returns[OF ok2] wt by simp
  have pres: "ok (snd (policy ev v))" if "ok v" for ev v using preservesD[OF pol that] .
  show "attempt sv (checked policy) w = attempt sv policy w"
    using up1 down3
    by (cases r1; cases r2; cases r3)
      (simp_all add: attempt_def session_def sv action_simps o p wt checked_def)
  show "ok (snd (attempt sv policy w))"
    using ok1 ok2 ok3 pres[OF ok1] pres[OF ok2] pres[OF ok3]
    by (cases r1; cases r2; cases r3) (auto simp: attempt_def session_def sv action_simps o p wt)
qed

lemma loop_checked:
  assumes ok: "ok w" and pol: "\<And>ev. preserves ok (policy ev)" and sl: "\<And>d. preserves ok (sv_sleep sv d)"
    and sv: "sv_open sv = open_op" "sv_wait sv = wait_op" "sv_task sv = None"
  shows "supervise_loop sv (checked policy) w = supervise_loop sv policy w"
proof -
  have pass: "one_pass sv (checked policy) v = one_pass sv policy v \<and> ok (snd (one_pass sv policy v))"
    if v: "ok v" for v
  proof -
    obtain r v' where a: "attempt sv policy v = (r, v')" by (cases "attempt sv policy v")
    have "ok v'" using attempt_checked(2)[where policy = policy, OF v pol sv] a by simp
    then have "ok (snd (sv_sleep sv d v'))" for d using preservesD[OF sl] by blast
    with \<open>ok v'\<close> have "ok (snd (one_pass sv policy v))"
      by (auto simp: one_pass_def a split: outcome.split option.split prod.split dest: meta_spec)
        (metis snd_conv)+
    then show ?thesis
      using attempt_checked(1)[where policy = policy, OF v pol sv] by (simp add: one_pass_def)
  qed
  have ind: "after sv p k w = Some v \<Longrightarrow> ok v \<and> after sv q k w = Some v"
    if "ok w" and "\<And>v. ok v \<Longrightarrow> one_pass sv p v = one_pass sv q v \<and> ok (snd (one_pass sv p v))" for p q k w v
    using that(1)
  proof (induction k arbitrary: w)
    case (Suc k)
    then obtain w' where w': "one_pass sv p w = (Again, w')" "after sv p k w' = Some v"
      by (auto split: prod.splits verdict.splits)
    then show ?case using Suc.IH[of w'] that(2)[OF Suc.prems(2)] by auto
  qed simp
  have one: "supervise_loop sv p w = Some y \<Longrightarrow> supervise_loop sv q w = Some y"
    if "\<And>v. ok v \<Longrightarrow> one_pass sv p v = one_pass sv q v \<and> ok (snd (one_pass sv p v))" for p q y
  proof -
    obtain r u where y: "y = (r, u)" by (cases y)
    assume "supervise_loop sv p w = Some y"
    then obtain k v where k: "after sv p k w = Some v" "one_pass sv p v = (Stop r, u)"
      unfolding y loop_iff by blast
    then show "supervise_loop sv q w = Some y"
      unfolding y loop_iff using ind[OF ok that k(1)] that by metis
  qed
  show ?thesis
    using one[of policy "checked policy"] one[of "checked policy" policy] pass
    by (cases "supervise_loop sv policy w"; cases "supervise_loop sv (checked policy) w") auto
qed

end

text \<open>
  Connections of the package provide it, whatever the hook of \<^verbatim>\<open>open()\<close> and whatever the
  environment does between \<^verbatim>\<open>open()\<close> and the end of the wait, as long as both keep the flags.
\<close>

lemma conn_supervisable:
  assumes "leaves_lifecycle hook" and "preserves flags_ok env"
  shows "supervisable (conn_open hook) (and_then env (\<lambda>_. wait_until_disconnected))
    (\<lambda>c. conn_state c = CONNECTED) (\<lambda>c. conn_state c = DISCONNECTED) flags_ok"
proof -
  have fr: "conn.frame hook" using assms(1) by (simp add: frame_iff)
  have wait: "preserves flags_ok wait_until_disconnected"
    by (auto simp: preserves_def wait_until_disconnected_def)
  show ?thesis
  proof (unfold_locales, goal_cases)
    case (1 w w')
    then show ?case using conn.op_outcome[OF fr 1] by simp
  next
    case (2 w e w')
    then show ?case using conn.op_outcome[OF fr 2] by simp
  next
    case (3 w w')
    obtain r v where e: "env w = (r, v)" by (cases "env w")
    have "flags_ok v" using preservesE[OF assms(2) 3(1) e] .
    then show ?case using 3(2) e
      by (cases r) (auto simp: action_simps wait_until_disconnected_def flags_ok_def split: if_splits)
  next
    case 4
    show ?case using conn.op_consistent[OF fr] by (simp add: preserves_def)
  next
    case 5
    show ?case using assms(2) wait by (intro preserves_and_then)
  qed
qed

lemma preserves_conn_close: "leaves_lifecycle hook \<Longrightarrow> preserves flags_ok (conn_close hook)"
  unfolding preserves_def using conn.cl_consistent frame_iff by blast

text \<open>A dummy connection that somebody else closes each time it is open.\<close>

interpretation closed_dummy: supervisable "conn_open dummy_open"
  "and_then (conn_close dummy_close) (\<lambda>_. wait_until_disconnected)"
  "\<lambda>c. conn_state c = CONNECTED" "\<lambda>c. conn_state c = DISCONNECTED" flags_ok
  by (rule conn_supervisable) (simp_all add: preserves_conn_close)

section \<open>Lemmas about policies and the supervisor\<close>

lemma pass_no_reconnection:
  "one_pass sv no_reconnection_policy w =
    (case and_then (sv_open sv) (\<lambda>_. session sv) w of
       (Returns _, w') \<Rightarrow> (Stop (Returns ()), w')
     | (Raises e, w') \<Rightarrow> (Stop (if is_Exception e then Returns () else Raises e), w')
     | (Blocks, w') \<Rightarrow> (Stop Blocks, w'))"
  by (auto simp: one_pass_def attempt_def no_reconnection_policy_def constant_policy_def action_simps
      split: outcome.split prod.split)

lemma pass_constant_delay:
  "one_pass sv (constant_delay_policy d) w = (Stop r, w') \<Longrightarrow>
    r \<noteq> Returns () \<and> (\<forall>e. r = Raises e \<longrightarrow> e = Cancelled \<or> (\<exists>v. fst (sv_sleep sv d v) = Raises e))"
  by (auto simp: one_pass_def attempt_def constant_delay_policy_def constant_policy_def delay_of_def
      is_Exception_def action_simps split: outcome.splits prod.splits if_splits) (metis fst_conv)+


lemma handle_command_simps [simp]:
  "has_nursery (handle_command cmd s) = has_nursery s"
  "sup_queue (handle_command cmd s) = sup_queue s"
  "(handle_command cmd s)\<lparr>sup_queue := q\<rparr> = handle_command cmd (s\<lparr>sup_queue := q\<rparr>)"
  by (simp_all add: handle_command_def split: command.split option.split)

lemma run_commands:
  assumes "has_nursery s" and "sup_queue s = cmds @ rest"
  shows "((\<lambda>s. snd (main_loop_step s)) ^^ length cmds) s =
    fold handle_command cmds (s\<lparr>sup_queue := rest\<rparr>)"
  using assms
proof (induction cmds arbitrary: s)
  case (Cons cmd cmds)
  have step: "snd (main_loop_step s) = handle_command cmd (s\<lparr>sup_queue := cmds @ rest\<rparr>)"
    using Cons.prems by (simp add: main_loop_step_def)
  show ?case
    using Cons.IH[of "handle_command cmd (s\<lparr>sup_queue := cmds @ rest\<rparr>)"] Cons.prems(1)
    by (simp add: funpow_Suc_right step del: funpow.simps)
qed simp

definition added :: "('k, 'w) command list \<Rightarrow> ('k \<times> ('k \<Rightarrow> ('w, unit) action) option \<times> 'w policy option) list" where
  "added cmds = concat (map (\<lambda>cmd. case cmd of Add c t p \<Rightarrow> [(c, t, p)] | Remove _ \<Rightarrow> []) cmds)"

lemma fold_handle:
  "spawned (fold handle_command cmds s) = spawned s @ added cmds"
  "entries (fold handle_command cmds s) c =
    (if Remove c \<in> set cmds then map_option cancel_entry (entries s c) else entries s c)"
  "sup_queue (fold handle_command cmds s) = sup_queue s"
  by (induction cmds arbitrary: s)
    (auto simp: handle_command_def added_def cancel_entry_def map_option_case split: command.split option.split)

section \<open>Properties\<close>


text \<open>
  With \<^verbatim>\<open>no_reconnection_policy\<close> there is exactly one attempt: \<^verbatim>\<open>supervise()\<close> ends with it,
  and swallows its exception, unless it is a cancellation.
\<close>

theorem no_reconnection_one_attempt:
  "supervise sv (Some no_reconnection_policy) w = Some
    (case and_then (sv_open sv) (\<lambda>_. session sv) w of
       (Returns _, w') \<Rightarrow> (Returns (), w')
     | (Raises e, w') \<Rightarrow> (if is_Exception e then Returns () else Raises e, w')
     | (Blocks, w') \<Rightarrow> (Blocks, w'))"
  unfolding supervise_def option.case
  by (subst supervise_loop.simps) (simp add: pass_no_reconnection split: outcome.split prod.split)

text \<open>
  With a constant delay, as the default policy, \<^verbatim>\<open>supervise()\<close> never returns normally, no
  matter what the connection and the task do: it runs on, stays suspended, is cancelled, or
  raises what \<^verbatim>\<open>sleep\<close> raises.
\<close>

theorem constant_delay_never_returns:
  assumes "supervise sv policy w = Some (r, w')"
    and "policy = None \<and> d = 1 \<or> policy = Some (constant_delay_policy d)"
  shows "r \<noteq> Returns () \<and>
    (\<forall>e. r = Raises e \<longrightarrow> e = Cancelled \<or> (\<exists>v. fst (sv_sleep sv d v) = Raises e))"
proof -
  have "supervise_loop sv (constant_delay_policy d) w = Some (r, w')"
    using assms by (auto simp: supervise_def default_policy_def)
  then obtain v where "one_pass sv (constant_delay_policy d) v = (Stop r, w')"
    unfolding loop_iff by blast
  then show ?thesis by (rule pass_constant_delay)
qed

text \<open>
  The calls of the policy. Up to the last ones they come in rounds, one per attempt: the
  end of the attempt, an \<^verbatim>\<open>Exception\<close> or \<^verbatim>\<open>"close"\<close>, preceded by \<^verbatim>\<open>"open"\<close> if the policy was told so,
  \<^verbatim>\<open>"close"\<close> never without it. Only an attempt that is suspended, cancelled or killed by the
  policy may leave a lone \<^verbatim>\<open>"open"\<close> at the end.
\<close>

theorem policy_calls:
  assumes "supervise (logged sv) (Some (logged_policy policy)) (w, []) = Some (r, (w', calls))"
  shows "\<exists>rounds tail. calls = concat rounds @ tail \<and> (\<forall>x \<in> set rounds. whole_round x) \<and>
    (tail = [] \<or> tail = [Opened]) \<and> (r = Returns () \<longrightarrow> tail = [] \<and> rounds \<noteq> [])"
proof -
  have "supervise_loop (logged sv) (logged_policy policy) (w, []) = Some (r, (w', calls))"
    using assms by (simp add: supervise_def)
  then obtain k v l where a: "after (logged sv) (logged_policy policy) k (w, []) = Some (v, l)"
    and p: "one_pass (logged sv) (logged_policy policy) (v, l) = (Stop r, (w', calls))"
    unfolding loop_iff by auto
  obtain rounds where rounds: "l = concat rounds" "\<forall>x \<in> set rounds. whole_round x"
    using logged_rounds[OF a] by blast
  obtain x where x: "calls = l @ x"
    "whole_round x \<or> ((x = [] \<or> x = [Opened]) \<and> r \<noteq> Returns ())"
    using pass_logged[OF p] by auto
  show ?thesis
  proof (cases "whole_round x")
    case True
    then show ?thesis using rounds x by (intro exI[of _ "rounds @ [x]"] exI[of _ "[]"]) auto
  next
    case False
    then show ?thesis using rounds x by (intro exI[of _ rounds] exI[of _ x]) auto
  qed
qed

text \<open>
  What the policy is told is true. On a connection of the package, whatever its hook and
  the environment do, \<^verbatim>\<open>"open"\<close> is only ever said of a connection that is \<open>CONNECTED\<close> and
  \<^verbatim>\<open>"close"\<close> (without a task) of one that is \<open>DISCONNECTED\<close>: a policy that would fail on a false
  report behaves like the original one.
\<close>

theorem policy_told_the_truth:
  assumes "leaves_lifecycle hook" and "preserves flags_ok env" and "flags_ok c"
    and "\<And>ev. preserves flags_ok (policy ev)" and "\<And>d. preserves flags_ok (sleep d)"
    and "sv = \<lparr>sv_open = conn_open hook, sv_wait = and_then env (\<lambda>_. wait_until_disconnected),
           sv_task = None, sv_race = race, sv_sleep = sleep\<rparr>"
  shows "supervise sv (Some (\<lambda>ev d.
       if (ev = Opened \<and> conn_state d \<noteq> CONNECTED) \<or> (ev = Closed \<and> conn_state d \<noteq> DISCONNECTED)
       then (Raises AssertionError, d) else policy ev d)) c =
    supervise sv (Some policy) c"
proof -
  note c = conn_supervisable[OF assms(1,2)]
  have "supervisable.checked (\<lambda>c. conn_state c = CONNECTED) (\<lambda>c. conn_state c = DISCONNECTED) policy =
      (\<lambda>ev d. if (ev = Opened \<and> conn_state d \<noteq> CONNECTED) \<or> (ev = Closed \<and> conn_state d \<noteq> DISCONNECTED)
       then (Raises AssertionError, d) else policy ev d)"
    by (intro ext) (simp add: supervisable.checked_def[OF c])
  then show ?thesis
    using supervisable.loop_checked[OF c assms(3), of policy sv] assms(4,5,6)
    by (simp add: supervise_def)
qed

text \<open>
  The supervisor does not use the policy that a connection was added with: the supervised
  loop, its outcome and the world afterwards are the same for any two of them, and those of
  \<^verbatim>\<open>supervise()\<close> with the supervisor's own policy.
\<close>

theorem supervisor_ignores_policy:
  "map_option (\<lambda>(r, s'). (r, world s'))
     (supervisor_supervise sv close was_connected listener accepting interrupted conn task policy s) =
   map_option (\<lambda>(r, s'). (r, world s'))
     (supervisor_supervise sv close was_connected listener accepting interrupted conn task policy' s)"
  by (auto simp: supervisor_supervise_def end_supervision_def on_world_def Let_def
      split: option.split outcome.split prod.split)

text \<open>
  A connection that is removed from the supervisor may stay open. The loop is cancelled
  and \<^verbatim>\<open>close()\<close> runs in the cancelled scope: if its hook awaits anything, it is cancelled too,
  and the connection goes back to \<open>CONNECTED\<close>, while \<^verbatim>\<open>supervise\<close> returns normally and the
  connection is not among the entries any more.
\<close>

theorem removed_connection_stays_open:
  assumes "entries s conn = None" and "\<not> listener"
    and "supervise (sv\<lparr>sv_task := map_option (\<lambda>f. f conn) task\<rparr>) (Some (sup_policy s)) (world s) =
      Some (Raises Cancelled, w)"
    and "conn_state w = CONNECTED" and "\<And>c. fst (hook c) = Raises Cancelled"
    and "supervisor_supervise sv (conn_close hook) False listener accepting True conn task policy s =
      Some (r, s')"
  shows "r = Returns () \<and> entries s' conn = None \<and> conn_state (world s') = CONNECTED"
proof -
  obtain d where h: "hook (set_state DISCONNECTING w) = (Raises Cancelled, d)"
    using assms(5) by (metis prod.collapse)
  have "conn_close hook w = (Raises Cancelled, set_state CONNECTED d)"
    using assms(4) h by (simp add: conn_close_def close_body_def action_simps)
  then show ?thesis
    using assms(1,2,6) assms(3)
    by (cases task) (auto simp: supervisor_supervise_def Let_def end_supervision_def on_world_def leave_scope_def)
qed

text \<open>
  The commands of the supervisor are carried out in the order in which they were sent, each
  once: for a queue of any commands, as many steps of the main loop start the supervision of the
  added connections in this order and cancel the entries of the removed ones, and then it waits.
\<close>

theorem commands_in_order:
  assumes "has_nursery s"
  shows "\<exists>s'. ((\<lambda>s. snd (main_loop_step s)) ^^ length (sup_queue s)) s = s' \<and>
    spawned s' = spawned s @ added (sup_queue s) \<and>
    (\<forall>c. entries s' c = (if Remove c \<in> set (sup_queue s) then map_option cancel_entry (entries s c)
                         else entries s c)) \<and>
    fst (main_loop_step s') = Blocks"
proof -
  have n: "has_nursery (fold handle_command cmds t) = has_nursery t" for cmds and t :: "('a, 'b) supervisor"
    by (induction cmds arbitrary: t) simp_all
  show ?thesis
    using run_commands[of s "sup_queue s" "[]"] assms by (simp add: fold_handle n main_loop_step_def)
qed

section \<open>Witnesses\<close>

text \<open>A dummy connection, closed by its peer each time; delays are cut short by a cancellation.\<close>

definition dummy_sv :: "connection supervised" where
  "dummy_sv = \<lparr>sv_open = conn_open dummy_open,
     sv_wait = and_then (conn_close dummy_close) (\<lambda>_. wait_until_disconnected),
     sv_task = None, sv_race = (\<lambda>_ w. w), sv_sleep = (\<lambda>_. throw Cancelled)\<rparr>"

definition cycled :: connection where
  "cycled = set_state DISCONNECTED (set_state DISCONNECTING (set_state CONNECTED (set_state CONNECTING init_connection)))"

lemma dummy_session:
  "and_then (sv_open dummy_sv) (\<lambda>_. session dummy_sv) init_connection = (Returns (), cycled)"
  by (simp add: dummy_sv_def session_def conn_open_def conn_close_def open_body_def close_body_def
      dummy_open_def dummy_close_def wait_until_disconnected_def action_simps cycled_def)

lemma dummy_constant_attempt:
  "attempt dummy_sv (constant_policy a) init_connection = (Returns a, cycled)"
  using dummy_session by (simp add: attempt_def constant_policy_def action_simps split: prod.splits outcome.splits)

theorem constant_delay_never_returns_witness:
  "supervise dummy_sv None init_connection = Some (Raises Cancelled, cycled) \<and> Raises Cancelled \<noteq> Returns ()"
proof -
  have "one_pass dummy_sv (constant_policy (AnswerFloat 1)) init_connection = (Stop (Raises Cancelled), cycled)"
    by (simp add: one_pass_def dummy_constant_attempt delay_of_def) (simp add: dummy_sv_def action_simps)
  then have run: "supervise dummy_sv None init_connection = Some (Raises Cancelled, cycled)"
    using loop_stops by (simp add: supervise_def default_policy_def constant_delay_policy_def)
  show ?thesis using constant_delay_never_returns[OF run, of 1] run by simp
qed

theorem policy_calls_witness:
  "supervise (logged dummy_sv) (Some (logged_policy no_reconnection_policy)) (init_connection, []) =
     Some (Returns (), (cycled, [Opened, Closed]))"
proof -
  have "and_then (unlogged (sv_open dummy_sv)) (\<lambda>_. and_then (logged_policy no_reconnection_policy Opened)
      (\<lambda>_. unlogged (session dummy_sv))) (init_connection, []) = (Returns (), (cycled, [Opened]))"
    using dummy_session
    by (simp add: unlogged_def logged_policy_def no_reconnection_policy_def constant_policy_def
        action_simps split: prod.splits outcome.splits)
  then have "one_pass (logged dummy_sv) (logged_policy no_reconnection_policy) (init_connection, []) =
      (Stop (Returns ()), (cycled, [Opened, Closed]))"
    by (simp add: one_pass_def attempt_def session_logged)
      (simp add: logged_policy_def no_reconnection_policy_def constant_policy_def action_simps)
  then have run: "supervise (logged dummy_sv) (Some (logged_policy no_reconnection_policy)) (init_connection, []) =
     Some (Returns (), (cycled, [Opened, Closed]))"
    using loop_stops by (simp add: supervise_def)
  show ?thesis using policy_calls[OF run] run by blast
qed

theorem policy_told_the_truth_witness:
  "supervise dummy_sv (Some (\<lambda>ev d.
       if (ev = Opened \<and> conn_state d \<noteq> CONNECTED) \<or> (ev = Closed \<and> conn_state d \<noteq> DISCONNECTED)
       then (Raises AssertionError, d) else no_reconnection_policy ev d)) init_connection =
    Some (Returns (), cycled)"
proof -
  have "supervise dummy_sv (Some no_reconnection_policy) init_connection = Some (Returns (), cycled)"
    unfolding supervise_def option.case
    by (rule loop_stops) (simp add: one_pass_def no_reconnection_policy_def dummy_constant_attempt)
  then show ?thesis
    by (subst policy_told_the_truth[of dummy_open "conn_close dummy_close" init_connection
        no_reconnection_policy "\<lambda>_. throw Cancelled" dummy_sv "\<lambda>_ w. w"])
      (auto simp: dummy_sv_def preserves_conn_close no_reconnection_policy_def constant_policy_def
        preserves_return preserves_raise)
qed

text \<open>A connected connection whose wait and whose hooks are cancelled.\<close>

definition cancelled_sv :: "connection supervised" where
  "cancelled_sv = \<lparr>sv_open = conn_open dummy_open, sv_wait = throw Cancelled, sv_task = None,
     sv_race = (\<lambda>_ w. w), sv_sleep = (\<lambda>_. ret ())\<rparr>"

theorem removed_connection_stays_open_witness:
  "\<exists>s'. supervisor_supervise cancelled_sv (conn_close (throw Cancelled)) False False (\<lambda>f. ret ()) True
      (0::nat) None None (init_supervisor None init_connection) = Some (Returns (), s') \<and>
    conn_state (world s') = CONNECTED"
proof -
  let ?s = "init_supervisor None init_connection :: (nat, connection) supervisor"
  let ?w = "set_state CONNECTED (set_state CONNECTING init_connection)"
  have s: "entries ?s 0 = None" "sup_policy ?s = default_policy" "world ?s = init_connection"
    by (simp_all add: init_supervisor_def)
  have sv: "cancelled_sv\<lparr>sv_task := map_option (\<lambda>f. f 0) None\<rparr> = cancelled_sv"
    by (simp add: cancelled_sv_def)
  have "one_pass cancelled_sv default_policy init_connection = (Stop (Raises Cancelled), ?w)"
    by (simp add: one_pass_def attempt_def cancelled_sv_def session_def conn_open_def open_body_def
        dummy_open_def default_policy_def constant_delay_policy_def constant_policy_def action_simps)
  then have run: "supervise cancelled_sv (Some default_policy) init_connection = Some (Raises Cancelled, ?w)"
    unfolding supervise_def option.case by (rule loop_stops)
  have "supervisor_supervise cancelled_sv (conn_close (throw Cancelled)) False False (\<lambda>f. ret ()) True
      0 None None ?s \<noteq> None"
    using run by (simp add: supervisor_supervise_def s Let_def cancelled_sv_def split: prod.split)
  then obtain r s' where res: "supervisor_supervise cancelled_sv (conn_close (throw Cancelled)) False False
      (\<lambda>f. ret ()) True 0 None None ?s = Some (r, s')" by auto
  have "r = Returns () \<and> entries s' 0 = None \<and> conn_state (world s') = CONNECTED"
    by (rule removed_connection_stays_open[OF s(1) _ _ _ _ res, where w = ?w])
      (use run sv s in \<open>simp_all add: action_simps\<close>)
  then show ?thesis using res by auto
qed

theorem commands_in_order_witness:
  "spawned (((\<lambda>s. snd (main_loop_step s)) ^^ 2)
     ((init_supervisor None init_connection)\<lparr>has_nursery := True,
        sup_queue := [Add (3::nat) None None, Remove 4]\<rparr>)) = [(3, None, None)]"
proof -
  let ?s = "(init_supervisor None init_connection)\<lparr>has_nursery := True,
      sup_queue := [Add (3::nat) None None, Remove 4]\<rparr>"
  have "has_nursery ?s" by simp
  from commands_in_order[OF this] show ?thesis
    by (simp add: init_supervisor_def added_def numeral_2_eq_2)
qed

end
