(* ===== verification/Supervisor_Tasks.thy ===== *)
theory Supervisor_Tasks
  imports Supervision
begin

text \<open>
  \<^verbatim>\<open>ConnectionSupervisor.run\<close> with its main loop, the tasks that the loop starts, and the users who
  add and remove connections (\<^verbatim>\<open>connections/supervision.py\<close>), interleaved.

  The state is that of the supervisor, of which \<open>spawned\<close> now lists the tasks that have been given to
  the nursery and have not begun; the connections with a task in its supervised loop (\<open>running\<close>), each
  with its \<^verbatim>\<open>should_close\<close>; the tasks that have left the loop, and deleted their entry, and are in the
  \<^verbatim>\<open>connection.close()\<close> of the \<^verbatim>\<open>finally\<close> clause (\<open>closing\<close>); and whether an exception has cancelled the
  nursery, where the model ends. The nursery begins tasks in any order. That \<^verbatim>\<open>run()\<close> is cancelled from
  outside is not modelled.

  The steps are in two relations: what the supervisor does of itself, and what comes from outside, the
  commands of users, the ends of the supervised loops and of the calls of \<^verbatim>\<open>close()\<close>.
\<close>

section \<open>Steps\<close>

text \<open>A task in \<^verbatim>\<open>close()\<close>: whether its scope has been cancelled, and the outcome of its loop.\<close>

record ('k, 'w) sup_tasks =
  supv :: "('k, 'w) supervisor"
  running :: "('k \<times> bool) list"
  closing :: "('k \<times> bool \<times> unit outcome) list"
  crashed :: bool

definition init_tasks :: "'w policy option \<Rightarrow> 'w \<Rightarrow> ('k, 'w) sup_tasks" where
  "init_tasks policy w =
     \<lparr>supv = (init_supervisor policy w)\<lparr>has_nursery := True\<rparr>, running = [], closing = [], crashed = False\<rparr>"

text \<open>The beginning of \<^verbatim>\<open>supervise\<close>: its two checks, and the entry.\<close>

definition begin_supervision ::
  "bool \<Rightarrow> 'k \<Rightarrow> ('k \<Rightarrow> ('w, unit) action) option \<Rightarrow> 'w policy option \<Rightarrow> (('k, 'w) supervisor, unit) action" where
  "begin_supervision listener conn task policy s =
     (if entries s conn \<noteq> None then (Raises AssertionError, s)
      else if listener \<and> task = None
      then (Raises (RuntimeError ''task must be specified for ListenerConnection instances''), s)
      else (Returns (),
            s\<lparr>entries := (entries s)(conn \<mapsto>
               \<lparr>entry_policy = (case policy of Some p \<Rightarrow> p | None \<Rightarrow> sup_policy s), cancel_called = False\<rparr>)\<rparr>))"

text \<open>The end of a task: an exception that its scope does not absorb cancels the nursery of \<^verbatim>\<open>run()\<close>.\<close>

definition finish_task :: "unit outcome \<Rightarrow> ('k, 'w) sup_tasks \<Rightarrow> ('k, 'w) sup_tasks" where
  "finish_task r s =
     (case r of Returns _ \<Rightarrow> s | _ \<Rightarrow> s\<lparr>supv := (supv s)\<lparr>has_nursery := False\<rparr>, crashed := True\<rparr>)"

text \<open>\<open>removed\<close>: \<^verbatim>\<open>entry.cancel()\<close> has been called for the connection.\<close>

definition removed :: "'k \<Rightarrow> ('k, 'w) sup_tasks \<Rightarrow> bool" where
  "removed conn s \<longleftrightarrow> map_option cancel_called (entries (supv s) conn) = Some True"

text \<open>The end of the supervised loop with an outcome: the entry goes, then \<^verbatim>\<open>close()\<close> is awaited or the task ends.\<close>

definition drop_entry :: "'k \<Rightarrow> ('k, 'w) supervisor \<Rightarrow> ('k, 'w) supervisor" where
  "drop_entry conn s = s\<lparr>entries := (entries s)(conn := None)\<rparr>"

definition end_loop :: "'k \<Rightarrow> bool \<Rightarrow> unit outcome \<Rightarrow> ('k, 'w) sup_tasks \<Rightarrow> ('k, 'w) sup_tasks" where
  "end_loop conn should_close r s =
     (let s' = s\<lparr>supv := drop_entry conn (supv s), running := remove1 (conn, should_close) (running s)\<rparr> in
      if should_close then s'\<lparr>closing := (conn, removed conn s, r) # closing s\<rparr>
      else finish_task (leave_scope (removed conn s) r) s')"

text \<open>
  The supervisor by itself: a turn of the main loop, the beginning of a task up to its first wait,
  \<^verbatim>\<open>Cancelled\<close> in the loop or in the \<^verbatim>\<open>close()\<close> of a task whose scope has been cancelled.
\<close>

inductive machine_step :: "('k \<Rightarrow> bool) \<Rightarrow> ('k, 'w) sup_tasks \<Rightarrow> ('k, 'w) sup_tasks \<Rightarrow> bool" for listener where
  loop_turn:
    "\<not> crashed s \<Longrightarrow> main_loop_step (supv s) = (Returns (), c) \<Longrightarrow> machine_step listener s (s\<lparr>supv := c\<rparr>)"
| task_begins:
    "\<not> crashed s \<Longrightarrow> spawned (supv s) = xs @ (conn, task, policy) # ys \<Longrightarrow>
     begin_supervision (listener conn) conn task policy ((supv s)\<lparr>spawned := xs @ ys\<rparr>) = (Returns (), c) \<Longrightarrow>
     machine_step listener s (s\<lparr>supv := c, running := (conn, \<not> was_connected) # running s\<rparr>)"
| task_refused:
    "\<not> crashed s \<Longrightarrow> spawned (supv s) = xs @ (conn, task, policy) # ys \<Longrightarrow>
     begin_supervision (listener conn) conn task policy ((supv s)\<lparr>spawned := xs @ ys\<rparr>) = (Raises e, c) \<Longrightarrow>
     machine_step listener s (finish_task (Raises e) (s\<lparr>supv := c\<rparr>))"
| loop_cancelled:
    "\<not> crashed s \<Longrightarrow> (conn, should_close) \<in> set (running s) \<Longrightarrow> removed conn s \<Longrightarrow>
     machine_step listener s (end_loop conn should_close (Raises Cancelled) s)"
| close_cancelled:
    "\<not> crashed s \<Longrightarrow> (conn, True, r) \<in> set (closing s) \<Longrightarrow>
     machine_step listener s
       (finish_task (leave_scope True (Raises Cancelled)) (s\<lparr>closing := remove1 (conn, True, r) (closing s)\<rparr>))"

text \<open>From outside. An exception of \<^verbatim>\<open>close()\<close> replaces the one in flight.\<close>

inductive outside_step :: "('k, 'w) sup_tasks \<Rightarrow> ('k, 'w) sup_tasks \<Rightarrow> bool" where
  user_command:
    "\<not> crashed s \<Longrightarrow> enqueue cmd (supv s) = (Returns (), c) \<Longrightarrow> outside_step s (s\<lparr>supv := c\<rparr>)"
| loop_ends:
    "\<not> crashed s \<Longrightarrow> (conn, should_close) \<in> set (running s) \<Longrightarrow> r \<noteq> Blocks \<Longrightarrow> r \<noteq> Raises Cancelled \<Longrightarrow>
     outside_step s (end_loop conn should_close r s)"
| close_returns:
    "\<not> crashed s \<Longrightarrow> (conn, cancelled, r) \<in> set (closing s) \<Longrightarrow>
     outside_step s
       (finish_task (leave_scope cancelled r) (s\<lparr>closing := remove1 (conn, cancelled, r) (closing s)\<rparr>))"
| close_raises:
    "\<not> crashed s \<Longrightarrow> (conn, cancelled, r) \<in> set (closing s) \<Longrightarrow> e \<noteq> Cancelled \<Longrightarrow>
     outside_step s
       (finish_task (leave_scope cancelled (Raises e)) (s\<lparr>closing := remove1 (conn, cancelled, r) (closing s)\<rparr>))"

inductive sup_step :: "('k \<Rightarrow> bool) \<Rightarrow> ('k, 'w) sup_tasks \<Rightarrow> ('k, 'w) sup_tasks \<Rightarrow> bool" for listener where
  inside: "machine_step listener s s' \<Longrightarrow> sup_step listener s s'"
| outside: "outside_step s s' \<Longrightarrow> sup_step listener s s'"

inductive sup_reachable :: "('k \<Rightarrow> bool) \<Rightarrow> ('k, 'w) sup_tasks \<Rightarrow> bool" for listener where
  sup_starts: "sup_reachable listener (init_tasks policy w)"
| sup_moves: "sup_reachable listener s \<Longrightarrow> sup_step listener s s' \<Longrightarrow> sup_reachable listener s'"

section \<open>Invariant\<close>

text \<open>Entries and running tasks belong together.\<close>

definition sup_inv :: "('k, 'w) sup_tasks \<Rightarrow> bool" where
  "sup_inv s \<longleftrightarrow> distinct (map fst (running s)) \<and>
     (\<forall>c. c \<in> fst ` set (running s) \<longleftrightarrow> entries (supv s) c \<noteq> None) \<and>
     has_nursery (supv s) = (\<not> crashed s) \<and> length (sup_queue (supv s)) \<le> queue_size"

lemma finish_task_fields [simp]:
  "running (finish_task r s) = running s" "closing (finish_task r s) = closing s"
  "entries (supv (finish_task r s)) = entries (supv s)" "sup_queue (supv (finish_task r s)) = sup_queue (supv s)"
  "has_nursery (supv (finish_task r s)) = (has_nursery (supv s) \<and> r = Returns ())"
  "crashed (finish_task r s) = (crashed s \<or> r \<noteq> Returns ())"
  by (auto simp: finish_task_def split: outcome.split)

lemma end_loop_fields [simp]:
  "running (end_loop conn sc r s) = remove1 (conn, sc) (running s)"
  "entries (supv (end_loop conn sc r s)) = (entries (supv s))(conn := None)"
  "sup_queue (supv (end_loop conn sc r s)) = sup_queue (supv s)"
  "has_nursery (supv (end_loop conn sc r s)) =
     (has_nursery (supv s) \<and> (sc \<or> leave_scope (removed conn s) r = Returns ()))"
  "crashed (end_loop conn sc r s) = (crashed s \<or> \<not> (sc \<or> leave_scope (removed conn s) r = Returns ()))"
  by (simp_all add: end_loop_def Let_def drop_entry_def)

lemma remove1_key:
  assumes "distinct (map fst xs)" and "(c, b) \<in> set xs"
  shows "map fst (remove1 (c, b) xs) = remove1 c (map fst xs)"
  using assms by (induction xs) force+

lemma remove1_keys:
  assumes "distinct (map fst xs)" and "(c, b) \<in> set xs"
  shows "distinct (map fst (remove1 (c, b) xs))" "fst ` set (remove1 (c, b) xs) = fst ` set xs - {c}"
  using assms remove1_key[OF assms] by (simp_all flip: set_map)

lemma enqueue_fields:
  assumes "enqueue cmd s = (Returns (), c)"
  shows "c = s\<lparr>sup_queue := sup_queue s @ [cmd]\<rparr> \<and> length (sup_queue s) < queue_size"
  using assms by (auto simp: enqueue_def split: if_splits)

lemma loop_fields:
  assumes "main_loop_step s = (Returns (), c)"
  obtains cmd cmds where "sup_queue s = cmd # cmds" "c = handle_command cmd (s\<lparr>sup_queue := cmds\<rparr>)" "has_nursery s"
  using assms by (auto simp: main_loop_step_def split: if_splits list.splits)

lemma handle_command_fields [simp]:
  "(entries (handle_command cmd s) c = None) = (entries s c = None)"
  "has_nursery (handle_command cmd s) = has_nursery s" "sup_queue (handle_command cmd s) = sup_queue s"
  by (auto simp: handle_command_def split: command.split option.split)

lemma begin_fields:
  assumes "begin_supervision l conn task policy s = (Returns (), c)"
  shows "entries s conn = None \<and> (\<exists>e. c = s\<lparr>entries := (entries s)(conn \<mapsto> e)\<rparr> \<and> \<not> cancel_called e)"
  using assms by (auto simp: begin_supervision_def split: if_splits)

lemma begin_raises:
  assumes "begin_supervision l conn task policy s = (Raises e, c)"
  shows "c = s"
  using assms by (auto simp: begin_supervision_def split: if_splits)

lemma sup_inv_step:
  assumes "sup_step listener s s'" and inv: "sup_inv s"
  shows "sup_inv s'"
  using assms(1)
proof cases
  case inside
  then show ?thesis
  proof cases
    case (loop_turn c)
    obtain cmd cmds where "sup_queue (supv s) = cmd # cmds" "c = handle_command cmd ((supv s)\<lparr>sup_queue := cmds\<rparr>)"
      using loop_fields[OF loop_turn(3)] by blast
    then show ?thesis using inv loop_turn(1) by (simp add: sup_inv_def)
  next
    case (task_begins xs conn task policy ys c b)
    then show ?thesis using inv begin_fields[OF task_begins(4)] by (auto simp: sup_inv_def)
  next
    case (task_refused xs conn task policy ys e c)
    then show ?thesis using inv begin_raises[OF task_refused(4)] by (simp add: sup_inv_def)
  qed (use inv in \<open>auto simp: sup_inv_def remove1_keys\<close>)
next
  case outside
  then show ?thesis
  proof cases
    case (user_command cmd c)
    then show ?thesis using inv enqueue_fields[OF user_command(3)] by (simp add: sup_inv_def)
  qed (use inv in \<open>auto simp: sup_inv_def remove1_keys\<close>)
qed

lemma sup_reachable_inv: "sup_reachable listener s \<Longrightarrow> sup_inv s"
proof (induction rule: sup_reachable.induct)
  case (sup_starts policy w)
  show ?case by (simp add: sup_inv_def init_tasks_def init_supervisor_def)
qed (blast intro: sup_inv_step)

section \<open>Lemmas\<close>

lemma two_commands:
  fixes w :: 'w
  obtains s where "(sup_step listener)\<^sup>*\<^sup>* (init_tasks policy w) s"
    and "s = (init_tasks policy w)\<lparr>supv := (supv (init_tasks policy w))\<lparr>sup_queue := [a, b]\<rparr>\<rparr>"
proof -
  let ?i = "init_tasks policy w" and ?f = "\<lambda>q. (init_tasks policy w)\<lparr>supv := (supv (init_tasks policy w))\<lparr>sup_queue := q\<rparr>\<rparr>"
  have 1: "outside_step ?i (?f [a])"
    using user_command[of ?i a "supv (?f [a])"]
    by (simp add: init_tasks_def init_supervisor_def enqueue_def queue_size_def)
  have 2: "outside_step (?f [a]) (?f [a, b])"
    using user_command[of "?f [a]" b "supv (?f [a, b])"]
    by (simp add: init_tasks_def init_supervisor_def enqueue_def queue_size_def)
  have "(sup_step listener)\<^sup>*\<^sup>* ?i (?f [a, b])"
    by (rule converse_rtranclp_into_rtranclp[OF sup_step.outside[OF 1] r_into_rtranclp[of "sup_step listener", OF sup_step.outside[OF 2]]])
  then show thesis by (rule that) simp
qed

text \<open>One turn of the main loop on a queue that is not empty.\<close>

lemma turn:
  assumes "\<not> crashed s" "has_nursery (supv s)" "sup_queue (supv s) = cmd # cmds"
  shows "machine_step listener s (s\<lparr>supv := handle_command cmd ((supv s)\<lparr>sup_queue := cmds\<rparr>)\<rparr>)"
  using assms by (intro loop_turn) (simp_all add: main_loop_step_def)

lemma lost_run:
  "\<exists>s s'. (sup_step (\<lambda>_. False))\<^sup>*\<^sup>* (init_tasks policy w) s \<and>
     sup_queue (supv s) = [Add conn None None, Remove conn] \<and>
     (sup_step (\<lambda>_. False))\<^sup>*\<^sup>* s s' \<and> sup_queue (supv s') = [] \<and> spawned (supv s') = [] \<and>
     running s' = [(conn, True)] \<and> map_option cancel_called (entries (supv s') conn) = Some False \<and> \<not> crashed s'"
proof -
  let ?step = "sup_step (\<lambda>_. False)"
  obtain s where s: "?step\<^sup>*\<^sup>* (init_tasks policy w) s"
      "s = (init_tasks policy w)\<lparr>supv := (supv (init_tasks policy w))\<lparr>sup_queue := [Add conn None None, Remove conn]\<rparr>\<rparr>"
    by (rule two_commands)
  note defs = s(2) init_tasks_def init_supervisor_def handle_command_def begin_supervision_def
  let ?s1 = "s\<lparr>supv := handle_command (Add conn None None) ((supv s)\<lparr>sup_queue := [Remove conn]\<rparr>)\<rparr>"
  let ?s2 = "?s1\<lparr>supv := handle_command (Remove conn) ((supv ?s1)\<lparr>sup_queue := []\<rparr>)\<rparr>"
  have 1: "?step s ?s1" by (rule inside[OF turn]) (simp_all add: defs)
  have 2: "?step ?s1 ?s2" by (rule inside[OF turn]) (simp_all add: defs)
  obtain s3 where 3: "?step ?s2 s3" "running s3 = [(conn, True)]" "spawned (supv s3) = []" "sup_queue (supv s3) = []"
      "map_option cancel_called (entries (supv s3) conn) = Some False" "\<not> crashed s3"
    using inside[OF task_begins[of ?s2 "[]" conn None None "[]" "\<lambda>_. False" _ False]] by (simp add: defs)
  have "?step\<^sup>*\<^sup>* s s3" by (rule converse_rtranclp_into_rtranclp[OF 1 converse_rtranclp_into_rtranclp[OF 2 r_into_rtranclp[of ?step, OF 3(1)]]])
  moreover have "sup_queue (supv s) = [Add conn None None, Remove conn]" by (simp add: s(2))
  ultimately show ?thesis using s(1) 3 by blast
qed

section \<open>Removal\<close>

lemma ends_removed:
  assumes "machine_step listener s s'" and "conn \<in> fst ` set (running s) - fst ` set (running s')"
  shows "removed conn s"
  using assms
proof cases
  case (loop_cancelled c b)
  have "c = conn"
  proof (rule ccontr)
    assume "c \<noteq> conn"
    then have "p \<in> set (remove1 (c, b) (running s))" if "p \<in> set (running s)" "fst p = conn" for p
      using that \<open>c \<noteq> conn\<close> by (cases p) (simp add: in_set_remove1)
    then show False using assms(2) loop_cancelled(1) by fastforce
  qed
  then show ?thesis using loop_cancelled(4) by simp
qed auto

lemma becomes_removed:
  assumes "sup_step listener s s'" and "removed conn s'"
  shows "removed conn s \<or> sup_queue (supv s) = Remove conn # sup_queue (supv s')"
  using assms(1)
proof cases
  case inside
  then show ?thesis
  proof cases
    case (loop_turn c)
    obtain cmd cmds where c: "sup_queue (supv s) = cmd # cmds" "c = handle_command cmd ((supv s)\<lparr>sup_queue := cmds\<rparr>)"
      using loop_fields[OF loop_turn(3)] by blast
    then show ?thesis using assms(2) loop_turn(1)
      by (auto simp: removed_def handle_command_def split: command.splits option.splits if_splits)
  next
    case (task_begins xs c task policy ys d b)
    then show ?thesis using assms(2) begin_fields[OF task_begins(4)] by (auto simp: removed_def split: if_splits)
  next
    case (task_refused xs c task policy ys e d)
    then show ?thesis using assms(2) begin_raises[OF task_refused(4)] by (simp add: removed_def)
  qed (use assms(2) in \<open>auto simp: removed_def split: if_splits\<close>)
next
  case outside
  then show ?thesis
  proof cases
    case (user_command cmd c)
    then show ?thesis using assms(2) enqueue_fields[OF user_command(3)] by (simp add: removed_def)
  qed (use assms(2) in \<open>auto simp: removed_def split: if_splits\<close>)
qed

lemma stays_removed:
  assumes "sup_step listener s s'" and "removed conn s"
  shows "removed conn s' \<or> entries (supv s') conn = None"
  using assms(1)
proof cases
  case inside
  then show ?thesis
  proof cases
    case (loop_turn c)
    obtain cmd cmds where c: "sup_queue (supv s) = cmd # cmds" "c = handle_command cmd ((supv s)\<lparr>sup_queue := cmds\<rparr>)"
      using loop_fields[OF loop_turn(3)] by blast
    then show ?thesis using assms(2) loop_turn(1)
      by (auto simp: removed_def handle_command_def cancel_entry_def split: command.splits option.splits if_splits)
  next
    case (task_begins xs c task policy ys d b)
    then show ?thesis using assms(2) begin_fields[OF task_begins(4)]
      by (cases "conn = c") (auto simp: removed_def)
  next
    case (task_refused xs c task policy ys e d)
    then show ?thesis using assms(2) begin_raises[OF task_refused(4)] by (simp add: removed_def)
  qed (use assms(2) in \<open>auto simp: removed_def\<close>)
next
  case outside
  then show ?thesis
  proof cases
    case (user_command cmd c)
    then show ?thesis using assms(2) enqueue_fields[OF user_command(3)] by (simp add: removed_def)
  qed (use assms(2) in \<open>auto simp: removed_def\<close>)
qed

lemma removal_ends:
  assumes inv: "sup_inv s" and "\<not> crashed s" "conn \<in> fst ` set (running s)" "sup_queue (supv s) = Remove conn # cmds"
  shows "\<exists>s'. (machine_step listener)\<^sup>*\<^sup>* s s' \<and> map fst (running s') = remove1 conn (map fst (running s)) \<and>
    entries (supv s') conn = None \<and> closing s' = closing s \<and> sup_queue (supv s') = cmds \<and> \<not> crashed s'"
proof -
  obtain b where b: "(conn, b) \<in> set (running s)" using assms(3) by auto
  obtain e where e: "entries (supv s) conn = Some e" using inv assms(3) by (auto simp: sup_inv_def)
  let ?t = "s\<lparr>supv := handle_command (Remove conn) ((supv s)\<lparr>sup_queue := cmds\<rparr>)\<rparr>"
  let ?u = "end_loop conn b (Raises Cancelled) ?t"
  have 1: "machine_step listener s ?t" using assms inv by (intro turn) (simp_all add: sup_inv_def)
  have rm: "removed conn ?t" using e by (simp add: removed_def handle_command_def cancel_entry_def)
  have 2: "machine_step listener ?t ?u" by (rule loop_cancelled) (use assms(2) b rm in simp_all)
  have k: "map fst (running ?u) = remove1 conn (map fst (running s))"
    using remove1_key[OF _ b] inv by (simp add: sup_inv_def)
  have nc: "\<not> crashed ?u" using assms(2) rm by (simp add: leave_scope_def)
  show ?thesis
  proof (cases b)
    case True
    then have cl: "closing ?u = (conn, True, Raises Cancelled) # closing s" using rm by (simp add: end_loop_def Let_def)
    let ?v = "finish_task (leave_scope True (Raises Cancelled))
        (?u\<lparr>closing := remove1 (conn, True, Raises Cancelled) (closing ?u)\<rparr>)"
    have "machine_step listener ?u ?v" by (rule close_cancelled) (use nc cl in simp_all)
    then have "(machine_step listener)\<^sup>*\<^sup>* s ?v"
      by (rule converse_rtranclp_into_rtranclp[OF 1 converse_rtranclp_into_rtranclp[OF 2
            r_into_rtranclp[of "machine_step listener"]]])
    moreover have "closing ?v = closing s" using cl by simp
    ultimately show ?thesis using k nc by (intro exI[of _ ?v]) (simp add: leave_scope_def)
  next
    case False
    then have "closing ?u = closing s" by (simp add: end_loop_def Let_def)
    moreover have "(machine_step listener)\<^sup>*\<^sup>* s ?u"
      by (rule converse_rtranclp_into_rtranclp[OF 1 r_into_rtranclp[of "machine_step listener", OF 2]])
    ultimately show ?thesis using k nc by (intro exI[of _ ?u]) simp
  qed
qed

section \<open>Properties\<close>

text \<open>
  C28. Supervision and removal. In every reachable state each connection is in the supervised loop of at
  most one task, the connections with an entry are those, and the nursery is there as long as nothing
  has crashed. The supervisor itself ends no loop but those of removed connections; a connection comes
  to be removed only by the turn of the main loop that takes a \<open>Remove\<close> of it from the head of the
  queue, and stays so as long as its entry exists. And such a \<open>Remove\<close> of a connection in its loop
  needs nothing from outside to end the task: turn of the loop, \<^verbatim>\<open>Cancelled\<close> in the supervised loop, the
  entry deleted, and \<^verbatim>\<open>Cancelled\<close> again in the \<^verbatim>\<open>close()\<close> that follows, if one does.
\<close>

theorem supervised_once:
  assumes "sup_reachable listener s"
  shows "distinct (map fst (running s)) \<and> (\<forall>c. c \<in> fst ` set (running s) \<longleftrightarrow> entries (supv s) c \<noteq> None) \<and>
    has_nursery (supv s) = (\<not> crashed s) \<and>
    (\<forall>s'. machine_step listener s s' \<and> conn \<in> fst ` set (running s) - fst ` set (running s') \<longrightarrow> removed conn s) \<and>
    (\<forall>s'. sup_step listener s s' \<and> removed conn s' \<longrightarrow>
       removed conn s \<or> sup_queue (supv s) = Remove conn # sup_queue (supv s')) \<and>
    (\<forall>s'. sup_step listener s s' \<and> removed conn s \<longrightarrow> removed conn s' \<or> entries (supv s') conn = None) \<and>
    (\<not> crashed s \<and> conn \<in> fst ` set (running s) \<and> sup_queue (supv s) = Remove conn # cmds \<longrightarrow>
       (\<exists>s'. (machine_step listener)\<^sup>*\<^sup>* s s' \<and> map fst (running s') = remove1 conn (map fst (running s)) \<and>
          entries (supv s') conn = None \<and> closing s' = closing s \<and> sup_queue (supv s') = cmds \<and> \<not> crashed s'))"
proof -
  have inv: "sup_inv s" by (rule sup_reachable_inv[OF assms])
  then have i: "distinct (map fst (running s))" "\<forall>c. c \<in> fst ` set (running s) \<longleftrightarrow> entries (supv s) c \<noteq> None"
      "has_nursery (supv s) = (\<not> crashed s)" unfolding sup_inv_def by blast+
  show ?thesis
    by (intro conjI i allI impI; (elim conjE)?)
      (erule (1) ends_removed becomes_removed stays_removed | rule removal_ends[OF inv]; assumption)+
qed

text \<open>
  A removal that is lost. A user adds a connection and removes it again, and the main loop handles
  both commands before the task of the connection has begun: there is no entry yet, the removal is
  dropped, and the connection is then supervised although it has been removed.
\<close>

theorem early_removal_lost:
  "\<exists>s s'. (sup_step (\<lambda>_. False))\<^sup>*\<^sup>* (init_tasks policy w) s \<and>
     sup_queue (supv s) = [Add conn None None, Remove conn] \<and>
     (sup_step (\<lambda>_. False))\<^sup>*\<^sup>* s s' \<and> sup_queue (supv s') = [] \<and> spawned (supv s') = [] \<and>
     running s' = [(conn, True)] \<and> map_option cancel_called (entries (supv s') conn) = Some False"
  using lost_run[of policy w conn] by blast

text \<open>
  A second \<open>Add\<close> of a supervised connection ends the whole supervisor: the task raises
  \<^verbatim>\<open>AssertionError\<close> in the nursery that all connections share.
\<close>

lemma second_add_crashes:
  "\<exists>s s'. (sup_step (\<lambda>_. False))\<^sup>*\<^sup>* (init_tasks policy w) s \<and>
     sup_queue (supv s) = [Add conn None None, Add conn None None] \<and>
     (sup_step (\<lambda>_. False))\<^sup>*\<^sup>* s s' \<and> crashed s'"
proof -
  let ?step = "sup_step (\<lambda>_. False)" and ?add = "Add conn None None"
  obtain s where s: "?step\<^sup>*\<^sup>* (init_tasks policy w) s"
      "s = (init_tasks policy w)\<lparr>supv := (supv (init_tasks policy w))\<lparr>sup_queue := [?add, ?add]\<rparr>\<rparr>"
    by (rule two_commands)
  note defs = s(2) init_tasks_def init_supervisor_def handle_command_def begin_supervision_def
  let ?s1 = "s\<lparr>supv := handle_command ?add ((supv s)\<lparr>sup_queue := [?add]\<rparr>)\<rparr>"
  let ?s2 = "?s1\<lparr>supv := handle_command ?add ((supv ?s1)\<lparr>sup_queue := []\<rparr>)\<rparr>"
  have 1: "?step s ?s1" by (rule inside[OF turn]) (simp_all add: defs)
  have 2: "?step ?s1 ?s2" by (rule inside[OF turn]) (simp_all add: defs)
  obtain s3 where 3: "?step ?s2 s3" "spawned (supv s3) = [(conn, None, None)]" "entries (supv s3) conn \<noteq> None"
      "\<not> crashed s3"
    using inside[OF task_begins[of ?s2 "[]" conn None None "[(conn, None, None)]" "\<lambda>_. False" _ False]] by (simp add: defs)
  obtain s4 where 4: "?step s3 s4" "crashed s4"
    using inside[OF task_refused[OF 3(4), of "[]" conn None None "[]" "\<lambda>_. False" AssertionError]] 3(2,3)
    by (simp add: begin_supervision_def)
  have "?step\<^sup>*\<^sup>* s s4" by (rule converse_rtranclp_into_rtranclp[OF 1 converse_rtranclp_into_rtranclp[OF 2
    converse_rtranclp_into_rtranclp[OF 3(1) r_into_rtranclp[of ?step, OF 4(1)]]]])
  moreover have "sup_queue (supv s) = [?add, ?add]" by (simp add: s(2))
  ultimately show ?thesis using s(1) 4(2) by blast
qed

text \<open>
  The entry goes before \<^verbatim>\<open>close()\<close> is awaited. While the task of a connection is closing it after the
  policy has ended its supervision, a second \<open>Add\<close> is accepted, and the connection is supervised again
  with the first \<^verbatim>\<open>close()\<close> still to come.
\<close>

lemma added_while_closing:
  assumes "\<not> crashed s" and "(conn, True) \<in> set (running s)" and "spawned (supv s) = [(conn, None, None)]"
    and "\<not> removed conn s" and "\<not> listener conn"
  shows "\<exists>s'. (sup_step listener)\<^sup>*\<^sup>* s s' \<and> (conn, False, Returns ()) \<in> set (closing s') \<and>
    conn \<in> fst ` set (running s') \<and> \<not> crashed s'"
proof -
  let ?t = "end_loop conn True (Returns ()) s"
  have 1: "sup_step listener s ?t" by (rule sup_step.outside[OF loop_ends]) (use assms in simp_all)
  have sp: "spawned (supv ?t) = [] @ (conn, None, None) # []"
    using assms(3) by (simp add: end_loop_def Let_def drop_entry_def)
  have nc: "\<not> crashed ?t" using assms(1) by simp
  obtain u where u: "begin_supervision (listener conn) conn None None ((supv ?t)\<lparr>spawned := []\<rparr>) = (Returns (), u)"
    using assms(5) by (simp add: begin_supervision_def)
  let ?u = "?t\<lparr>supv := u, running := (conn, \<not> False) # running ?t\<rparr>"
  have 2: "sup_step listener ?t ?u" by (rule inside[OF task_begins[OF nc sp]]) (use u in simp)
  have "(sup_step listener)\<^sup>*\<^sup>* s ?u"
    by (rule converse_rtranclp_into_rtranclp[OF 1 r_into_rtranclp[of "sup_step listener", OF 2]])
  moreover have "(conn, False, Returns ()) \<in> set (closing ?t)" using assms(4) by (simp add: end_loop_def Let_def)
  ultimately show ?thesis using nc by (intro exI[of _ ?u]) simp
qed

section \<open>Witnesses\<close>

text \<open>A connection that is supervised and then removed.\<close>

theorem supervised_once_witness:
  "\<exists>s s' :: (nat, unit) sup_tasks. running s = [(7, True)] \<and> sup_queue (supv s) = [Remove 7] \<and>
     (machine_step (\<lambda>_. False))\<^sup>*\<^sup>* s s' \<and> running s' = [] \<and> entries (supv s') 7 = None"
proof -
  obtain i t :: "(nat, unit) sup_tasks" where i: "(sup_step (\<lambda>_. False))\<^sup>*\<^sup>* (init_tasks None ()) i"
      "(sup_step (\<lambda>_. False))\<^sup>*\<^sup>* i t" and t: "running t = [(7, True)]" "sup_queue (supv t) = []" "\<not> crashed t"
    using lost_run[of None "()" 7] by blast
  have "(sup_step (\<lambda>_. False))\<^sup>*\<^sup>* (init_tasks None ()) t" using i by simp
  then have rt: "sup_reachable (\<lambda>_. False) t"
    by (induction rule: rtranclp_induct) (auto intro: sup_starts sup_moves)
  let ?s = "t\<lparr>supv := (supv t)\<lparr>sup_queue := [Remove 7]\<rparr>\<rparr>"
  have "outside_step t ?s"
    using user_command[of t "Remove 7" "(supv t)\<lparr>sup_queue := [Remove 7]\<rparr>"] t by (simp add: enqueue_def queue_size_def)
  then have r: "sup_reachable (\<lambda>_. False) ?s" by (rule sup_moves[OF rt sup_step.outside])
  have "\<exists>s'. (machine_step (\<lambda>_. False))\<^sup>*\<^sup>* ?s s' \<and> map fst (running s') = remove1 7 (map fst (running ?s)) \<and>
      entries (supv s') 7 = None \<and> closing s' = closing ?s \<and> sup_queue (supv s') = [] \<and> \<not> crashed s'"
    by (rule supervised_once[OF r, of 7 "[]", THEN conjunct2, THEN conjunct2, THEN conjunct2, THEN conjunct2,
          THEN conjunct2, THEN conjunct2, THEN mp]) (use t in simp)
  then obtain s' where "(machine_step (\<lambda>_. False))\<^sup>*\<^sup>* ?s s'" "running s' = []" "entries (supv s') 7 = None"
    using t(1) by auto
  then show ?thesis using t(1) by (intro exI[of _ ?s] exI[of _ s'] conjI) simp_all
qed

end
