(* ===== verification/Urls.thy ===== *)
theory Urls
  imports Prelude
begin

text \<open>
  What \<^verbatim>\<open>connections/factory.py\<close> uses of Python's standard library to take a URL apart:
  \<^verbatim>\<open>urllib.parse.urlparse(s, allow_fragments=False)\<close>, \<^verbatim>\<open>urllib.parse.parse_qs\<close> and \<^verbatim>\<open>int(s)\<close>, on
  strings of ASCII characters. Two things the library delegates are arguments: \<open>bracketed_ok\<close>,
  the check of the text between brackets in a host, and \<open>decode\<close>, the UTF-8 decoder that
  percent-escapes go through.
\<close>

section \<open>Characters\<close>

definition is_digit :: "char \<Rightarrow> bool" where
  "is_digit c \<longleftrightarrow> 48 \<le> (of_char c :: nat) \<and> (of_char c :: nat) \<le> 57"

definition is_lower :: "char \<Rightarrow> bool" where
  "is_lower c \<longleftrightarrow> 97 \<le> (of_char c :: nat) \<and> (of_char c :: nat) \<le> 122"

definition is_upper :: "char \<Rightarrow> bool" where
  "is_upper c \<longleftrightarrow> 65 \<le> (of_char c :: nat) \<and> (of_char c :: nat) \<le> 90"

definition is_alpha :: "char \<Rightarrow> bool" where
  "is_alpha c \<longleftrightarrow> is_lower c \<or> is_upper c"

definition lower_char :: "char \<Rightarrow> char" where
  "lower_char c = (if is_upper c then char_of ((of_char c :: nat) + 32) else c)"

definition scheme_char :: "char \<Rightarrow> bool" where
  "scheme_char c \<longleftrightarrow> is_alpha c \<or> is_digit c \<or> c \<in> set ''+-.''"

section \<open>Splitting a URL\<close>

record url_parts =
  url_scheme :: string
  url_netloc :: string
  url_path :: string
  url_query :: string

definition clean_url :: "string \<Rightarrow> string" where
  "clean_url s = filter (\<lambda>c. (of_char c :: nat) \<notin> {9, 10, 13}) (dropWhile (\<lambda>c. (of_char c :: nat) \<le> 32) s)"

definition split_scheme :: "string \<Rightarrow> string \<times> string" where
  "split_scheme url =
     (let h = takeWhile (\<lambda>c. c \<noteq> CHR '':'') url in
      if h \<noteq> [] \<and> length h < length url \<and> is_alpha (hd url) \<and> list_all scheme_char h
      then (map lower_char h, drop (Suc (length h)) url) else ([], url))"

definition split_netloc :: "string \<Rightarrow> string \<times> string" where
  "split_netloc url =
     (if take 2 url = ''//''
      then (let rest = drop 2 url; n = takeWhile (\<lambda>c. c \<notin> set ''/?#'') rest in (n, drop (length n) rest))
      else ([], url))"

definition brackets_ok :: "(string \<Rightarrow> bool) \<Rightarrow> string \<Rightarrow> bool" where
  "brackets_ok bracketed_ok netloc \<longleftrightarrow>
     (CHR ''['' \<in> set netloc \<longleftrightarrow> CHR '']'' \<in> set netloc) \<and>
     (CHR ''['' \<in> set netloc \<longrightarrow>
        bracketed_ok (fst (partition_on CHR '']'' (snd (snd (partition_on CHR ''['' netloc))))))"

text \<open>The schemes for which the last path segment may carry parameters after a semicolon.\<close>

definition uses_params :: "string list" where
  "uses_params = ['''', ''ftp'', ''hdl'', ''prospero'', ''http'', ''imap'', ''https'', ''shttp'', ''rtsp'',
     ''rtsps'', ''rtspu'', ''sip'', ''sips'', ''mms'', ''sftp'', ''tel'']"

definition drop_params :: "string \<Rightarrow> string" where
  "drop_params path =
     (case rpartition_on CHR ''/'' path of
        (h, True, seg) \<Rightarrow> h @ ''/'' @ fst (partition_on CHR '';'' seg)
      | (_, False, _) \<Rightarrow> fst (partition_on CHR '';'' path))"

definition urlparse :: "(string \<Rightarrow> bool) \<Rightarrow> string \<Rightarrow> exn + url_parts" where
  "urlparse bracketed_ok s =
     (let (scheme, rest) = split_scheme (clean_url s);
          (netloc, rest') = split_netloc rest;
          (path, _, query) = partition_on CHR ''?'' rest'
      in if \<not> brackets_ok bracketed_ok netloc then Inl (ValueError ''Invalid IPv6 URL'')
         else Inr \<lparr>url_scheme = scheme, url_netloc = netloc,
                url_path = (if scheme \<in> set uses_params \<and> CHR '';'' \<in> set path then drop_params path else path),
                url_query = query\<rparr>)"

section \<open>Queries\<close>

definition hex_digit :: "char \<Rightarrow> nat option" where
  "hex_digit c = (let n = (of_char c :: nat) in
     if 48 \<le> n \<and> n \<le> 57 then Some (n - 48)
     else if 65 \<le> n \<and> n \<le> 70 then Some (n - 55)
     else if 97 \<le> n \<and> n \<le> 102 then Some (n - 87)
     else None)"

definition byte_of :: "char \<Rightarrow> 8 word" where
  "byte_of c = of_nat (of_char c)"

text \<open>\<^verbatim>\<open>unquote_to_bytes\<close>: an escape that is not two hexadecimal digits stays as it is.\<close>

fun unquote_to_bytes :: "string \<Rightarrow> bytes" where
  "unquote_to_bytes (c # h # l # s) =
     (if c = CHR ''%'' then
        (case (hex_digit h, hex_digit l) of
           (Some x, Some y) \<Rightarrow> of_nat (16 * x + y) # unquote_to_bytes s
         | _ \<Rightarrow> byte_of c # unquote_to_bytes (h # l # s))
      else byte_of c # unquote_to_bytes (h # l # s))"
| "unquote_to_bytes s = map byte_of s"

definition unquote_plus :: "(bytes \<Rightarrow> string) \<Rightarrow> string \<Rightarrow> string" where
  "unquote_plus decode s =
     (let t = map (\<lambda>c. if c = CHR ''+'' then CHR '' '' else c) s in
      if CHR ''%'' \<in> set t then decode (unquote_to_bytes t) else t)"

definition parse_pair :: "(bytes \<Rightarrow> string) \<Rightarrow> string \<Rightarrow> (string \<times> string) list" where
  "parse_pair decode name_value =
     (case partition_on CHR ''='' name_value of
        (name, _, val) \<Rightarrow> if val = [] then [] else [(unquote_plus decode name, unquote_plus decode val)])"

definition parse_qsl :: "(bytes \<Rightarrow> string) \<Rightarrow> string \<Rightarrow> (string \<times> string) list" where
  "parse_qsl decode qs = concat (map (parse_pair decode) (split_on CHR ''&'' qs))"

text \<open>\<^verbatim>\<open>parse_qs\<close> groups the values by name, names in the order of their first occurrence.\<close>

fun add_pair :: "string \<times> string \<Rightarrow> (string \<times> string list) list \<Rightarrow> (string \<times> string list) list" where
  "add_pair (n, v) [] = [(n, [v])]"
| "add_pair (n, v) ((m, vs) # r) = (if n = m then (m, vs @ [v]) # r else (m, vs) # add_pair (n, v) r)"

definition parse_qs :: "(bytes \<Rightarrow> string) \<Rightarrow> string \<Rightarrow> (string \<times> string list) list" where
  "parse_qs decode qs = fold add_pair (parse_qsl decode qs) []"

section \<open>Integers\<close>

text \<open>
  \<^verbatim>\<open>int(s)\<close>: white space around, a sign, digits with single underscores between them, at most
  4300 digits. \<open>None\<close> stands for the \<^verbatim>\<open>ValueError\<close>.
\<close>

definition max_str_digits :: nat where "max_str_digits = 4300"

definition digits_value :: "string \<Rightarrow> nat" where
  "digits_value ds = foldl (\<lambda>n c. 10 * n + ((of_char c :: nat) - 48)) 0 ds"

definition unsigned_int :: "string \<Rightarrow> nat option" where
  "unsigned_int d =
     (let parts = split_on CHR ''_'' d in
      if list_all (\<lambda>p. p \<noteq> [] \<and> list_all is_digit p) parts \<and> length (concat parts) \<le> max_str_digits
      then Some (digits_value (concat parts)) else None)"

definition py_int :: "string \<Rightarrow> int option" where
  "py_int s =
     (case strip s of
        [] \<Rightarrow> None
      | c # r \<Rightarrow>
          if c = CHR ''-'' then map_option (\<lambda>n. - int n) (unsigned_int r)
          else if c = CHR ''+'' then map_option int (unsigned_int r)
          else map_option int (unsigned_int (c # r)))"

section \<open>Decimal numerals\<close>

text \<open>\<^verbatim>\<open>str(n)\<close>, for the round trips.\<close>

fun dec_of :: "nat \<Rightarrow> string" where
  "dec_of n = (if n < 10 then [char_of (48 + n)] else dec_of (n div 10) @ [char_of (48 + n mod 10)])"

declare dec_of.simps [simp del]

definition dec_of_int :: "int \<Rightarrow> string" where
  "dec_of_int i = (if i < 0 then CHR ''-'' # dec_of (nat (- i)) else dec_of (nat i))"

lemma dec_of_digits: "list_all is_digit (dec_of n)"
proof (induction n rule: dec_of.induct)
  case (1 n)
  have "is_digit (char_of (48 + k))" if "k < 10" for k :: nat
    using that by (simp add: is_digit_def)
  then show ?case using 1 by (simp add: dec_of.simps[of n])
qed

lemma dec_of_not_Nil [simp]: "dec_of n \<noteq> []"
  by (simp add: dec_of.simps[of n])

lemma digits_value_append1:
  "digits_value (ds @ [c]) = 10 * digits_value ds + ((of_char c :: nat) - 48)"
  by (simp add: digits_value_def)

lemma digits_value_dec: "digits_value (dec_of n) = n"
proof (induction n rule: dec_of.induct)
  case (1 n)
  show ?case
  proof (cases "n < 10")
    case True
    then show ?thesis by (simp add: dec_of.simps[of n] digits_value_def)
  next
    case False
    then show ?thesis using 1 by (simp add: dec_of.simps[of n] digits_value_append1)
  qed
qed

lemma length_dec_of: "n < 10 ^ Suc k \<Longrightarrow> length (dec_of n) \<le> Suc k"
proof (induction k arbitrary: n)
  case 0
  then show ?case by (simp add: dec_of.simps)
next
  case (Suc k)
  show ?case
  proof (cases "n < 10")
    case True
    then show ?thesis by (simp add: dec_of.simps)
  next
    case False
    have "n div 10 < 10 ^ Suc k" using Suc.prems by (simp add: less_mult_imp_div_less mult.commute)
    then have "length (dec_of (n div 10)) \<le> Suc k" by (rule Suc.IH)
    then show ?thesis using False by (simp add: dec_of.simps[of n])
  qed
qed

lemma is_digit_facts:
  assumes "is_digit c"
  shows "\<not> is_space c" and "c \<noteq> CHR ''_''" and "c \<noteq> CHR ''-''" and "c \<noteq> CHR ''+''"
  using assms by (auto simp: is_digit_def is_space_def Let_def)

lemma strip_id: "s \<noteq> [] \<Longrightarrow> \<not> is_space (hd s) \<Longrightarrow> \<not> is_space (last s) \<Longrightarrow> strip s = s"
  by (simp add: strip_def rstrip_id lstrip_id)

lemma unsigned_int_dec:
  assumes "n < 10 ^ max_str_digits"
  shows "unsigned_int (dec_of n) = Some n"
proof -
  have "\<forall>c \<in> set (dec_of n). is_digit c" using dec_of_digits[of n] by (simp add: list_all_iff)
  then have "CHR ''_'' \<notin> set (dec_of n)" using is_digit_facts(2) by blast
  then have sp: "split_on CHR ''_'' (dec_of n) = [dec_of n]" by (rule split_on_no_sep)
  have "0 < max_str_digits" by (simp add: max_str_digits_def)
  then obtain k where k: "max_str_digits = Suc k" using gr0_implies_Suc by blast
  have "length (dec_of n) \<le> max_str_digits" using length_dec_of[of n k] assms unfolding k by simp
  then show ?thesis
    using dec_of_digits[of n] by (simp add: unsigned_int_def sp digits_value_dec)
qed

lemma py_int_dec:
  assumes "\<bar>i\<bar> < 10 ^ max_str_digits"
  shows "py_int (dec_of_int i) = Some i"
proof -
  have *: "nat \<bar>i\<bar> < 10 ^ max_str_digits" using assms by (simp add: nat_less_iff)
  have dig: "\<not> is_space (hd (dec_of n))" "\<not> is_space (last (dec_of n))" "hd (dec_of n) \<noteq> CHR ''-''"
      "hd (dec_of n) \<noteq> CHR ''+''" for n
  proof -
    have "is_digit (hd (dec_of n))" "is_digit (last (dec_of n))"
      using dec_of_digits[of n] by (simp_all add: list_all_iff)
    then show "\<not> is_space (hd (dec_of n))" "\<not> is_space (last (dec_of n))" "hd (dec_of n) \<noteq> CHR ''-''"
      "hd (dec_of n) \<noteq> CHR ''+''" using is_digit_facts by blast+
  qed
  show ?thesis
  proof (cases "i < 0")
    case True
    have "strip (CHR ''-'' # dec_of (nat (- i))) = CHR ''-'' # dec_of (nat (- i))"
      by (rule strip_id) (use dig in \<open>simp_all add: is_space_def\<close>)
    then show ?thesis using True unsigned_int_dec[of "nat (- i)"] * by (simp add: py_int_def dec_of_int_def)
  next
    case False
    have st: "strip (dec_of (nat i)) = dec_of (nat i)" by (rule strip_id) (use dig in simp_all)
    obtain c r where cr: "dec_of (nat i) = c # r" by (cases "dec_of (nat i)") auto
    then have "c \<noteq> CHR ''-''" "c \<noteq> CHR ''+''" using dig(3,4)[of "nat i"] by simp_all
    then show ?thesis using False unsigned_int_dec[of "nat i"] * st cr by (simp add: py_int_def dec_of_int_def)
  qed
qed

end
