(* ===== verification/Factory.thy ===== *)
theory Factory
  imports Urls Memory_Connections
begin

text \<open>
  \<^verbatim>\<open>connections/factory.py\<close>: the factory that makes connections (and, in \<^verbatim>\<open>listeners/factory.py\<close>,
  listeners) from a URL or a dictionary, its registries, its built-in middleware and the
  loopback pair.

  A registered class or function is a function from keyword arguments to an instance or an
  exception, a middleware one from an instance to an instance or an exception; the type of the
  instances is a parameter.
\<close>

section \<open>Specifications\<close>

text \<open>The values of a specification; \<open>VObject\<close> is any other object a dictionary may hold.\<close>

datatype val = VInt int | VStr string | VObject nat

type_synonym kwargs = "string \<Rightarrow> val option"

text \<open>
  A specification in dictionary form: \<open>spec_fields\<close> holds its members \<^verbatim>\<open>host\<close>, \<^verbatim>\<open>port\<close>, \<^verbatim>\<open>path\<close>,
  \<^verbatim>\<open>username\<close> and \<^verbatim>\<open>password\<close>; \<open>None\<close> is a member that is not there.
\<close>

record spec =
  spec_type :: "string option"
  spec_middleware :: "string list option"
  spec_fields :: kwargs
  spec_params :: "kwargs option"

definition field_names :: "string list" where
  "field_names = [''host'', ''port'', ''path'', ''username'', ''password'']"

text \<open>\<^verbatim>\<open>base_type, *middleware = s.split("+")\<close>.\<close>

definition split_type :: "string \<Rightarrow> string \<times> string list" where
  "split_type s = (hd (split_on CHR ''+'' s), tl (split_on CHR ''+'' s))"

definition param_value :: "string \<Rightarrow> val" where
  "param_value v = (case py_int v of Some i \<Rightarrow> VInt i | None \<Rightarrow> VStr v)"

fun convert_params :: "(string \<times> string list) list \<Rightarrow> exn + (string \<times> val) list" where
  "convert_params [] = Inr []"
| "convert_params ((k, v) # raw) =
     (if 1 < length v then Inl (ValueError ''repeated parameters are not supported'')
      else case convert_params raw of
             Inl e \<Rightarrow> Inl e
           | Inr ps \<Rightarrow> Inr ((k, param_value (hd v)) # ps))"

definition port_of :: "string \<Rightarrow> exn + int option" where
  "port_of port =
     (if port = [] then Inr None
      else case py_int port of
             None \<Rightarrow> Inl (ValueError ''invalid literal for int() with base 10'')
           | Some n \<Rightarrow> Inr (Some n))"

text \<open>The members of the result that the network location and the path give.\<close>

definition auth_fields :: "string \<Rightarrow> (string \<times> val) list" where
  "auth_fields auth =
     (if auth = [] then []
      else case partition_on CHR '':'' auth of
             (username, sep, password) \<Rightarrow>
               (''username'', VStr username) # (if sep then [(''password'', VStr password)] else []))"

definition location_fields :: "string \<Rightarrow> int option \<Rightarrow> string \<Rightarrow> string \<Rightarrow> (string \<times> val) list" where
  "location_fields host port path auth =
     (if host \<noteq> [] then [(''host'', VStr host)] else []) @
     (case port of Some n \<Rightarrow> [(''port'', VInt n)] | None \<Rightarrow> []) @
     (if path \<noteq> [] then [(''path'', VStr path)] else []) @
     auth_fields auth"

definition url_specification_to_dict ::
  "(string \<Rightarrow> bool) \<Rightarrow> (bytes \<Rightarrow> string) \<Rightarrow> string \<Rightarrow> exn + spec" where
  "url_specification_to_dict bracketed_ok decode specification =
     (case urlparse bracketed_ok specification of
        Inl e \<Rightarrow> Inl e
      | Inr parts \<Rightarrow>
          if url_scheme parts = [] then
            (let (base_type, middleware) = split_type specification in
             Inr \<lparr>spec_type = Some base_type, spec_middleware = Some middleware,
                  spec_fields = Map.empty, spec_params = None\<rparr>)
          else
            let (auth, _, host_and_port) = rpartition_on CHR ''@'' (url_netloc parts);
                (host, _, port) = partition_on CHR '':'' host_and_port
            in case port_of port of
                 Inl e \<Rightarrow> Inl e
               | Inr port' \<Rightarrow>
                   let raw = (if url_query parts = [] then [] else parse_qs decode (url_query parts)) in
                   (case convert_params raw of
                      Inl e \<Rightarrow> Inl e
                    | Inr parameters \<Rightarrow>
                        let (base_type, middleware) = split_type (url_scheme parts) in
                        Inr \<lparr>spec_type = Some base_type, spec_middleware = Some middleware,
                             spec_fields = map_of (location_fields host port' (url_path parts) auth),
                             spec_params = Some (map_of parameters)\<rparr>))"

section \<open>The factory\<close>

record 't factory =
  registry :: "string \<Rightarrow> (kwargs \<Rightarrow> exn + 't) option"
  middleware_registry :: "string \<Rightarrow> ('t \<Rightarrow> exn + 't) option"

definition init_factory :: "'t factory" where
  "init_factory = \<lparr>registry = Map.empty, middleware_registry = Map.empty\<rparr>"

fun find_middleware :: "'t factory \<Rightarrow> string list \<Rightarrow> exn + ('t \<Rightarrow> exn + 't) list" where
  "find_middleware f [] = Inr []"
| "find_middleware f (m # ms) =
     (case middleware_registry f m of
        None \<Rightarrow> Inl (UnknownMiddlewareTypeError m)
      | Some mw \<Rightarrow> (case find_middleware f ms of Inl e \<Rightarrow> Inl e | Inr mws \<Rightarrow> Inr (mw # mws)))"

fun wrap_all :: "('t \<Rightarrow> exn + 't) list \<Rightarrow> 't \<Rightarrow> exn + 't" where
  "wrap_all [] x = Inr x"
| "wrap_all (mw # mws) x = (case mw x of Inl e \<Rightarrow> Inl e | Inr y \<Rightarrow> wrap_all mws y)"

text \<open>The keyword arguments: the fields, overridden by the parameters.\<close>

definition call_args :: "spec \<Rightarrow> kwargs" where
  "call_args s =
     (spec_fields s |` set field_names) ++ (case spec_params s of Some ps \<Rightarrow> ps | None \<Rightarrow> Map.empty)"

definition create_from_dict :: "'t factory \<Rightarrow> spec \<Rightarrow> exn + 't" where
  "create_from_dict f s =
     (case spec_type s of
        None \<Rightarrow> Inl (KeyError ''type'')
      | Some connection_type \<Rightarrow>
          (case registry f connection_type of
             None \<Rightarrow> Inl (UnknownConnectionTypeError connection_type)
           | Some func \<Rightarrow>
               (case find_middleware f (case spec_middleware s of Some ms \<Rightarrow> ms | None \<Rightarrow> []) of
                  Inl e \<Rightarrow> Inl e
                | Inr mws \<Rightarrow>
                    (case func (call_args s) of Inl e \<Rightarrow> Inl e | Inr x \<Rightarrow> wrap_all mws x))))"

datatype spec_input = Url string | Dict spec

definition create :: "(string \<Rightarrow> bool) \<Rightarrow> (bytes \<Rightarrow> string) \<Rightarrow> 't factory \<Rightarrow> spec_input \<Rightarrow> exn + 't" where
  "create bracketed_ok decode f specification =
     (case specification of
        Url s \<Rightarrow> (case url_specification_to_dict bracketed_ok decode s of
                    Inl e \<Rightarrow> Inl e | Inr d \<Rightarrow> create_from_dict f d)
      | Dict d \<Rightarrow> create_from_dict f d)"

text \<open>Registering, unregistering, and the context managers that override an entry for a while.\<close>

definition register :: "string \<Rightarrow> (kwargs \<Rightarrow> exn + 't) \<Rightarrow> ('t factory, unit) action" where
  "register name klass = modify (\<lambda>f. f\<lparr>registry := (registry f)(name \<mapsto> klass)\<rparr>)"

definition register_middleware :: "string \<Rightarrow> ('t \<Rightarrow> exn + 't) \<Rightarrow> ('t factory, unit) action" where
  "register_middleware name mw =
     modify (\<lambda>f. f\<lparr>middleware_registry := (middleware_registry f)(name \<mapsto> mw)\<rparr>)"

definition unregister :: "string \<Rightarrow> ('t factory, unit) action" where
  "unregister name f =
     (if registry f name = None then (Raises (KeyError name), f)
      else (Returns (), f\<lparr>registry := (registry f)(name := None)\<rparr>))"

definition unregister_middleware :: "string \<Rightarrow> ('t factory, unit) action" where
  "unregister_middleware name f =
     (if middleware_registry f name = None then (Raises (KeyError name), f)
      else (Returns (), f\<lparr>middleware_registry := (middleware_registry f)(name := None)\<rparr>))"

definition use_class :: "(kwargs \<Rightarrow> exn + 't) \<Rightarrow> string \<Rightarrow> ('t factory, 'b) action \<Rightarrow> ('t factory, 'b) action" where
  "use_class klass name body f =
     (let old_klass = registry f name in
      try_finally (and_then (register name klass) (\<lambda>_. body))
        (\<lambda>_. and_then (unregister name)
               (\<lambda>_. case old_klass of Some k \<Rightarrow> register name k | None \<Rightarrow> ret ())) f)"

definition use_middleware :: "('t \<Rightarrow> exn + 't) \<Rightarrow> string \<Rightarrow> ('t factory, 'b) action \<Rightarrow> ('t factory, 'b) action" where
  "use_middleware mw name body f =
     (let old_middleware = middleware_registry f name in
      try_finally (and_then (register_middleware name mw) (\<lambda>_. body))
        (\<lambda>_. and_then (unregister_middleware name)
               (\<lambda>_. case old_middleware of Some m \<Rightarrow> register_middleware name m | None \<Rightarrow> ret ())) f)"

definition register_builtin_middleware ::
  "('t \<Rightarrow> exn + 't) \<Rightarrow> ('t \<Rightarrow> exn + 't) \<Rightarrow> ('t \<Rightarrow> exn + 't) \<Rightarrow> ('t factory, unit) action" where
  "register_builtin_middleware logging read_only write_only =
     and_then (register_middleware ''log'' logging)
       (\<lambda>_. and_then (register_middleware ''rd'' read_only)
         (\<lambda>_. register_middleware ''wr'' write_only))"

section \<open>The loopback pair\<close>

text \<open>
  \<^verbatim>\<open>create_loopback_connection_pair\<close>: two memory channels of Trio, each with its sending and its
  receiving end; the first connection sends on the first and receives from the second.
\<close>

record ('q, 'd) memory_channel =
  mem_send :: "'d \<Rightarrow> ('q, unit) action"
  mem_receive :: "('q, 'd) action"
  mem_close_tx :: "('q, unit) action"
  mem_close_rx :: "('q, unit) action"

definition on_first :: "('q, 'a) action \<Rightarrow> ('q \<times> 'q, 'a) action" where
  "on_first m = (\<lambda>(q1, q2). case m q1 of (r, q) \<Rightarrow> (r, (q, q2)))"

definition on_second :: "('q, 'a) action \<Rightarrow> ('q \<times> 'q, 'a) action" where
  "on_second m = (\<lambda>(q1, q2). case m q2 of (r, q) \<Rightarrow> (r, (q1, q)))"

definition loopback_pair ::
  "('q, 'd) memory_channel \<Rightarrow> ('q \<times> 'q, 'd, 'd) channel_ops \<times> ('q \<times> 'q, 'd, 'd) channel_ops" where
  "loopback_pair mem =
     (\<lparr>tx_send = (\<lambda>d. on_first (mem_send mem d)), tx_aclose = on_first (mem_close_tx mem),
       rx_receive = on_second (mem_receive mem), rx_aclose = on_second (mem_close_rx mem)\<rparr>,
      \<lparr>tx_send = (\<lambda>d. on_second (mem_send mem d)), tx_aclose = on_second (mem_close_tx mem),
       rx_receive = on_first (mem_receive mem), rx_aclose = on_first (mem_close_rx mem)\<rparr>)"

section \<open>Writing URLs\<close>

text \<open>
  A connection as one would describe it in a URL, and the URL: for the round trip. The names
  and values are made of characters that need no escape.
\<close>

record url_spec =
  u_type :: string
  u_middleware :: "string list"
  u_auth :: "(string \<times> string option) option"
  u_host :: string
  u_port :: "int option"
  u_path :: string
  u_query :: "(string \<times> val) list"

fun write_val :: "val \<Rightarrow> string" where
  "write_val (VInt i) = dec_of_int i"
| "write_val (VStr s) = s"
| "write_val (VObject n) = []"

definition write_auth :: "(string \<times> string option) option \<Rightarrow> string" where
  "write_auth a =
     (case a of
        None \<Rightarrow> []
      | Some (u, None) \<Rightarrow> u
      | Some (u, Some p) \<Rightarrow> u @ '':'' @ p)"

definition write_host :: "url_spec \<Rightarrow> string" where
  "write_host u = u_host u @ (case u_port u of None \<Rightarrow> [] | Some n \<Rightarrow> '':'' @ dec_of_int n)"

definition write_netloc :: "url_spec \<Rightarrow> string" where
  "write_netloc u = (if u_auth u = None then write_host u else write_auth (u_auth u) @ ''@'' @ write_host u)"

definition write_query :: "(string \<times> val) list \<Rightarrow> string" where
  "write_query q = join ''&'' (map (\<lambda>(k, v). k @ ''='' @ write_val v) q)"

definition write_type :: "url_spec \<Rightarrow> string" where
  "write_type u = join ''+'' (u_type u # u_middleware u)"

definition write_url :: "url_spec \<Rightarrow> string" where
  "write_url u =
     write_type u @ '':'' @
     (if write_netloc u = [] then [] else ''//'' @ write_netloc u) @
     u_path u @
     (if u_query u = [] then [] else ''?'' @ write_query (u_query u))"

definition type_char :: "char \<Rightarrow> bool" where
  "type_char c \<longleftrightarrow> is_lower c \<or> is_digit c \<or> c \<in> set ''-.''"

definition plain_char :: "char \<Rightarrow> bool" where
  "plain_char c \<longleftrightarrow> is_alpha c \<or> is_digit c \<or> c \<in> set ''-._~''"

definition plain :: "string \<Rightarrow> bool" where
  "plain s \<longleftrightarrow> list_all plain_char s"

fun plain_val :: "val \<Rightarrow> bool" where
  "plain_val (VInt i) \<longleftrightarrow> \<bar>i\<bar> < 10 ^ max_str_digits"
| "plain_val (VStr s) \<longleftrightarrow> plain s \<and> s \<noteq> [] \<and> py_int s = None"
| "plain_val (VObject n) \<longleftrightarrow> False"

definition plain_auth :: "(string \<times> string option) option \<Rightarrow> bool" where
  "plain_auth a =
     (case a of
        None \<Rightarrow> True
      | Some (u, None) \<Rightarrow> plain u \<and> u \<noteq> []
      | Some (u, Some p) \<Rightarrow> plain u \<and> plain p)"

definition writable :: "url_spec \<Rightarrow> bool" where
  "writable u \<longleftrightarrow>
     u_type u \<noteq> [] \<and> is_lower (hd (u_type u)) \<and> list_all type_char (u_type u) \<and>
     list_all (list_all type_char) (u_middleware u) \<and>
     plain_auth (u_auth u) \<and> plain (u_host u) \<and>
     (case u_port u of None \<Rightarrow> True | Some n \<Rightarrow> \<bar>n\<bar> < 10 ^ max_str_digits) \<and>
     list_all (\<lambda>c. plain_char c \<or> c = CHR ''/'') (u_path u) \<and>
     (write_netloc u \<noteq> [] \<longrightarrow> u_path u = [] \<or> hd (u_path u) = CHR ''/'') \<and>
     take 2 (u_path u) \<noteq> ''//'' \<and>
     list_all (\<lambda>(k, v). plain k \<and> plain_val v) (u_query u) \<and> distinct (map fst (u_query u))"

text \<open>The members that such a description has, and the whole as the dictionary it is read back to.\<close>

definition members_of :: "url_spec \<Rightarrow> string \<Rightarrow> val option" where
  "members_of u k =
     (if k = ''host'' then (if u_host u = [] then None else Some (VStr (u_host u)))
      else if k = ''port'' then map_option VInt (u_port u)
      else if k = ''path'' then (if u_path u = [] then None else Some (VStr (u_path u)))
      else if k = ''username'' then map_option (\<lambda>(name, _). VStr name) (u_auth u)
      else if k = ''password'' then (case u_auth u of Some (_, Some p) \<Rightarrow> Some (VStr p) | _ \<Rightarrow> None)
      else None)"

definition dict_of :: "url_spec \<Rightarrow> spec" where
  "dict_of u =
     \<lparr>spec_type = Some (u_type u), spec_middleware = Some (u_middleware u),
      spec_fields = members_of u,
      spec_params = Some (map_of (u_query u))\<rparr>"

section \<open>Characters of a written URL\<close>

lemma plain_char_facts:
  assumes "plain_char c"
  shows "32 < (of_char c :: nat)" and "c \<notin> set '':/?#[]@&=+%;''"
  using assms by (auto simp: plain_char_def is_alpha_def is_lower_def is_upper_def is_digit_def)

lemma type_char_facts:
  assumes "type_char c"
  shows "32 < (of_char c :: nat)" and "c \<notin> set '':+/?#''" and "scheme_char c" and "lower_char c = c"
  using assms by (auto simp: type_char_def scheme_char_def is_alpha_def lower_char_def is_lower_def is_upper_def is_digit_def)

lemma digit_plain: "is_digit c \<Longrightarrow> plain_char c"
  by (simp add: plain_char_def)

lemma dec_plain: "plain (dec_of_int i)"
proof -
  have "list_all plain_char (dec_of n)" for n
    using dec_of_digits[of n] digit_plain by (simp add: list_all_iff)
  then show ?thesis by (simp add: plain_def dec_of_int_def plain_char_def)
qed

lemma dec_of_int_not_Nil [simp]: "dec_of_int i \<noteq> []"
  by (simp add: dec_of_int_def)

lemma plainD: "plain s \<Longrightarrow> c \<in> set s \<Longrightarrow> plain_char c"
  by (simp add: plain_def list_all_iff)

lemma plain_not_in: "plain s \<Longrightarrow> c \<in> set '':/?#[]@&=+%;'' \<Longrightarrow> c \<notin> set s"
  using plainD plain_char_facts(2) by blast

lemma write_val_plain: "plain_val v \<Longrightarrow> plain (write_val v) \<and> write_val v \<noteq> [] \<and> param_value (write_val v) = v"
  by (cases v) (simp_all add: dec_plain param_value_def py_int_dec)

lemma set_join: "set (join sep xs) \<subseteq> set sep \<union> \<Union> (set ` set xs)"
  by (induction sep xs rule: join.induct) auto

lemma write_type_chars:
  assumes "writable u" and "c \<in> set (write_type u)"
  shows "type_char c \<or> c = CHR ''+''"
proof -
  have "c \<in> set ''+'' \<union> \<Union> (set ` set (u_type u # u_middleware u))"
    using assms(2) set_join[of "''+''" "u_type u # u_middleware u"] by (auto simp: write_type_def)
  then show ?thesis using assms(1) by (auto simp: writable_def list_all_iff)
qed

lemma write_type_hd:
  assumes "writable u"
  shows "write_type u \<noteq> [] \<and> is_alpha (hd (write_type u))"
  using assms by (cases "u_type u"; cases "u_middleware u")
    (auto simp: write_type_def writable_def is_alpha_def)

lemma split_write_type:
  assumes "writable u"
  shows "split_type (write_type u) = (u_type u, u_middleware u)"
proof -
  have no_plus: "CHR ''+'' \<notin> set x" if "list_all type_char x" for x
  proof
    assume "CHR ''+'' \<in> set x"
    then have "type_char CHR ''+''" using that by (simp add: list_all_iff)
    then show False using type_char_facts(2) by fastforce
  qed
  have "split_on CHR ''+'' (join [CHR ''+''] (u_type u # u_middleware u)) = u_type u # u_middleware u"
    by (rule split_on_join) (use assms no_plus in \<open>auto simp: writable_def list_all_iff\<close>)
  then show ?thesis by (simp add: split_type_def write_type_def)
qed

text \<open>The network location.\<close>

lemma write_host_chars:
  assumes "writable u" and "c \<in> set (write_host u)"
  shows "plain_char c \<or> c = CHR '':''"
proof (cases "u_port u")
  case None
  then show ?thesis using assms plainD[of "u_host u" c] by (auto simp: write_host_def writable_def)
next
  case (Some n)
  then show ?thesis using assms plainD[of "u_host u" c] plainD[OF dec_plain, of c n]
    by (auto simp: write_host_def writable_def)
qed

lemma write_auth_chars:
  assumes "writable u" and "c \<in> set (write_auth (u_auth u))"
  shows "plain_char c \<or> c = CHR '':''"
  using assms plainD
  by (auto simp: write_auth_def writable_def plain_auth_def split: option.splits)

lemma write_netloc_chars:
  assumes "writable u" and "c \<in> set (write_netloc u)"
  shows "plain_char c \<or> c = CHR '':'' \<or> c = CHR ''@''"
  using assms(2) write_host_chars[OF assms(1), of c] write_auth_chars[OF assms(1), of c]
  by (auto simp: write_netloc_def split: if_splits)

lemma netloc_not_in:
  assumes "writable u" and "c \<in> set ''/?#[]''"
  shows "c \<notin> set (write_netloc u)"
proof
  assume "c \<in> set (write_netloc u)"
  then show False
    using write_netloc_chars[OF assms(1)] plain_char_facts(2)[of c] assms(2) by auto
qed

lemma split_written_netloc:
  assumes "writable u"
  shows "rpartition_on CHR ''@'' (write_netloc u) = (write_auth (u_auth u), u_auth u \<noteq> None, write_host u)"
proof -
  have "CHR ''@'' \<notin> set (write_host u)"
    using write_host_chars[OF assms] plain_char_facts(2) by fastforce
  then show ?thesis
    using rpartition_on_sep[of "CHR ''@''" "write_host u" "write_auth (u_auth u)"]
    by (auto simp: write_netloc_def rpartition_on_no_sep write_auth_def split: option.splits)
qed

lemma split_written_host:
  assumes "writable u"
  shows "case partition_on CHR '':'' (write_host u) of
    (h, _, p) \<Rightarrow> h = u_host u \<and> port_of p = Inr (u_port u)"
proof -
  have h: "CHR '':'' \<notin> set (u_host u)"
    using assms by (intro plain_not_in) (auto simp: writable_def)
  show ?thesis
  proof (cases "u_port u")
    case None
    then show ?thesis using partition_on_no_sep[OF h] by (simp add: write_host_def port_of_def)
  next
    case (Some n)
    have "\<bar>n\<bar> < 10 ^ max_str_digits" using assms Some by (simp add: writable_def)
    from py_int_dec[OF this] have "port_of (dec_of_int n) = Inr (Some n)"
      by (simp add: port_of_def dec_of_int_def)
    then show ?thesis using partition_on_sep[OF h] Some by (simp add: write_host_def)
  qed
qed

text \<open>The query.\<close>

lemma unquote_plain: "plain s \<Longrightarrow> unquote_plus decode s = s"
proof -
  assume p: "plain s"
  have "CHR ''+'' \<notin> set s" "CHR ''%'' \<notin> set s" using plain_not_in[OF p] by auto
  moreover from this(1) have "map (\<lambda>c. if c = CHR ''+'' then CHR '' '' else c) s = s"
    by (induction s) auto
  ultimately show ?thesis by (simp add: unquote_plus_def)
qed

lemma parse_written_pair:
  assumes "plain k" and "plain_val v"
  shows "parse_pair decode (k @ ''='' @ write_val v) = [(k, write_val v)]"
proof -
  have "CHR ''='' \<notin> set k" using plain_not_in[OF assms(1)] by simp
  then have "partition_on CHR ''='' (k @ CHR ''='' # write_val v) = (k, True, write_val v)"
    by (rule partition_on_sep)
  then show ?thesis
    using write_val_plain[OF assms(2)] assms(1) by (simp add: parse_pair_def unquote_plain)
qed

lemma write_pair_chars:
  assumes "plain k" and "plain_val v" and "c \<in> set (k @ ''='' @ write_val v)"
  shows "plain_char c \<or> c = CHR ''=''"
  using assms(3) plainD[OF assms(1)] plainD[of "write_val v"] write_val_plain[OF assms(2)] by auto

lemma parse_written_query:
  assumes "list_all (\<lambda>(k, v). plain k \<and> plain_val v) q" and "q \<noteq> []"
  shows "parse_qsl decode (write_query q) = map (\<lambda>(k, v). (k, write_val v)) q"
proof -
  let ?w = "\<lambda>(k, v). k @ ''='' @ write_val v"
  have "CHR ''&'' \<notin> set (?w p)" if p: "p \<in> set q" for p
  proof
    assume c: "CHR ''&'' \<in> set (?w p)"
    obtain k v where kv: "p = (k, v)" by (cases p)
    then have "plain k" "plain_val v" using assms(1) p by (auto simp: list_all_iff)
    from write_pair_chars[OF this] c kv have "plain_char CHR ''&''" by auto
    then show False using plain_char_facts(2) by fastforce
  qed
  then have sp: "split_on CHR ''&'' (join [CHR ''&''] (map ?w q)) = map ?w q"
    by (intro split_on_join) (use assms(2) in auto)
  have "concat (map (parse_pair decode) (map ?w q)) = map (\<lambda>(k, v). (k, write_val v)) q"
    using assms(1)
  proof (induction q)
    case (Cons p q)
    obtain k v where "p = (k, v)" by (cases p)
    then show ?case using Cons parse_written_pair[of k v decode] by simp
  qed simp
  then show ?thesis by (simp only: parse_qsl_def write_query_def sp)
qed

lemma add_new_pair:
  "n \<notin> fst ` set acc \<Longrightarrow> add_pair (n, v) acc = acc @ [(n, [v])]"
  by (induction acc) auto

lemma group_distinct:
  "distinct (map fst ps) \<Longrightarrow> fst ` set ps \<inter> fst ` set acc = {} \<Longrightarrow>
    fold add_pair ps acc = acc @ map (\<lambda>(k, v). (k, [v])) ps"
proof (induction ps arbitrary: acc)
  case (Cons p ps)
  obtain k v where p: "p = (k, v)" by (cases p)
  have a: "add_pair (k, v) acc = acc @ [(k, [v])]"
    by (rule add_new_pair) (use Cons.prems(2) p in auto)
  have "fst ` set ps \<inter> fst ` set (acc @ [(k, [v])]) = {}"
    using Cons.prems p by auto
  from Cons.IH[OF _ this] Cons.prems(1) p a show ?case by simp
qed simp

lemma convert_written:
  "list_all (\<lambda>(k, v). plain k \<and> plain_val v) q \<Longrightarrow>
    convert_params (map (\<lambda>(k, v). (k, [write_val v])) q) = Inr q"
proof (induction q)
  case (Cons p q)
  obtain k v where "p = (k, v)" by (cases p)
  then show ?case using Cons write_val_plain[of v] by simp
qed simp

lemma params_written:
  assumes "list_all (\<lambda>(k, v). plain k \<and> plain_val v) q" and "distinct (map fst q)"
  shows "convert_params (if write_query q = [] then [] else parse_qs decode (write_query q)) = Inr q"
proof (cases "q = []")
  case False
  have "write_query q \<noteq> []" using False by (cases q; cases "tl q") (auto simp: write_query_def)
  have d: "distinct (map fst (map (\<lambda>(k, v). (k, write_val v)) q))"
    using assms(2) by (simp add: comp_def case_prod_beta)
  have "parse_qs decode (write_query q) = map (\<lambda>(k, v). (k, [write_val v])) q"
    unfolding parse_qs_def parse_written_query[OF assms(1) False]
    by (subst group_distinct[OF d]) auto
  then show ?thesis using convert_written[OF assms(1)] \<open>write_query q \<noteq> []\<close> by simp
qed (simp add: write_query_def)

section \<open>Reading a written URL\<close>

lemma clean_id:
  assumes "\<forall>c \<in> set s. 32 < (of_char c :: nat)"
  shows "clean_url s = s"
proof -
  have "dropWhile (\<lambda>c. (of_char c :: nat) \<le> 32) s = s"
    using assms by (cases s) auto
  moreover have "filter (\<lambda>c. (of_char c :: nat) \<notin> {9, 10, 13}) s = s"
    using assms by (intro filter_True) auto
  ultimately show ?thesis by (simp add: clean_url_def)
qed

lemma split_scheme_sep:
  assumes "s \<noteq> []" and "is_alpha (hd s)" and "\<forall>c \<in> set s. scheme_char c \<and> lower_char c = c \<and> c \<noteq> CHR '':''"
  shows "split_scheme (s @ CHR '':'' # t) = (s, t)"
proof -
  have tw: "takeWhile (\<lambda>c. c \<noteq> CHR '':'') (s @ CHR '':'' # t) = s"
    using assms(3) by (subst takeWhile_append2) auto
  have "map lower_char s = s" using assms(3) by (simp add: map_idI)
  moreover have "list_all scheme_char s" using assms(3) by (simp add: list_all_iff)
  ultimately show ?thesis using assms(1,2) by (simp add: split_scheme_def tw Let_def)
qed

lemma split_netloc_sep:
  assumes "\<forall>c \<in> set n. c \<notin> set ''/?#''" and "t = [] \<or> hd t \<in> set ''/?#''"
  shows "split_netloc (''//'' @ n @ t) = (n, t)"
proof -
  have "takeWhile (\<lambda>c. c \<notin> set ''/?#'') (n @ t) = n"
    using assms by (cases t) (auto simp: takeWhile_append2 takeWhile_eq_all_conv)
  then show ?thesis by (simp add: split_netloc_def Let_def)
qed

lemma written_tail:
  assumes "writable u"
  shows "split_netloc ((if write_netloc u = [] then [] else ''//'' @ write_netloc u) @ u_path u @
      (if u_query u = [] then [] else ''?'' @ write_query (u_query u))) =
    (write_netloc u, u_path u @ (if u_query u = [] then [] else ''?'' @ write_query (u_query u)))"
proof (cases "write_netloc u = []")
  case True
  have "take 2 (u_path u @ ''?'' @ x) \<noteq> ''//''" for x
    using assms by (cases "u_path u"; cases "tl (u_path u)") (auto simp: writable_def numeral_2_eq_2)
  moreover have "take 2 (u_path u) \<noteq> ''//''" using assms by (simp add: writable_def)
  ultimately show ?thesis using True by (simp add: split_netloc_def)
next
  case False
  then have "u_path u = [] \<or> hd (u_path u) = CHR ''/''" using assms by (simp add: writable_def)
  then have "split_netloc (''//'' @ write_netloc u @ (u_path u @ (if u_query u = [] then [] else ''?'' @ write_query (u_query u))))
      = (write_netloc u, u_path u @ (if u_query u = [] then [] else ''?'' @ write_query (u_query u)))"
    using netloc_not_in[OF assms] by (intro split_netloc_sep) (auto simp: hd_append)
  then show ?thesis using False by simp
qed

lemma path_chars: "writable u \<Longrightarrow> c \<in> set (u_path u) \<Longrightarrow> plain_char c \<or> c = CHR ''/''"
  by (auto simp: writable_def list_all_iff)

lemma path_not_in: "writable u \<Longrightarrow> c \<in> set ''?;'' \<Longrightarrow> c \<notin> set (u_path u)"
proof
  assume u: "writable u" and c: "c \<in> set ''?;''" and "c \<in> set (u_path u)"
  then show False using path_chars[OF u] plain_char_facts(2)[of c] by auto
qed

lemma query_chars:
  assumes "writable u" and "c \<in> set (write_query (u_query u))"
  shows "plain_char c \<or> c \<in> set ''=&''"
proof -
  have q: "list_all (\<lambda>(k, v). plain k \<and> plain_val v) (u_query u)" using assms(1) by (simp add: writable_def)
  have "c \<in> set ''&'' \<union> \<Union> (set ` set (map (\<lambda>(k, v). k @ ''='' @ write_val v) (u_query u)))"
    by (rule subsetD[OF set_join assms(2)[unfolded write_query_def]])
  then consider "c = CHR ''&''" | k v where "(k, v) \<in> set (u_query u)" "c \<in> set (k @ ''='' @ write_val v)"
    by auto
  then show ?thesis
  proof cases
    case 2
    then have "plain k" "plain_val v" using q by (auto simp: list_all_iff)
    from write_pair_chars[OF this 2(2)] show ?thesis by auto
  qed simp
qed

lemma written_chars:
  assumes "writable u" and "c \<in> set (write_url u)"
  shows "32 < (of_char c :: nat)"
proof -
  have ok: "32 < (of_char c :: nat)"
    if "type_char c \<or> plain_char c \<or> c \<in> set ''+:/?@=&''"
    using that
  proof (elim disjE)
    assume "c \<in> set ''+:/?@=&''"
    then show ?thesis by auto
  qed (rule type_char_facts plain_char_facts, assumption)+
  have "c \<in> set (write_type u) \<or> c \<in> set (write_netloc u) \<or> c \<in> set (u_path u) \<or>
      c \<in> set (write_query (u_query u)) \<or> c \<in> set '':/?''"
    using assms(2) by (simp add: write_url_def split: if_splits) blast+
  then have "type_char c \<or> plain_char c \<or> c \<in> set ''+:/?@=&''"
  proof (elim disjE)
    assume "c \<in> set (write_type u)"
    from write_type_chars[OF assms(1) this] show ?thesis by auto
  next
    assume "c \<in> set (write_netloc u)"
    from write_netloc_chars[OF assms(1) this] show ?thesis by auto
  next
    assume "c \<in> set (u_path u)"
    from path_chars[OF assms(1) this] show ?thesis by auto
  next
    assume "c \<in> set (write_query (u_query u))"
    from query_chars[OF assms(1) this] show ?thesis by auto
  next
    assume "c \<in> set '':/?''"
    then show ?thesis by auto
  qed
  then show ?thesis by (rule ok)
qed

lemma urlparse_written:
  assumes u: "writable u"
  shows "urlparse ok (write_url u) =
    Inr \<lparr>url_scheme = write_type u, url_netloc = write_netloc u, url_path = u_path u,
      url_query = (if u_query u = [] then [] else write_query (u_query u))\<rparr>"
proof -
  let ?tail = "(if write_netloc u = [] then [] else ''//'' @ write_netloc u) @ u_path u @
      (if u_query u = [] then [] else ''?'' @ write_query (u_query u))"
  have "\<forall>c \<in> set (write_type u). scheme_char c \<and> lower_char c = c \<and> c \<noteq> CHR '':''"
  proof
    fix c assume "c \<in> set (write_type u)"
    then have "type_char c \<or> c = CHR ''+''" by (rule write_type_chars[OF u])
    then show "scheme_char c \<and> lower_char c = c \<and> c \<noteq> CHR '':''"
      using type_char_facts(2-4)[of c] by (auto simp: scheme_char_def lower_char_def is_upper_def)
  qed
  then have "split_scheme (write_type u @ CHR '':'' # ?tail) = (write_type u, ?tail)"
    using write_type_hd[OF u] by (intro split_scheme_sep) auto
  moreover have "clean_url (write_url u) = write_url u"
    by (rule clean_id) (use written_chars[OF u] in blast)
  moreover have "partition_on CHR ''?'' (u_path u @ (if u_query u = [] then [] else ''?'' @ write_query (u_query u)))
      = (u_path u, u_query u \<noteq> [], if u_query u = [] then [] else write_query (u_query u))"
    using path_not_in[OF u] by (simp add: partition_on_sep partition_on_no_sep)
  moreover have "brackets_ok ok (write_netloc u)"
    using netloc_not_in[OF u] by (simp add: brackets_ok_def)
  moreover have "CHR '';'' \<notin> set (u_path u)" using path_not_in[OF u] by simp
  ultimately show ?thesis
    using written_tail[OF u] by (simp add: urlparse_def write_url_def)
qed

lemma written_members:
  assumes "plain_auth (u_auth u)"
  shows "map_of (location_fields (u_host u) (u_port u) (u_path u) (write_auth (u_auth u))) = members_of u"
proof -
  have colon: "CHR '':'' \<notin> set s" if "plain s" for s
    using that plain_char_facts(2) by (fastforce simp: plain_def list_all_iff)
  have "map_of (auth_fields (write_auth (u_auth u))) =
      (\<lambda>k. if k = ''username'' \<or> k = ''password'' then members_of u k else None)"
  proof (cases "u_auth u")
    case None
    then show ?thesis by (auto simp: auth_fields_def write_auth_def members_of_def fun_eq_iff)
  next
    case (Some a)
    obtain name pw where a: "a = (name, pw)" by (cases a)
    show ?thesis
    proof (cases pw)
      case None
      then show ?thesis using assms Some a colon
        by (auto simp: auth_fields_def write_auth_def members_of_def plain_auth_def partition_on_no_sep fun_eq_iff)
    next
      case (Some p)
      then show ?thesis using assms \<open>u_auth u = Some a\<close> a colon
        by (auto simp: auth_fields_def write_auth_def members_of_def plain_auth_def partition_on_sep fun_eq_iff)
    qed
  qed
  then show ?thesis
    by (intro ext) (simp add: location_fields_def map_of_append map_add_def members_of_def split: option.split)
qed

lemma dict_of_written:
  assumes u: "writable u"
  shows "url_specification_to_dict ok decode (write_url u) = Inr (dict_of u)"
proof -
  have q: "list_all (\<lambda>(k, v). plain k \<and> plain_val v) (u_query u)" "distinct (map fst (u_query u))"
    using u by (simp_all add: writable_def)
  have wq: "(if (if u_query u = [] then [] else write_query (u_query u)) = [] then []
      else parse_qs decode (if u_query u = [] then [] else write_query (u_query u))) =
      (if write_query (u_query u) = [] then [] else parse_qs decode (write_query (u_query u)))"
    by (auto simp: write_query_def)
  obtain h s p where p: "partition_on CHR '':'' (write_host u) = (h, s, p)" by (metis surj_pair)
  have hp: "h = u_host u" "port_of p = Inr (u_port u)" using split_written_host[OF u] p by auto
  show ?thesis
    using write_type_hd[OF u]
    unfolding url_specification_to_dict_def urlparse_written[OF u] sum.case url_parts.simps
      split_written_netloc[OF u] Let_def prod.case p hp wq params_written[OF q] split_write_type[OF u]
    using written_members[of u] u by (simp add: dict_of_def writable_def)
qed

section \<open>Creating from a URL\<close>

lemma find_middleware_result:
  "find_middleware f ms =
    (case find (\<lambda>m. middleware_registry f m = None) ms of
       Some m \<Rightarrow> Inl (UnknownMiddlewareTypeError m)
     | None \<Rightarrow> Inr (map (\<lambda>m. the (middleware_registry f m)) ms))"
proof (induction ms)
  case (Cons m ms)
  then show ?case
    by (cases "middleware_registry f m"; cases "find (\<lambda>m. middleware_registry f m = None) ms") simp_all
qed simp

lemma call_args_written: "call_args (dict_of u) = members_of u ++ map_of (u_query u)"
proof -
  have "members_of u |` set field_names = members_of u"
    by (rule ext) (simp add: restrict_map_def members_of_def field_names_def)
  then show ?thesis by (simp add: call_args_def dict_of_def)
qed

section \<open>The loopback pair as two queues\<close>

fun send_each :: "('d \<Rightarrow> ('s, unit) action) \<Rightarrow> 'd list \<Rightarrow> ('s, unit) action" where
  "send_each w [] = ret ()"
| "send_each w (d # ds) = and_then (w d) (\<lambda>_. send_each w ds)"

fun receive_some_items :: "('s, 'd) action \<Rightarrow> nat \<Rightarrow> ('s, 'd list) action" where
  "receive_some_items rd 0 = ret []"
| "receive_some_items rd (Suc n) = and_then rd (\<lambda>d. and_then (receive_some_items rd n) (\<lambda>ds. ret (d # ds)))"

text \<open>What Trio documents of a memory channel that is open at both ends.\<close>

locale fifo_channel =
  fixes mem :: "('q, 'd) memory_channel"
    and contents :: "'q \<Rightarrow> 'd list"
  assumes send_appends: "mem_send mem d q = (Returns (), q') \<Longrightarrow> contents q' = contents q @ [d]"
    and receive_pops: "contents q = d # ds \<Longrightarrow> \<exists>q'. mem_receive mem q = (Returns d, q') \<and> contents q' = ds"
begin

lemma send_each_first:
  "send_each (channel_conn_write (fst (loopback_pair mem))) ds c = (Returns (), c') \<Longrightarrow>
    contents (fst (net c')) = contents (fst (net c)) @ ds \<and> snd (net c') = snd (net c)"
proof (induction ds arbitrary: c)
  case Nil
  then show ?case by (simp add: action_simps)
next
  case (Cons d ds)
  obtain q1 q2 where q: "net c = (q1, q2)" by (cases "net c")
  obtain r q1' where s: "mem_send mem d q1 = (r, q1')" by (cases "mem_send mem d q1")
  have w: "channel_conn_write (fst (loopback_pair mem)) d c = (r, c\<lparr>net := (q1', q2)\<rparr>)"
    by (simp add: channel_conn_write_def on_net_def loopback_pair_def on_first_def q s)
  then have "r = Returns ()" using Cons.prems by (cases r) (simp_all add: action_simps)
  moreover from this have "contents q1' = contents q1 @ [d]" using send_appends s by blast
  moreover have "send_each (channel_conn_write (fst (loopback_pair mem))) ds (c\<lparr>net := (q1', q2)\<rparr>) = (Returns (), c')"
    using Cons.prems w \<open>r = Returns ()\<close> by (simp add: action_simps)
  ultimately show ?case using Cons.IH[of "c\<lparr>net := (q1', q2)\<rparr>"] q by simp
qed

lemma receive_all_second:
  "contents (fst (net c)) = ds @ es \<Longrightarrow>
    \<exists>c'. receive_some_items (channel_conn_read (snd (loopback_pair mem))) (length ds) c = (Returns ds, c') \<and>
      contents (fst (net c')) = es \<and> snd (net c') = snd (net c)"
proof (induction ds arbitrary: c)
  case Nil
  then show ?case by (auto simp: action_simps)
next
  case (Cons d ds)
  obtain q1 q2 where q: "net c = (q1, q2)" by (cases "net c")
  then have "contents q1 = d # (ds @ es)" using Cons.prems by simp
  from receive_pops[OF this] obtain q1' where r: "mem_receive mem q1 = (Returns d, q1')" "contents q1' = ds @ es"
    by blast
  have w: "channel_conn_read (snd (loopback_pair mem)) c = (Returns d, c\<lparr>net := (q1', q2)\<rparr>)"
    by (simp add: channel_conn_read_def on_net_def loopback_pair_def on_first_def q r)
  obtain c' where "receive_some_items (channel_conn_read (snd (loopback_pair mem))) (length ds) (c\<lparr>net := (q1', q2)\<rparr>)
      = (Returns ds, c')" "contents (fst (net c')) = es" "snd (net c') = q2"
    using Cons.IH[of "c\<lparr>net := (q1', q2)\<rparr>"] r by auto
  then show ?case using w q by (auto simp: action_simps)
qed

end

text \<open>A bounded queue: \<^verbatim>\<open>send\<close> waits for room, \<^verbatim>\<open>receive\<close> for an item.\<close>

definition bounded_queue :: "nat \<Rightarrow> ('d list, 'd) memory_channel" where
  "bounded_queue n =
     \<lparr>mem_send = (\<lambda>d q. if length q < n then (Returns (), q @ [d]) else (Blocks, q)),
      mem_receive = (\<lambda>q. case q of [] \<Rightarrow> (Blocks, []) | d # ds \<Rightarrow> (Returns d, ds)),
      mem_close_tx = ret (), mem_close_rx = ret ()\<rparr>"

interpretation queue: fifo_channel "bounded_queue n" "\<lambda>q. q"
  by unfold_locales (auto simp: bounded_queue_def split: if_splits)

section \<open>Properties\<close>

text \<open>
  C4. Round trip of URLs. A connection described by a type, middleware, user name and password,
  host, port, path and parameters, all of characters that need no escape, is read back from its
  URL member by member: integers come back as integers, every other value as the string it was.
\<close>

theorem url_round_trip:
  assumes "writable u"
  shows "url_specification_to_dict bracketed_ok decode (write_url u) = Inr (dict_of u)"
  using assms by (rule dict_of_written)

text \<open>
  What the factory does with such a URL. An unknown type is reported before any unknown
  middleware, and of these the first, before anything is constructed; otherwise the registered
  class is called with the members of the URL, overridden by parameters of the same name, and
  the middleware is applied from left to right, the last one outermost.
\<close>

theorem create_from_url:
  assumes "writable u"
  shows "create bracketed_ok decode f (Url (write_url u)) =
    (case registry f (u_type u) of
       None \<Rightarrow> Inl (UnknownConnectionTypeError (u_type u))
     | Some func \<Rightarrow>
         (case find (\<lambda>m. middleware_registry f m = None) (u_middleware u) of
            Some m \<Rightarrow> Inl (UnknownMiddlewareTypeError m)
          | None \<Rightarrow>
              (case func (members_of u ++ map_of (u_query u)) of
                 Inl e \<Rightarrow> Inl e
               | Inr x \<Rightarrow> wrap_all (map (\<lambda>m. the (middleware_registry f m)) (u_middleware u)) x)))"
  using call_args_written[of u]
  by (simp add: create_def dict_of_written[OF assms] create_from_dict_def find_middleware_result
      split: option.split) (simp add: dict_of_def split: option.split sum.split)

text \<open>
  Overriding a class for a while. However the body of \<^verbatim>\<open>use()\<close> ends, by an exception too, the
  name has its old meaning again afterwards (none if it had none), and all else in the factory
  is as the body left it. The body must not unregister the name: if it does, \<^verbatim>\<open>KeyError\<close> is raised
  in place of its outcome and the old class is lost.
\<close>

theorem use_restores:
  assumes "body (f\<lparr>registry := (registry f)(name \<mapsto> klass)\<rparr>) = (r, g)" and "r \<noteq> Blocks"
  shows "use_class klass name body f =
    (if registry g name = None then (Raises (KeyError name), g)
     else (r, g\<lparr>registry := (registry g)(name := registry f name)\<rparr>))"
  using assms
  by (cases r; cases "registry f name")
    (auto simp: use_class_def register_def unregister_def action_simps fun_upd_idem)

text \<open>
  The loopback pair. Over memory channels that are queues, what is written to one connection
  is read from the other, all of it and in order, and nothing of what goes the other way is
  touched.
\<close>

theorem loopback_in_order:
  assumes "fifo_channel mem contents" and "contents (fst (net c1)) = []"
    and "send_each (channel_conn_write (fst (loopback_pair mem))) ds c1 = (Returns (), c1')"
    and "net c2 = net c1'"
  shows "\<exists>c2'. receive_some_items (channel_conn_read (snd (loopback_pair mem))) (length ds) c2 = (Returns ds, c2') \<and>
    contents (fst (net c2')) = [] \<and> snd (net c2') = snd (net c1)"
proof -
  have s: "contents (fst (net c1')) = ds" "snd (net c1') = snd (net c1)"
    using fifo_channel.send_each_first[OF assms(1,3)] assms(2) by simp_all
  show ?thesis
    using fifo_channel.receive_all_second[OF assms(1), of c2 ds "[]"] s assms(4) by simp
qed

section \<open>Witnesses\<close>

text \<open>\<^verbatim>\<open>tcp+log://bob:pw@localhost:8080/x?baud=115200&mode=raw\<close>.\<close>

definition sample :: url_spec where
  "sample = \<lparr>u_type = ''tcp'', u_middleware = [''log''], u_auth = Some (''bob'', Some ''pw''),
     u_host = ''localhost'', u_port = Some 8080, u_path = ''/x'',
     u_query = [(''baud'', VInt 115200), (''mode'', VStr ''raw'')]\<rparr>"

lemma sample_writable: "writable sample"
proof -
  have "(8080::int) < 10 ^ 4" "(115200::int) < 10 ^ 6" by simp_all
  moreover have "(10::int) ^ 4 \<le> 10 ^ max_str_digits" "(10::int) ^ 6 \<le> 10 ^ max_str_digits"
    by (rule power_increasing; simp add: max_str_digits_def)+
  ultimately have "(8080::int) < 10 ^ max_str_digits" "(115200::int) < 10 ^ max_str_digits" by linarith+
  moreover have "py_int ''raw'' = None" by code_simp
  ultimately show ?thesis
    by (simp add: writable_def sample_def plain_auth_def plain_def type_char_def plain_char_def is_lower_def
        is_alpha_def is_digit_def is_upper_def)
qed

lemma sample_text: "write_url sample = ''tcp+log://bob:pw@localhost:8080/x?baud=115200&mode=raw''"
  by (simp add: sample_def write_url_def write_type_def write_netloc_def write_auth_def write_host_def
      write_query_def dec_of_int_def dec_of.simps char_of_def bit_0)

theorem url_round_trip_witness:
  "url_specification_to_dict (\<lambda>_. True) (\<lambda>_. []) ''tcp+log://bob:pw@localhost:8080/x?baud=115200&mode=raw''
     = Inr (dict_of sample)"
  using url_round_trip[OF sample_writable] by (simp only: sample_text)

definition sample_factory :: "string list factory" where
  "sample_factory = \<lparr>registry = [''tcp'' \<mapsto> (\<lambda>args. case args ''host'' of Some (VStr h) \<Rightarrow> Inr [h] | _ \<Rightarrow> Inl IndexError)],
     middleware_registry = [''log'' \<mapsto> (\<lambda>x. Inr (''log'' # x))]\<rparr>"

theorem create_from_url_witness:
  "create (\<lambda>_. True) (\<lambda>_. []) sample_factory (Url (write_url sample)) = Inr [''log'', ''localhost'']"
  by (subst create_from_url[OF sample_writable])
    (simp add: sample_factory_def sample_def members_of_def)

theorem use_restores_witness:
  "use_class (\<lambda>_. Inr [''x'']) ''tcp'' (throw IndexError :: (string list factory, unit) action) sample_factory
     = (Raises IndexError, sample_factory)"
proof -
  have "(throw IndexError :: (string list factory, unit) action)
      (sample_factory\<lparr>registry := (registry sample_factory)(''tcp'' \<mapsto> (\<lambda>_. Inr [''x'']))\<rparr>) =
    (Raises IndexError, sample_factory\<lparr>registry := (registry sample_factory)(''tcp'' \<mapsto> (\<lambda>_. Inr [''x'']))\<rparr>)"
    by (simp add: action_simps)
  from use_restores[where body = "throw IndexError", OF this] show ?thesis by (simp add: sample_factory_def)
qed

definition empty_end :: "(nat list \<times> nat list) channel_connection" where
  "empty_end = connection.extend init_connection \<lparr>net = ([], [7])\<rparr>"

theorem loopback_in_order_witness:
  "\<exists>c'. receive_some_items (channel_conn_read (snd (loopback_pair (bounded_queue 3)))) 2
     (empty_end\<lparr>net := ([1, 2], [7])\<rparr>) = (Returns [1, 2], c') \<and> snd (net c') = [7]"
proof -
  have "net empty_end = ([], [7])" by (simp add: empty_end_def connection.extend_def)
  moreover have "send_each (channel_conn_write (fst (loopback_pair (bounded_queue 3)))) [1, 2] empty_end =
      (Returns (), empty_end\<lparr>net := ([1, 2], [7])\<rparr>)"
    by (simp add: channel_conn_write_def on_net_def loopback_pair_def on_first_def bounded_queue_def
        action_simps \<open>net empty_end = ([], [7])\<close>)
  ultimately show ?thesis
    using loopback_in_order[OF queue.fifo_channel_axioms, of empty_end 3 "[1, 2]"
        "empty_end\<lparr>net := ([1, 2], [7])\<rparr>" "empty_end\<lparr>net := ([1, 2], [7])\<rparr>"]
    by (auto simp: numeral_2_eq_2)
qed

end
