(* ===== verification/File_Connection.thy ===== *)
theory File_Connection
  imports Connection_Base Urls
begin

text \<open>
  \<^verbatim>\<open>FDConnectionBase\<close> of \<^verbatim>\<open>connections/base.py\<close> and the connections of \<^verbatim>\<open>connections/file.py\<close>: a
  connection attached to a file object and its numeric handle.

  File objects are of a type \<open>'o\<close> of the operating system and of Trio; what the code calls on
  them is the record \<open>file_ops\<close>, actions on a world \<open>'w\<close> that the connection carries.
\<close>

record ('w, 'o) file_ops =
  fileno_of :: "'o \<Rightarrow> ('w, int) action"
  fdopen :: "int \<Rightarrow> ('w, 'o) action"
  has_aclose :: "'o \<Rightarrow> bool"
  wrap_file :: "'o \<Rightarrow> 'o"
  file_read :: "'o \<Rightarrow> int \<Rightarrow> ('w, bytes) action"
  file_write :: "'o \<Rightarrow> bytes \<Rightarrow> ('w, unit) action"
  file_flush :: "'o \<Rightarrow> ('w, unit) action"

section \<open>State\<close>

text \<open>\<open>handle_changes\<close> lists the \<^verbatim>\<open>file_handle_changed\<close> signals sent: the old handle and the new one.\<close>

record ('w, 'o) fd_connection = connection +
  file_handle :: "int option"
  file_handle_owned :: bool
  file_object :: "'o option"
  autoflush :: bool
  handle_changes :: "(int option \<times> int option) list"
  os_world :: 'w

definition init_fd_connection :: "bool \<Rightarrow> 'w \<Rightarrow> ('w, 'o) fd_connection" where
  "init_fd_connection flush w =
     connection.extend init_connection
       \<lparr>file_handle = None, file_handle_owned = False, file_object = None, autoflush = flush,
        handle_changes = [], os_world = w\<rparr>"

definition on_os :: "('w, 'a) action \<Rightarrow> (('w, 'o, 'z) fd_connection_scheme, 'a) action" where
  "on_os m c = (case m (os_world c) of (r, w) \<Rightarrow> (r, c\<lparr>os_world := w\<rparr>))"

section \<open>Attaching\<close>

text \<open>What \<^verbatim>\<open>_attach\<close> is called with: \<^verbatim>\<open>None\<close>, a descriptor, or a file object.\<close>

datatype 'o handle = NoHandle | Descriptor int | FileObject 'o

definition set_file_handle :: "int option \<Rightarrow> ('w, 'o, 'z) fd_connection_scheme \<Rightarrow> ('w, 'o, 'z) fd_connection_scheme" where
  "set_file_handle h c = (if file_handle c = h then c else c\<lparr>file_handle := h\<rparr>)"

definition set_file_object :: "'o option \<Rightarrow> ('w, 'o, 'z) fd_connection_scheme \<Rightarrow> ('w, 'o, 'z) fd_connection_scheme" where
  "set_file_object x c = (if file_object c = x then c else c\<lparr>file_object := x\<rparr>)"

definition announce_handle :: "int option \<Rightarrow> ('w, 'o, 'z) fd_connection_scheme \<Rightarrow> ('w, 'o, 'z) fd_connection_scheme" where
  "announce_handle old c =
     (if old \<noteq> file_handle c then c\<lparr>handle_changes := handle_changes c @ [(old, file_handle c)]\<rparr> else c)"

text \<open>The second half of \<^verbatim>\<open>_attach\<close>, once the handle, the object and its owner are known.\<close>

definition set_attached ::
  "('w, 'o) file_ops \<Rightarrow> int option \<Rightarrow> 'o option \<Rightarrow> bool \<Rightarrow> ('w, 'o, 'z) fd_connection_scheme \<Rightarrow>
   ('w, 'o, 'z) fd_connection_scheme" where
  "set_attached ops h x owned c =
     (let x' = map_option (\<lambda>f. if has_aclose ops f then f else wrap_file ops f) x in
      announce_handle (file_handle c)
        ((set_file_object x' (set_file_handle h c))\<lparr>file_handle_owned := owned\<rparr>))"

definition attach :: "('w, 'o) file_ops \<Rightarrow> 'o handle \<Rightarrow> (('w, 'o, 'z) fd_connection_scheme, unit) action" where
  "attach ops handle_or_object =
     (case handle_or_object of
        NoHandle \<Rightarrow> modify (set_attached ops None None False)
      | Descriptor n \<Rightarrow>
          and_then (on_os (fdopen ops n)) (\<lambda>x. modify (set_attached ops (Some n) (Some x) False))
      | FileObject x \<Rightarrow>
          and_then (on_os (fileno_of ops x)) (\<lambda>n. modify (set_attached ops (Some n) (Some x) True)))"

definition detach :: "('w, 'o) file_ops \<Rightarrow> (('w, 'o, 'z) fd_connection_scheme, unit) action" where
  "detach ops = attach ops NoHandle"

section \<open>Operations\<close>

text \<open>The subclass's \<^verbatim>\<open>_get_file_object_during_open()\<close> is an argument.\<close>

definition fd_open ::
  "('w, 'o) file_ops \<Rightarrow> ('w, 'o handle) action \<Rightarrow> (('w, 'o, 'z) fd_connection_scheme, unit) action" where
  "fd_open ops get_file_object =
     and_then (on_os get_file_object)
       (\<lambda>h. if h \<noteq> NoHandle then attach ops h
             else throw (RuntimeError ''No file object was returned during open()''))"

definition fd_close :: "('w, 'o) file_ops \<Rightarrow> (('w, 'o, 'z) fd_connection_scheme, unit) action" where
  "fd_close ops c = (if file_object c = None then (Raises AssertionError, c) else detach ops c)"

definition fd_flush :: "('w, 'o) file_ops \<Rightarrow> (('w, 'o, 'z) fd_connection_scheme, unit) action" where
  "fd_flush ops c = (case file_object c of Some x \<Rightarrow> on_os (file_flush ops x) c | None \<Rightarrow> (Returns (), c))"

definition fd_read :: "('w, 'o) file_ops \<Rightarrow> int \<Rightarrow> (('w, 'o, 'z) fd_connection_scheme, bytes) action" where
  "fd_read ops sz c =
     (case file_object c of
        None \<Rightarrow> (Raises AssertionError, c)
      | Some x \<Rightarrow> on_os (file_read ops x sz) c)"

definition fd_write :: "('w, 'o) file_ops \<Rightarrow> bytes \<Rightarrow> (('w, 'o, 'z) fd_connection_scheme, unit) action" where
  "fd_write ops data c =
     (case file_object c of
        None \<Rightarrow> (Raises AssertionError, c)
      | Some x \<Rightarrow>
          and_then (on_os (file_write ops x data))
            (\<lambda>_ c'. if autoflush c' then fd_flush ops c' else (Returns (), c')) c)"

section \<open>Files and descriptors\<close>

text \<open>\<^verbatim>\<open>FileConnection\<close>: \<^verbatim>\<open>trio.open_file\<close> is an argument. \<^verbatim>\<open>FDConnection\<close>: the descriptor is \<^verbatim>\<open>int(path)\<close>.\<close>

definition file_get_object ::
  "(string \<Rightarrow> string \<Rightarrow> ('w, 'o) action) \<Rightarrow> string \<Rightarrow> string \<Rightarrow> ('w, 'o handle) action" where
  "file_get_object open_file path mode = and_then (open_file path mode) (\<lambda>x. ret (FileObject x))"

record 'o std_streams =
  std_in :: 'o
  std_out :: 'o
  std_err :: 'o

definition fd_of_path :: "string \<Rightarrow> exn + int" where
  "fd_of_path path =
     (case py_int path of
        None \<Rightarrow> Inl (ValueError ''invalid literal for int() with base 10'')
      | Some n \<Rightarrow> Inr n)"

definition fd_mode :: "int \<Rightarrow> string option \<Rightarrow> exn + string" where
  "fd_mode fd mode =
     (case mode of
        None \<Rightarrow>
          if fd = 0 then Inr ''r''
          else if fd = 1 \<or> fd = 2 then Inr ''w''
          else Inl (RuntimeError ''mode must be specified'')
      | Some m \<Rightarrow> Inr m)"

definition fd_get_object ::
  "'o std_streams \<Rightarrow> (int \<Rightarrow> string \<Rightarrow> ('w, 'o) action) \<Rightarrow> int \<Rightarrow> string option \<Rightarrow> ('w, 'o handle) action" where
  "fd_get_object std open_fd fd mode =
     (case fd_mode fd mode of
        Inl e \<Rightarrow> throw e
      | Inr m \<Rightarrow>
          if fd = 0 then ret (FileObject (std_in std))
          else if fd = 1 then ret (FileObject (std_out std))
          else if fd = 2 then ret (FileObject (std_err std))
          else and_then (open_fd fd m) (\<lambda>x. ret (FileObject x)))"

section \<open>Fields\<close>

lemma set_attached_simps [simp]:
  "file_handle (set_attached ops h x owned c) = h"
  "file_object (set_attached ops h x owned c) = map_option (\<lambda>f. if has_aclose ops f then f else wrap_file ops f) x"
  "file_handle_owned (set_attached ops h x owned c) = owned"
  "os_world (set_attached ops h x owned c) = os_world c"
  "autoflush (set_attached ops h x owned c) = autoflush c"
  "handle_changes (set_attached ops h x owned c) =
     handle_changes c @ (if file_handle c \<noteq> h then [(file_handle c, h)] else [])"
  "conn_state (set_attached ops h x owned c) = conn_state c"
  "is_connected_flag (set_attached ops h x owned c) = is_connected_flag c"
  "is_disconnected_flag (set_attached ops h x owned c) = is_disconnected_flag c"
  "sent (set_attached ops h x owned c) = sent c"
  by (auto simp: set_attached_def announce_handle_def set_file_object_def set_file_handle_def Let_def)

lemma fd_more:
  "connection.more c = connection.more d \<Longrightarrow>
    file_handle c = file_handle d \<and> file_object c = file_object d \<and> handle_changes c = handle_changes d \<and>
    os_world c = os_world d \<and> autoflush c = autoflush d \<and> file_handle_owned c = file_handle_owned d"
  by (cases c; cases d) simp

lemma fd_set_state [simp]:
  "file_handle (set_state s c) = file_handle c" "file_object (set_state s c) = file_object c"
  "handle_changes (set_state s c) = handle_changes c" "os_world (set_state s c) = os_world c"
  "autoflush (set_state s c) = autoflush c" "file_handle_owned (set_state s c) = file_handle_owned c"
  using fd_more[of "set_state s c" c] by simp_all

lemma leaves_on_os [simp]: "leaves_lifecycle (on_os m)"
  by (auto simp: leaves_lifecycle_def on_os_def flags_ok_def split: prod.split)

lemma leaves_attach [simp]: "leaves_lifecycle (modify (set_attached ops h x owned))"
  by (auto simp: leaves_lifecycle_def flags_ok_def action_simps)

section \<open>Invariant\<close>

text \<open>
  The handle, the object and the signals agree: there is a handle exactly when there is an
  object, and the signals form a chain from \<^verbatim>\<open>None\<close> to the present handle without repetition.
\<close>

fun handle_chain :: "int option \<Rightarrow> (int option \<times> int option) list \<Rightarrow> int option \<Rightarrow> bool" where
  "handle_chain a [] b \<longleftrightarrow> a = b"
| "handle_chain a ((x, y) # l) b \<longleftrightarrow> x = a \<and> y \<noteq> x \<and> handle_chain y l b"

definition fd_ok :: "('w, 'o, 'z) fd_connection_scheme \<Rightarrow> bool" where
  "fd_ok c \<longleftrightarrow> (file_handle c = None) = (file_object c = None) \<and> handle_chain None (handle_changes c) (file_handle c)"

lemma handle_chain_snoc:
  "handle_chain a l b \<Longrightarrow> b \<noteq> d \<Longrightarrow> handle_chain a (l @ [(b, d)]) d"
  by (induction l arbitrary: a) auto

lemma fd_ok_attached: "fd_ok c \<Longrightarrow> (h = None) = (x = None) \<Longrightarrow> fd_ok (set_attached ops h x owned c)"
  by (auto simp: fd_ok_def handle_chain_snoc)

lemma fd_ok_os [simp]: "fd_ok (c\<lparr>os_world := w\<rparr>) = fd_ok c"
  by (simp add: fd_ok_def)

lemma fd_ok_set_state [simp]: "fd_ok (set_state s c) = fd_ok c"
  by (simp add: fd_ok_def)

lemma preserves_on_os [intro]: "preserves fd_ok (on_os m)"
  by (auto simp: preserves_def on_os_def split: prod.split)

lemma preserves_attach [intro]: "preserves fd_ok (attach ops h)"
proof -
  have "preserves fd_ok (modify (set_attached ops h x owned))" if "(h = None) = (x = None)" for h x owned
    using that by (auto simp: preserves_def action_simps fd_ok_attached)
  then show ?thesis
    unfolding attach_def by (cases h) (auto intro!: preserves_and_then)
qed

lemma preserves_fd_hooks:
  "preserves fd_ok (fd_open ops get)" "preserves fd_ok (fd_close ops)"
proof -
  show "preserves fd_ok (fd_open ops get)"
    unfolding fd_open_def by (intro preserves_and_then) (auto intro: preserves_raise)
  have "preserves fd_ok (detach ops)" unfolding detach_def by auto
  then show "preserves fd_ok (fd_close ops)"
    by (auto simp: preserves_def fd_close_def)
qed

text \<open>Any calls, one after the other, whatever their outcomes.\<close>

datatype fd_call = OpenCall | CloseCall | ReadCall int | WriteCall bytes | FlushCall

definition fd_do :: "('w, 'o) file_ops \<Rightarrow> ('w, 'o handle) action \<Rightarrow> fd_call \<Rightarrow> ('w, 'o, 'z) fd_connection_scheme \<Rightarrow>
    ('w, 'o, 'z) fd_connection_scheme" where
  "fd_do ops get call c =
     (case call of
        OpenCall \<Rightarrow> snd (conn_open (fd_open ops get) c)
      | CloseCall \<Rightarrow> snd (conn_close (fd_close ops) c)
      | ReadCall n \<Rightarrow> snd (fd_read ops n c)
      | WriteCall d \<Rightarrow> snd (fd_write ops d c)
      | FlushCall \<Rightarrow> snd (fd_flush ops c))"

lemma preserves_io:
  "preserves fd_ok (fd_read ops n)" "preserves fd_ok (fd_flush ops)" "preserves fd_ok (fd_write ops d)"
  by (auto simp: preserves_def fd_read_def fd_write_def fd_flush_def on_os_def action_simps
      split: option.splits prod.splits outcome.splits if_splits)

lemma fd_do_ok:
  assumes "fd_ok c"
  shows "fd_ok (fd_do ops get call c)"
proof -
  have "preserves fd_ok (conn_open (fd_open ops get))" "preserves fd_ok (conn_close (fd_close ops))"
    by (rule preserves_open_close; simp add: preserves_fd_hooks)+
  note oc = preservesD[OF this(1) assms] preservesD[OF this(2) assms]
  show ?thesis
    using assms oc by (cases call) (simp_all add: fd_do_def preservesD preserves_io)
qed

section \<open>Properties\<close>

text \<open>
  Whatever calls are made on a file connection, in any order and with any outcome, it has a
  numeric handle exactly when it has a file object, and the \<^verbatim>\<open>file_handle_changed\<close> signals form a
  gapless history from \<^verbatim>\<open>None\<close> to the present handle in which every signal is a real change.
\<close>

theorem handles_consistent:
  "\<exists>c. c = fold (fd_do ops get) calls (init_fd_connection flush w) \<and>
    (file_handle c = None) = (file_object c = None) \<and>
    handle_chain None (handle_changes c) (file_handle c)"
proof -
  have "fd_ok c \<Longrightarrow> fd_ok (fold (fd_do ops get) calls c)" for c :: "('a, 'b) fd_connection"
    by (induction calls arbitrary: c) (simp_all add: fd_do_ok)
  moreover have "fd_ok (init_fd_connection flush w :: ('a, 'b) fd_connection)"
    by (simp add: fd_ok_def init_fd_connection_def connection.extend_def)
  ultimately show ?thesis by (simp add: fd_ok_def)
qed

text \<open>
  Closing a file connection does not close the file: \<^verbatim>\<open>close()\<close> succeeds and forgets the
  object and the handle, but nothing reaches the operating system, even where the connection
  has recorded that it owns the handle.
\<close>

theorem close_keeps_file:
  assumes "conn_state c = CONNECTED" and "file_object c = Some x" and "file_handle_owned c = owned"
  shows "\<exists>c'. conn_close (fd_close ops) c = (Returns (), c') \<and> conn_state c' = DISCONNECTED \<and>
    file_object c' = None \<and> file_handle c' = None \<and> os_world c' = os_world c"
  using assms
  by (simp add: conn_close_def close_body_def fd_close_def detach_def attach_def action_simps)

section \<open>Witnesses\<close>

definition owned_file :: "(nat, nat) fd_connection" where
  "owned_file = set_state CONNECTED ((init_fd_connection False 7)\<lparr>file_object := Some 3, file_handle := Some 5,
     file_handle_owned := True\<rparr>)"

definition nat_file_ops :: "(nat, nat) file_ops" where
  "nat_file_ops = \<lparr>fileno_of = (\<lambda>x. ret (int x)), fdopen = (\<lambda>n. ret (nat n)), has_aclose = (\<lambda>_. True), wrap_file = (\<lambda>x. x),
     file_read = (\<lambda>_ _. ret []), file_write = (\<lambda>_ _. ret ()), file_flush = (\<lambda>_. ret ())\<rparr>"

theorem close_keeps_file_witness:
  "\<exists>c'. conn_close (fd_close nat_file_ops) owned_file = (Returns (), c') \<and> file_object c' = None \<and> os_world c' = 7"
proof -
  have o: "conn_state owned_file = CONNECTED" "file_object owned_file = Some 3" "file_handle_owned owned_file = True"
      "os_world owned_file = 7"
    by (simp_all add: owned_file_def init_fd_connection_def connection.extend_def)
  show ?thesis using close_keeps_file[OF o(1-3), of nat_file_ops] o(4) by auto
qed

end
