(* ===== verification/Serial.thy ===== *)
theory Serial
  imports Complex_Main Urls Stream_Connection
begin

text \<open>
  \<^verbatim>\<open>connections/serial.py\<close>: the two stream classes around a \<^verbatim>\<open>pySerial\<close> device, and
  \<^verbatim>\<open>SerialPortConnection\<close> with its search for a USB device. The device, Trio's \<^verbatim>\<open>FdStream\<close>, the
  list of ports and the \<^verbatim>\<open>Serial\<close> constructor belong to other packages and are arguments.
  Text is ASCII.
\<close>

section \<open>Conflict detection\<close>

text \<open>
  \<^verbatim>\<open>with detector: body\<close>, for a detector whose flag is read and written by \<open>get\<close> and \<open>put\<close>. The
  body may not end (\<open>None\<close>); while it is suspended the flag stays set.
\<close>

definition with_detector ::
  "('s \<Rightarrow> bool) \<Rightarrow> (bool \<Rightarrow> 's \<Rightarrow> 's) \<Rightarrow> string \<Rightarrow> ('s \<Rightarrow> ('a outcome \<times> 's) option) \<Rightarrow> 's \<Rightarrow> ('a outcome \<times> 's) option" where
  "with_detector get put msg body s =
     (if get s then Some (Raises (BusyResourceError msg), s)
      else case body (put True s) of
             None \<Rightarrow> None
           | Some (Blocks, s') \<Rightarrow> Some (Blocks, s')
           | Some (r, s') \<Rightarrow> Some (r, put False s'))"

section \<open>The threaded stream\<close>

record 'd device_ops =
  in_waiting :: "('d, nat) action"
  dev_read :: "nat \<Rightarrow> ('d, bytes) action"
  dev_write :: "bytes \<Rightarrow> ('d, int) action"
  dev_close :: "('d, unit) action"

record 'd serial_stream =
  device :: 'd
  send_held :: bool
  receive_held :: bool
  closing :: bool

definition init_serial_stream :: "'d \<Rightarrow> 'd serial_stream" where
  "init_serial_stream d = \<lparr>device = d, send_held = False, receive_held = False, closing = False\<rparr>"

definition on_device :: "('d, 'a) action \<Rightarrow> ('d serial_stream, 'a) action" where
  "on_device m s = (case m (device s) of (r, d) \<Rightarrow> (r, s\<lparr>device := d\<rparr>))"

definition default_receive_size :: nat where "default_receive_size = 65536"

definition serial_aclose :: "'d device_ops \<Rightarrow> ('d serial_stream, unit) action" where
  "serial_aclose ops = and_then (modify (\<lambda>s. s\<lparr>closing := True\<rparr>)) (\<lambda>_. on_device (dev_close ops))"

text \<open>The loop of \<^verbatim>\<open>receive_some\<close>; \<open>nap\<close> is the pause, in which other tasks may act on the stream.\<close>

partial_function (option) receive_loop ::
  "'d device_ops \<Rightarrow> ('d serial_stream, unit) action \<Rightarrow> nat \<Rightarrow> 'd serial_stream \<Rightarrow> (bytes option outcome \<times> 'd serial_stream) option" where
  "receive_loop ops nap max_bytes s =
     (if closing s then Some (Returns None, s)
      else case on_device (in_waiting ops) s of (r, s') \<Rightarrow>
        (case r of
           Raises e \<Rightarrow> Some (Raises e, s')
         | Blocks \<Rightarrow> Some (Blocks, s')
         | Returns to_read \<Rightarrow>
             if to_read \<noteq> 0
             then (case on_device (dev_read ops (min to_read max_bytes)) s' of (q, s'') \<Rightarrow>
                     (case q of
                        Returns data \<Rightarrow> Some (Returns (Some data), s'')
                      | Raises e \<Rightarrow> Some (Raises e, s'')
                      | Blocks \<Rightarrow> Some (Blocks, s'')))
             else (case nap s' of (q, s'') \<Rightarrow>
                     (case q of
                        Returns _ \<Rightarrow> receive_loop ops nap max_bytes s''
                      | Raises e \<Rightarrow> Some (Raises e, s'')
                      | Blocks \<Rightarrow> Some (Blocks, s'')))))"

definition serial_receive ::
  "'d device_ops \<Rightarrow> ('d serial_stream, unit) action \<Rightarrow> nat option \<Rightarrow> 'd serial_stream \<Rightarrow>
   (bytes outcome \<times> 'd serial_stream) option" where
  "serial_receive ops nap max_bytes s =
     (case with_detector receive_held (\<lambda>b s. s\<lparr>receive_held := b\<rparr>) ''another task is using this stream for receive''
             (receive_loop ops nap (case max_bytes of Some n \<Rightarrow> n | None \<Rightarrow> default_receive_size)) s of
        None \<Rightarrow> None
      | Some (Returns (Some data), s') \<Rightarrow> Some (Returns data, s')
      | Some (Returns None, s') \<Rightarrow> Some (Raises ClosedResourceError, s')
      | Some (Raises e, s') \<Rightarrow> Some (Raises e, s')
      | Some (Blocks, s') \<Rightarrow> Some (Blocks, s'))"

partial_function (option) send_loop ::
  "'d device_ops \<Rightarrow> bytes \<Rightarrow> 'd serial_stream \<Rightarrow> (unit outcome \<times> 'd serial_stream) option" where
  "send_loop ops data s =
     (if data = [] then Some (Returns (), s)
      else case on_device (dev_write ops data) s of (r, s') \<Rightarrow>
        (case r of
           Raises e \<Rightarrow> Some (Raises e, s')
         | Blocks \<Rightarrow> Some (Blocks, s')
         | Returns num_written \<Rightarrow>
             if num_written < 0 then Some (Raises (RuntimeError ''serial.write() returned a negative number''), s')
             else send_loop ops (drop (nat num_written) data) s'))"

definition serial_send ::
  "'d device_ops \<Rightarrow> bytes \<Rightarrow> 'd serial_stream \<Rightarrow> (unit outcome \<times> 'd serial_stream) option" where
  "serial_send ops data s =
     (if data = [] then Some (Returns (), s)
      else with_detector send_held (\<lambda>b s. s\<lparr>send_held := b\<rparr>) ''another task is using this stream for send''
             (send_loop ops data) s)"

section \<open>The stream on a file descriptor\<close>

text \<open>
  \<^verbatim>\<open>_FdStreamBasedSerialPortStream\<close>: an empty read is tried once more after the port has become
  readable again; an exception of the second read closes the stream.
\<close>

record 'st fd_stream_ops = "'st stream_ops" +
  wait_readable :: "'st \<Rightarrow> unit outcome \<times> 'st"

definition fd_receive_some :: "'st fd_stream_ops \<Rightarrow> int option \<Rightarrow> 'st \<Rightarrow> bytes outcome \<times> 'st" where
  "fd_receive_some ops max_bytes =
     and_then (receive_some ops max_bytes)
       (\<lambda>result. if result \<noteq> [] then ret result
          else and_then (wait_readable ops)
            (\<lambda>_. try_except (receive_some ops max_bytes)
               (\<lambda>ex. and_then (try_except (aclose ops) (\<lambda>_. ret ())) (\<lambda>_. throw ex))))"

definition fd_stream_of :: "'st fd_stream_ops \<Rightarrow> 'st stream_ops" where
  "fd_stream_of ops = \<lparr>receive_some = fd_receive_some ops, send_all = send_all ops, aclose = aclose ops\<rparr>"

text \<open>
  Its construction over an open device: pySerial's \<^verbatim>\<open>fileno()\<close>, \<^verbatim>\<open>os.dup\<close> and Trio's \<^verbatim>\<open>FdStream\<close> are parameters, and
  whether Trio has the last one.
\<close>

definition init_fd_stream ::
  "bool \<Rightarrow> ('dv \<Rightarrow> ('w, int) action) \<Rightarrow> (int \<Rightarrow> ('w, int) action) \<Rightarrow> (int \<Rightarrow> ('w, 'st) action) \<Rightarrow> 'dv \<Rightarrow> ('w, 'st) action" where
  "init_fd_stream has_fd_stream fileno dup fd_stream dev =
     (if \<not> has_fd_stream then throw (RuntimeError ''SerialPortStream is not supported on Windows'')
      else and_then (fileno dev) (\<lambda>n. and_then (dup n) fd_stream))"

text \<open>\<^verbatim>\<open>create\<close>: a serial port without a timeout, and the stream around it; which of the two, the platform decides.\<close>

definition create_port_stream ::
  "(rat \<Rightarrow> 'a \<Rightarrow> ('w, 'dv) action) \<Rightarrow> ('dv \<Rightarrow> ('w, 'st) action) \<Rightarrow> 'a \<Rightarrow> ('w, 'st) action" where
  "create_port_stream open_serial init args = and_then (open_serial 0 args) init"

datatype port_stream_class = ThreadedSerialPortStream | FdStreamBasedSerialPortStream

definition serial_port_stream :: "string \<Rightarrow> port_stream_class" where
  "serial_port_stream platform =
     (if platform = ''Windows'' then ThreadedSerialPortStream else FdStreamBasedSerialPortStream)"

section \<open>Matching USB devices\<close>

text \<open>\<^verbatim>\<open>fnmatch\<close>: a pattern as a list of tokens; a class is a list of ranges, maybe negated.\<close>

datatype glob = Star | AnyChar | Literal char | Class bool "(char \<times> char) list"

fun class_ranges :: "string \<Rightarrow> (char \<times> char) list" where
  "class_ranges (c # d # e # r) =
     (if d = CHR ''-'' then (c, e) # class_ranges r else (c, c) # class_ranges (d # e # r))"
| "class_ranges s = map (\<lambda>c. (c, c)) s"

definition find_class :: "string \<Rightarrow> (glob \<times> string) option" where
  "find_class p =
     (let neg = (take 1 p = ''!'');
          p1 = (if neg then tl p else p);
          first = (if take 1 p1 = '']'' then '']'' else []);
          p2 = drop (length first) p1;
          body = takeWhile (\<lambda>c. c \<noteq> CHR '']'') p2
      in if length body < length p2
         then Some (Class neg (class_ranges (first @ body)), drop (Suc (length body)) p2) else None)"

lemma find_class_shorter: "find_class p = Some (g, r) \<Longrightarrow> length r < length p"
  by (auto simp: find_class_def Let_def split: if_splits)

function globs :: "string \<Rightarrow> glob list" where
  "globs [] = []"
| "globs (c # p) =
     (if c = CHR ''*'' then Star # globs p
      else if c = CHR ''?'' then AnyChar # globs p
      else if c = CHR ''['' then
        (case find_class p of None \<Rightarrow> Literal c # globs p | Some (g, r) \<Rightarrow> g # globs r)
      else Literal c # globs p)"
  by pat_completeness auto
termination
  by (relation "measure length") (auto dest: find_class_shorter)

fun one_char :: "glob \<Rightarrow> char \<Rightarrow> bool" where
  "one_char Star c = False"
| "one_char AnyChar c = True"
| "one_char (Literal d) c = (c = d)"
| "one_char (Class neg rs) c =
     ((\<not> neg) = list_ex (\<lambda>(a, b). (of_char a :: nat) \<le> of_char c \<and> (of_char c :: nat) \<le> of_char b) rs)"

fun glob_matches :: "glob list \<Rightarrow> string \<Rightarrow> bool" where
  "glob_matches [] s = (s = [])"
| "glob_matches (Star # gs) [] = glob_matches gs []"
| "glob_matches (Star # gs) (c # s) = (glob_matches gs (c # s) \<or> glob_matches (Star # gs) s)"
| "glob_matches (g # gs) [] = False"
| "glob_matches (g # gs) (c # s) = (one_char g c \<and> glob_matches gs s)"

definition fnmatch :: "string \<Rightarrow> string \<Rightarrow> bool" where
  "fnmatch name pat = glob_matches (globs pat) name"

text \<open>\<^verbatim>\<open>int(s, 16)\<close>.\<close>

definition hex_unsigned :: "string \<Rightarrow> nat option" where
  "hex_unsigned d =
     (let pre = (take 2 d = ''0x'' \<or> take 2 d = ''0X'');
          d1 = (if pre then drop 2 d else d);
          d2 = (if pre \<and> take 1 d1 = ''_'' then drop 1 d1 else d1);
          parts = split_on CHR ''_'' d2
      in if list_all (\<lambda>p. p \<noteq> [] \<and> list_all (\<lambda>c. hex_digit c \<noteq> None) p) parts
         then Some (foldl (\<lambda>n c. 16 * n + the (hex_digit c)) 0 (concat parts)) else None)"

definition int16 :: "string \<Rightarrow> int option" where
  "int16 s =
     (case strip s of
        [] \<Rightarrow> None
      | c # r \<Rightarrow>
          if c = CHR ''-'' then map_option (\<lambda>n. - int n) (hex_unsigned r)
          else if c = CHR ''+'' then map_option int (hex_unsigned r)
          else map_option int (hex_unsigned (c # r)))"

record port_info =
  port_device :: string
  port_vid :: "int option"
  port_pid :: "int option"
  port_manufacturer :: "string option"
  port_product :: "string option"
  port_serial_number :: "string option"

record usb_properties =
  usb_vid :: "string option"
  usb_pid :: "string option"
  usb_manufacturer :: "string option"
  usb_product :: "string option"
  usb_serial_number :: "string option"

definition lower :: "string \<Rightarrow> string" where
  "lower s = map lower_char s"

text \<open>The name a device reports against a pattern: no pattern fits all, no name fits no pattern.\<close>

definition name_matches :: "string option \<Rightarrow> string option \<Rightarrow> bool" where
  "name_matches name pattern =
     (case pattern of
        None \<Rightarrow> True
      | Some p \<Rightarrow> (case name of None \<Rightarrow> False | Some n \<Rightarrow> fnmatch (lower n) (lower p)))"

definition id_matches :: "int option \<Rightarrow> string option \<Rightarrow> bool" where
  "id_matches actual wanted =
     (case wanted of None \<Rightarrow> True | Some w \<Rightarrow> (case int16 w of None \<Rightarrow> False | Some n \<Rightarrow> actual = Some n))"

definition port_info_matches :: "port_info \<Rightarrow> usb_properties \<Rightarrow> bool" where
  "port_info_matches p u \<longleftrightarrow>
     id_matches (port_vid p) (usb_vid u) \<and> id_matches (port_pid p) (usb_pid u) \<and>
     (usb_serial_number u \<noteq> None \<longrightarrow> port_serial_number p = usb_serial_number u) \<and>
     name_matches (port_manufacturer p) (usb_manufacturer u) \<and>
     name_matches (port_product p) (usb_product u)"

definition find_matching_usb_device :: "port_info list \<Rightarrow> usb_properties \<Rightarrow> exn + string" where
  "find_matching_usb_device comports u =
     (case find (\<lambda>p. port_info_matches p u) comports of
        Some p \<Rightarrow> Inr (port_device p)
      | None \<Rightarrow> Inl (RuntimeError ''No USB serial port matching specification''))"

section \<open>Serial port connections\<close>

datatype serial_path = PathStr string | PathInt int

datatype stop_bits = StopInt int | StopFloat rat | StopStr string

datatype serial_stop_bits = STOPBITS_ONE | STOPBITS_ONE_POINT_FIVE | STOPBITS_TWO

record 'st serial_connection = "'st stream_connection" +
  sp_path :: serial_path
  baud :: int
  stopbits :: stop_bits
  usb :: usb_properties
  resolved_path :: "string option"

definition init_serial_connection :: "serial_path \<Rightarrow> int \<Rightarrow> stop_bits \<Rightarrow> usb_properties \<Rightarrow> 'st serial_connection" where
  "init_serial_connection path b st u =
     stream_connection.extend init_stream_connection
       \<lparr>sp_path = path, baud = b, stopbits = st, usb = u, resolved_path = None\<rparr>"

text \<open>\<^verbatim>\<open>if self._path\<close> and \<^verbatim>\<open>str(self._path)\<close>.\<close>

fun path_truthy :: "serial_path \<Rightarrow> bool" where
  "path_truthy (PathStr s) = (s \<noteq> [])"
| "path_truthy (PathInt n) = (n \<noteq> 0)"

fun path_str :: "serial_path \<Rightarrow> string" where
  "path_str (PathStr s) = s"
| "path_str (PathInt n) = dec_of_int n"

text \<open>The regular expression for a vendor and a product ID; its \<^verbatim>\<open>$\<close> allows a final newline.\<close>

definition hex4 :: "string \<Rightarrow> bool" where
  "hex4 s \<longleftrightarrow> length s = 4 \<and> list_all (\<lambda>c. hex_digit c \<noteq> None) s"

definition vid_pid :: "string \<Rightarrow> (string \<times> string) option" where
  "vid_pid s =
     (if 9 \<le> length s \<and> hex4 (take 4 s) \<and> s ! 4 = CHR '':'' \<and> hex4 (take 4 (drop 5 s)) \<and>
         drop 9 s \<in> {[], ''\<newline>''}
      then Some (take 4 s, take 4 (drop 5 s)) else None)"

definition resolve_path :: "port_info list \<Rightarrow> serial_path \<Rightarrow> usb_properties \<Rightarrow> exn + serial_path" where
  "resolve_path comports path u =
     (if path_truthy path then
        (case vid_pid (path_str path) of
           Some (v, p) \<Rightarrow>
             map_sum id PathStr (find_matching_usb_device comports (u\<lparr>usb_vid := Some v, usb_pid := Some p\<rparr>))
         | None \<Rightarrow> Inr path)
      else map_sum id PathStr (find_matching_usb_device comports u))"

definition serial_stop :: "stop_bits \<Rightarrow> exn + serial_stop_bits" where
  "serial_stop st =
     (if st = StopInt 1 \<or> st = StopFloat 1 then Inr STOPBITS_ONE
      else if st = StopFloat (3 / 2) then Inr STOPBITS_ONE_POINT_FIVE
      else if st = StopInt 2 \<or> st = StopFloat 2 then Inr STOPBITS_TWO
      else Inl (ValueError ''unsupported stop bit count''))"

fun shown_path :: "serial_path \<Rightarrow> string" where
  "shown_path (PathInt n) = ''<fd: #'' @ dec_of_int n @ ''>''"
| "shown_path (PathStr s) = s"

definition serial_create_stream ::
  "port_info list \<Rightarrow> (serial_path \<Rightarrow> int \<Rightarrow> serial_stop_bits \<Rightarrow> ('st serial_connection, 'st) action) \<Rightarrow>
   ('st serial_connection, 'st) action" where
  "serial_create_stream comports make_stream c =
     (case resolve_path comports (sp_path c) (usb c) of
        Inl e \<Rightarrow> (Raises e, c)
      | Inr path \<Rightarrow>
          (case serial_stop (stopbits c) of
             Inl e \<Rightarrow> (Raises e, c)
           | Inr sb \<Rightarrow> make_stream path (baud c) sb (c\<lparr>resolved_path := Some (shown_path path)\<rparr>)))"

definition serial_close_hook :: "'st stream_ops \<Rightarrow> ('st serial_connection, unit) action" where
  "serial_close_hook ops = try_finally (stream_close ops) (\<lambda>_. modify (\<lambda>c. c\<lparr>resolved_path := None\<rparr>))"

definition address :: "'st serial_connection \<Rightarrow> string option" where
  "address c = resolved_path c"

section \<open>Lemmas\<close>

lemma detector_idle:
  "\<not> get s \<Longrightarrow> body (put True s) = Some (r, s') \<Longrightarrow>
    with_detector get put msg body s = Some (r, if r = Blocks then s' else put False s')"
  by (cases r) (simp_all add: with_detector_def)

text \<open>A device that takes at least one byte of every write, and keeps them in order.\<close>

definition writes_in_order :: "'d device_ops \<Rightarrow> ('d \<Rightarrow> bytes) \<Rightarrow> bool" where
  "writes_in_order ops written \<longleftrightarrow>
     (\<forall>d data. data \<noteq> [] \<longrightarrow>
        (\<exists>n d'. dev_write ops data d = (Returns n, d') \<and> 1 \<le> n \<and> n \<le> int (length data) \<and>
           written d' = written d @ take (nat n) data))"

lemma send_loop_all:
  assumes "writes_in_order ops written"
  shows "\<exists>d'. send_loop ops data s = Some (Returns (), s\<lparr>device := d'\<rparr>) \<and> written d' = written (device s) @ data"
proof (induction data arbitrary: s rule: length_induct)
  case (1 data)
  show ?case
  proof (cases "data = []")
    case True
    then show ?thesis by (subst send_loop.simps) (auto intro: exI[of _ "device s"])
  next
    case False
    obtain n d1 where w: "dev_write ops data (device s) = (Returns n, d1)" "1 \<le> n" "n \<le> int (length data)"
        "written d1 = written (device s) @ take (nat n) data"
      using assms False unfolding writes_in_order_def by blast
    have "length (drop (nat n) data) < length data" using w(2) False by (cases data) auto
    then obtain d2 where d2: "send_loop ops (drop (nat n) data) (s\<lparr>device := d1\<rparr>) = Some (Returns (), s\<lparr>device := d2\<rparr>)"
        "written d2 = written d1 @ drop (nat n) data"
      using 1[rule_format, of "drop (nat n) data" "s\<lparr>device := d1\<rparr>"] by auto
    have "send_loop ops data s = send_loop ops (drop (nat n) data) (s\<lparr>device := d1\<rparr>)"
      using w False by (subst send_loop.simps) (simp add: on_device_def)
    then show ?thesis using d2 w(4) by auto
  qed
qed

text \<open>A device that accepts nothing keeps the loop going for ever.\<close>

lemma send_loop_spins:
  assumes "\<And>d data. dev_write ops data d = (Returns 0, d)" and "data \<noteq> []"
  shows "send_loop ops data s = None"
proof -
  have "data = []" if "send_loop ops data s = Some y" for y
  proof -
    have "ops' = ops \<longrightarrow> data = []" if "send_loop ops' data s = Some y" for ops' y
    proof (rule send_loop.raw_induct[OF _ that, where P = "\<lambda>ops' data s y. ops' = ops \<longrightarrow> data = []"], goal_cases)
      case (1 f ops' data s y)
      show ?case
      proof (intro impI, rule ccontr)
        assume o: "ops' = ops" and d: "data \<noteq> []"
        have "f ops' data s = Some y" using 1(2) o d assms(1) by (simp add: on_device_def)
        from 1(1)[OF this] o d show False by simp
      qed
    qed
    then show ?thesis using that by blast
  qed
  then show ?thesis using assms(2) by (cases "send_loop ops data s") auto
qed

lemma serial_more:
  "connection.more c = connection.more d \<Longrightarrow>
    sp_path c = sp_path d \<and> baud c = baud d \<and> stopbits c = stopbits d \<and> usb c = usb d \<and>
    resolved_path c = resolved_path d"
  by (cases c; cases d) simp

lemma serial_set_state [simp]:
  "sp_path (set_state s c) = sp_path c" "baud (set_state s c) = baud c" "stopbits (set_state s c) = stopbits c"
  "usb (set_state s c) = usb c" "resolved_path (set_state s c) = resolved_path c"
  using serial_more[of "set_state s c" c] by simp_all

section \<open>Properties\<close>

text \<open>
  C36. Sending over the threaded serial stream. If the device accepts at least one byte of every
  write, \<^verbatim>\<open>send_all\<close> returns, the device has got all the data, in order, and the stream is free for
  the next sender; a second sender gets \<^verbatim>\<open>BusyResourceError\<close> and sends nothing, except that no
  data at all may be sent at any time. If the device accepts nothing, it never returns.
\<close>

theorem serial_send_all:
  assumes "writes_in_order ops written"
  shows "(\<not> send_held s \<longrightarrow>
      (\<exists>s'. serial_send ops data s = Some (Returns (), s') \<and>
         written (device s') = written (device s) @ data \<and> \<not> send_held s')) \<and>
    (send_held s \<and> data \<noteq> [] \<longrightarrow>
      serial_send ops data s = Some (Raises (BusyResourceError ''another task is using this stream for send''), s)) \<and>
    (\<not> send_held s \<and> data \<noteq> [] \<and> (\<forall>d data. dev_write stuck data d = (Returns 0, d)) \<longrightarrow>
      serial_send stuck data s = None)"
proof -
  have "\<exists>s'. serial_send ops data s = Some (Returns (), s') \<and>
      written (device s') = written (device s) @ data \<and> \<not> send_held s'" if h: "\<not> send_held s"
  proof (cases "data = []")
    case True
    then show ?thesis using h by (auto simp: serial_send_def)
  next
    case False
    obtain d' where "send_loop ops data (s\<lparr>send_held := True\<rparr>) = Some (Returns (), s\<lparr>send_held := True, device := d'\<rparr>)"
        "written d' = written (device s) @ data"
      using send_loop_all[OF assms, of data "s\<lparr>send_held := True\<rparr>"] by auto
    then show ?thesis using h False by (simp add: serial_send_def with_detector_def)
  qed
  moreover have "serial_send ops data s = Some (Raises (BusyResourceError ''another task is using this stream for send''), s)"
    if "send_held s \<and> data \<noteq> []"
    using that by (simp add: serial_send_def with_detector_def)
  moreover have "serial_send stuck data s = None"
    if "\<not> send_held s \<and> data \<noteq> [] \<and> (\<forall>d data. dev_write stuck data d = (Returns 0, d))"
    using that send_loop_spins[of stuck data "s\<lparr>send_held := True\<rparr>"] by (simp add: serial_send_def with_detector_def)
  ultimately show ?thesis by blast
qed

text \<open>
  Reading from the stream on a file descriptor. An empty first read is not the end of the
  file: the result is that of a second read after the port became readable. If the second read
  fails, the stream is closed and its exception comes out, even where the closing fails too.
\<close>

theorem spurious_eof:
  assumes "receive_some ops n st = (Returns [], st1)" and "wait_readable ops st1 = (Returns (), st2)"
    and "receive_some ops n st2 = (r, st3)"
    and "aclose ops st3 = (q, st4)" and "q = Returns () \<or> (\<exists>e'. q = Raises e' \<and> is_Exception e')"
  shows "fd_receive_some ops n st =
    (r, case r of Raises e \<Rightarrow> if is_Exception e then st4 else st3 | _ \<Rightarrow> st3)"
  using assms by (cases r) (auto simp: fd_receive_some_def action_simps)

text \<open>
  The address of a serial connection. When the port is found but cannot be opened, \<^verbatim>\<open>open()\<close>
  raises and leaves the connection \<open>DISCONNECTED\<close> with the address of the port that failed,
  and not \<^verbatim>\<open>None\<close>; closing a connected one does reset it, however the stream's closing ends.
\<close>

theorem stale_address:
  assumes "conn_state c = DISCONNECTED"
    and "resolve_path comports (sp_path c) (usb c) = Inr path" and "serial_stop (stopbits c) = Inr sb"
    and "\<And>d. make_stream path (baud c) sb d = (Raises e, d)"
    and "conn_state c1 = CONNECTED" and "conn_close (serial_close_hook ops) c1 = (r, c2)" and "r \<noteq> Blocks"
  shows "(\<exists>c'. conn_open (stream_open (serial_create_stream comports make_stream)) c = (Raises e, c') \<and>
      conn_state c' = DISCONNECTED \<and> address c' = Some (shown_path path)) \<and> address c2 = None"
proof
  show "\<exists>c'. conn_open (stream_open (serial_create_stream comports make_stream)) c = (Raises e, c') \<and>
      conn_state c' = DISCONNECTED \<and> address c' = Some (shown_path path)"
    using assms(1-4)
    by (simp add: conn_open_def open_body_def stream_open_def serial_create_stream_def address_def action_simps)
  obtain q d where "stream_close ops (set_state DISCONNECTING c1) = (q, d)"
    by (cases "stream_close ops (set_state DISCONNECTING c1)")
  then show "address c2 = None"
    using assms(5-7)
    by (cases q) (auto simp: conn_close_def close_body_def serial_close_hook_def address_def action_simps)
qed

section \<open>Witnesses\<close>

text \<open>A device that takes one byte at a time, and one that takes none.\<close>

definition slow_device :: "bytes device_ops" where
  "slow_device = \<lparr>in_waiting = ret 0, dev_read = (\<lambda>_. ret []),
     dev_write = (\<lambda>data d. (Returns 1, d @ take 1 data)), dev_close = ret ()\<rparr>"

definition stuck_device :: "bytes device_ops" where
  "stuck_device = slow_device\<lparr>dev_write := (\<lambda>data d. (Returns 0, d))\<rparr>"

theorem serial_send_all_witness:
  "(\<exists>s'. serial_send slow_device [1, 2, 3] (init_serial_stream []) = Some (Returns (), s') \<and> device s' = [1, 2, 3]) \<and>
   serial_send stuck_device [1] (init_serial_stream []) = None"
proof -
  have w: "writes_in_order slow_device (\<lambda>d. d)"
    by (auto simp: writes_in_order_def slow_device_def Suc_le_eq)
  show ?thesis
    using serial_send_all[OF w, of "init_serial_stream []" "[1, 2, 3]" stuck_device]
      serial_send_all[OF w, of "init_serial_stream []" "[1]" stuck_device]
    by (auto simp: init_serial_stream_def stuck_device_def)
qed

definition flaky_port :: "nat fd_stream_ops" where
  "flaky_port = stream_ops.extend
     \<lparr>receive_some = (\<lambda>_ n. if n = 0 then (Returns [], 1) else (Raises (OSError 5), n)),
      send_all = (\<lambda>_ n. (Returns (), n)), aclose = (\<lambda>n. (Raises (OSError 9), 100))\<rparr>
     \<lparr>wait_readable = (\<lambda>n. (Returns (), n))\<rparr>"

theorem spurious_eof_witness:
  "fd_receive_some flaky_port None 0 = (Raises (OSError 5), 100)"
  using spurious_eof[of flaky_port None 0 1 1 "Raises (OSError 5)" 1 "Raises (OSError 9)" 100]
  by (simp add: flaky_port_def stream_ops.extend_def)

definition usb_port :: port_info where
  "usb_port = \<lparr>port_device = ''/dev/ttyUSB0'', port_vid = Some 0x0403, port_pid = Some 0x6001,
     port_manufacturer = Some ''FTDI'', port_product = None, port_serial_number = None\<rparr>"

definition any_usb :: usb_properties where
  "any_usb = \<lparr>usb_vid = None, usb_pid = None, usb_manufacturer = None, usb_product = None, usb_serial_number = None\<rparr>"

definition ftdi :: "unit serial_connection" where
  "ftdi = init_serial_connection (PathStr ''0403:6001'') 115200 (StopInt 1) any_usb"

lemma ftdi_resolves: "resolve_path [usb_port] (sp_path ftdi) (usb ftdi) = Inr (PathStr ''/dev/ttyUSB0'')"
proof -
  have "vid_pid ''0403:6001'' = Some (''0403'', ''6001'')"
    by (simp add: vid_pid_def hex4_def hex_digit_def)
  moreover have "int16 ''0403'' = Some 0x0403" "int16 ''6001'' = Some 0x6001"
    by (simp_all add: int16_def strip_def rstrip_id lstrip_id is_space_def hex_unsigned_def hex_digit_def)
  ultimately show ?thesis
    by (simp add: ftdi_def init_serial_connection_def stream_connection.extend_def resolve_path_def
        find_matching_usb_device_def port_info_matches_def id_matches_def name_matches_def usb_port_def any_usb_def)
qed

theorem stale_address_witness:
  "\<exists>c'. conn_open (stream_open (serial_create_stream [usb_port] (\<lambda>_ _ _. throw (OSError 16)))) ftdi
      = (Raises (OSError 16), c') \<and> conn_state c' = DISCONNECTED \<and> address c' = Some ''/dev/ttyUSB0''"
proof -
  have f: "conn_state ftdi = DISCONNECTED" "serial_stop (stopbits ftdi) = Inr STOPBITS_ONE" "baud ftdi = 115200"
    by (simp_all add: ftdi_def init_serial_connection_def stream_connection.extend_def
        init_stream_connection_def connection.extend_def serial_stop_def)
  let ?c1 = "set_state CONNECTED ftdi"
  let ?ops = "\<lparr>receive_some = (\<lambda>_. ret []), send_all = (\<lambda>_. ret ()), aclose = ret ()\<rparr> :: unit stream_ops"
  obtain r c2 where cl: "conn_close (serial_close_hook ?ops) ?c1 = (r, c2)"
    by (cases "conn_close (serial_close_hook ?ops) ?c1")
  have "r \<noteq> Blocks" using cl
    by (auto simp: conn_close_def close_body_def serial_close_hook_def stream_close_def on_stream_def action_simps
        split: option.splits if_splits)
  with cl show ?thesis
    using stale_address[OF f(1) ftdi_resolves f(2) _ _ cl, of "\<lambda>_ _ _. throw (OSError 16)" "OSError 16"]
    by (simp add: action_simps)
qed

end
