(* ===== verification/Errors.thy ===== *)
theory Errors
  imports Prelude
begin

text \<open>
  \<^verbatim>\<open>connections/errors.py\<close>: the exception classes of the package with their bases and messages, among
  the classes of Python and Trio that the code raises or names in \<^verbatim>\<open>except\<close> clauses, and what an \<^verbatim>\<open>except\<close>
  clause catches. The exceptions themselves are the constructors of \<open>exn\<close> (\<open>Prelude\<close>).
\<close>

section \<open>Python's notation of strings\<close>

text \<open>\<^verbatim>\<open>repr(s)\<close> of a string, as it appears in messages.\<close>

definition hex_char :: "nat \<Rightarrow> char" where
  "hex_char n = char_of (if n < 10 then 48 + n else 87 + n)"

definition repr_char :: "char \<Rightarrow> char \<Rightarrow> string" where
  "repr_char quote c =
     (let n = (of_char c :: nat) in
      if c = quote \<or> n = 92 then [char_of (92::nat), c]
      else if n = 10 then [char_of (92::nat), CHR ''n'']
      else if n = 13 then [char_of (92::nat), CHR ''r'']
      else if n = 9 then [char_of (92::nat), CHR ''t'']
      else if n < 32 \<or> (127 \<le> n \<and> n \<le> 160) \<or> n = 173
      then [char_of (92::nat), CHR ''x'', hex_char (n div 16), hex_char (n mod 16)]
      else [c])"

definition py_repr :: "string \<Rightarrow> string" where
  "py_repr s =
     (let quote = (if char_of (39::nat) \<in> set s \<and> char_of (34::nat) \<notin> set s
                   then char_of (34::nat) else char_of (39::nat))
      in [quote] @ concat (map (repr_char quote) s) @ [quote])"

section \<open>Classes\<close>

text \<open>
  The built-in \<^verbatim>\<open>ConnectionError\<close> is \<open>BuiltinConnectionError\<close>: the package has a class of its own
  with this name. \<open>OtherClass\<close> is a class of code outside the package, a direct subclass of \<^verbatim>\<open>Exception\<close>.
\<close>

datatype exn_class =
    BaseExceptionC | ExceptionC | RuntimeErrorC | ValueErrorC | TypeErrorC | LookupErrorC | KeyErrorC
  | IndexErrorC | AttributeErrorC | ArithmeticErrorC | ZeroDivisionErrorC | AssertionErrorC
  | OSErrorC | FileExistsErrorC | BuiltinConnectionError
  | CancelledC | EndOfChannelC | ClosedResourceErrorC | BrokenResourceErrorC | BusyResourceErrorC
  | AddressErrorC | ConnectionErrorC | NoBroadcastAddressErrorC
  | UnknownConnectionTypeErrorC | UnknownMiddlewareTypeErrorC
  | OtherClass

fun parent_class :: "exn_class \<Rightarrow> exn_class option" where
  "parent_class BaseExceptionC = None"
| "parent_class ExceptionC = Some BaseExceptionC"
| "parent_class CancelledC = Some BaseExceptionC"
| "parent_class LookupErrorC = Some ExceptionC"
| "parent_class KeyErrorC = Some LookupErrorC"
| "parent_class IndexErrorC = Some LookupErrorC"
| "parent_class ArithmeticErrorC = Some ExceptionC"
| "parent_class ZeroDivisionErrorC = Some ArithmeticErrorC"
| "parent_class FileExistsErrorC = Some OSErrorC"
| "parent_class BuiltinConnectionError = Some OSErrorC"
| "parent_class AddressErrorC = Some RuntimeErrorC"
| "parent_class ConnectionErrorC = Some RuntimeErrorC"
| "parent_class NoBroadcastAddressErrorC = Some AddressErrorC"
| "parent_class UnknownConnectionTypeErrorC = Some RuntimeErrorC"
| "parent_class UnknownMiddlewareTypeErrorC = Some RuntimeErrorC"
| "parent_class _ = Some ExceptionC"

definition depth :: "exn_class \<Rightarrow> nat" where
  "depth c =
     (if c = BaseExceptionC then 0
      else if c \<in> {ExceptionC, CancelledC} then 1
      else if c \<in> {KeyErrorC, IndexErrorC, ZeroDivisionErrorC, FileExistsErrorC, BuiltinConnectionError, AddressErrorC,
                   ConnectionErrorC, UnknownConnectionTypeErrorC, UnknownMiddlewareTypeErrorC} then 3
      else if c = NoBroadcastAddressErrorC then 4 else 2)"

lemma parent_higher: "parent_class c = Some d \<Longrightarrow> depth d < depth c"
  by (cases c) (auto simp: depth_def)

text \<open>\<^verbatim>\<open>issubclass(c, d)\<close>: up the chain of bases.\<close>

function is_subclass :: "exn_class \<Rightarrow> exn_class \<Rightarrow> bool" where
  "is_subclass c d = (c = d \<or> (case parent_class c of None \<Rightarrow> False | Some p \<Rightarrow> is_subclass p d))"
  by auto
termination
  by (relation "measure (\<lambda>(c, _). depth c)") (auto dest: parent_higher)

declare is_subclass.simps [simp del]

text \<open>
  The constructor of \<^verbatim>\<open>OSError\<close> makes an object of a subclass for some error numbers: a \<^verbatim>\<open>ConnectionError\<close> for
  a broken pipe, a shut down end point, and an aborted, reset or refused connection (the numbers of Linux),
  a \<^verbatim>\<open>FileExistsError\<close> for 17. The other subclasses are named nowhere in the package.
\<close>

definition connection_errnos :: "int list" where
  "connection_errnos = [32, 103, 104, 108, 111]"

fun exn_class_of :: "exn \<Rightarrow> exn_class" where
  "exn_class_of (RuntimeError _) = RuntimeErrorC"
| "exn_class_of (ValueError _) = ValueErrorC"
| "exn_class_of (TypeError _) = TypeErrorC"
| "exn_class_of (KeyError _) = KeyErrorC"
| "exn_class_of (AttributeError _) = AttributeErrorC"
| "exn_class_of IndexError = IndexErrorC"
| "exn_class_of ZeroDivisionError = ZeroDivisionErrorC"
| "exn_class_of AssertionError = AssertionErrorC"
| "exn_class_of (OSError n) =
     (if n \<in> set connection_errnos then BuiltinConnectionError else if n = 17 then FileExistsErrorC else OSErrorC)"
| "exn_class_of (FileExistsError _) = FileExistsErrorC"
| "exn_class_of EndOfChannel = EndOfChannelC"
| "exn_class_of ClosedResourceError = ClosedResourceErrorC"
| "exn_class_of BrokenResourceError = BrokenResourceErrorC"
| "exn_class_of (BusyResourceError _) = BusyResourceErrorC"
| "exn_class_of (UnknownConnectionTypeError _) = UnknownConnectionTypeErrorC"
| "exn_class_of (UnknownMiddlewareTypeError _) = UnknownMiddlewareTypeErrorC"
| "exn_class_of NoBroadcastAddressError = NoBroadcastAddressErrorC"
| "exn_class_of (ConnectionError _) = ConnectionErrorC"
| "exn_class_of (OtherError _) = OtherClass"
| "exn_class_of Cancelled = CancelledC"

text \<open>\<^verbatim>\<open>except d:\<close> catches an exception of class \<open>d\<close> or of a subclass.\<close>

definition catches :: "exn_class \<Rightarrow> exn \<Rightarrow> bool" where
  "catches d e \<longleftrightarrow> is_subclass (exn_class_of e) d"

section \<open>Messages\<close>

definition no_broadcast_message :: "string \<Rightarrow> string" where
  "no_broadcast_message message = (if message = [] then ''No broadcast address'' else message)"

definition unknown_connection_type_message :: "string \<Rightarrow> string" where
  "unknown_connection_type_message connection_type = ''Unknown connection type: '' @ py_repr connection_type"

definition unknown_middleware_type_message :: "string \<Rightarrow> string" where
  "unknown_middleware_type_message middleware_type = ''Unknown middleware type: '' @ py_repr middleware_type"

text \<open>\<^verbatim>\<open>str(e)\<close> of the exceptions of the package; every raise of the first one leaves its message out.\<close>

fun message_of :: "exn \<Rightarrow> string option" where
  "message_of NoBroadcastAddressError = Some (no_broadcast_message [])"
| "message_of (UnknownConnectionTypeError t) = Some (unknown_connection_type_message t)"
| "message_of (UnknownMiddlewareTypeError t) = Some (unknown_middleware_type_message t)"
| "message_of (ConnectionError m) = Some m"
| "message_of _ = None"

section \<open>Reading a string back\<close>

text \<open>The inverse of \<open>repr\<close> on what it writes between the quotes.\<close>

definition hex_val :: "char \<Rightarrow> nat" where
  "hex_val c = (let n = of_char c in if n < 58 then n - 48 else n - 87)"

fun unescape :: "string \<Rightarrow> string" where
  "unescape [] = []"
| "unescape [c] = [c]"
| "unescape (c # d # cs) =
     (if c \<noteq> char_of (92::nat) then c # unescape (d # cs)
      else if d = CHR ''n'' then char_of (10::nat) # unescape cs
      else if d = CHR ''r'' then char_of (13::nat) # unescape cs
      else if d = CHR ''t'' then char_of (9::nat) # unescape cs
      else if d = CHR ''x''
      then (case cs of h # l # rest \<Rightarrow> char_of (16 * hex_val h + hex_val l) # unescape rest | _ \<Rightarrow> [])
      else d # unescape cs)"

definition unquote_repr :: "string \<Rightarrow> string" where
  "unquote_repr s = unescape (butlast (tl s))"


lemma hex_val_char: "n < 16 \<Longrightarrow> hex_val (hex_char n) = n"
  by (auto simp: hex_val_def hex_char_def)

lemma unescape_plain:
  assumes "c \<noteq> char_of (92::nat)"
  shows "unescape (c # r) = c # unescape r"
  using assms by (cases r) simp_all

lemma char_by_code: "(of_char c :: nat) = n \<Longrightarrow> char_of n = c"
  by auto

lemma quote_chars: "char_of (39::nat) = CHR 0x27" "char_of (34::nat) = CHR 0x22" "char_of (92::nat) = CHR 0x5C"
  by code_simp+

lemma unescape_repr_char:
  assumes "quote \<in> {char_of (39::nat), char_of (34::nat)}"
  shows "unescape (repr_char quote c @ r) = c # unescape r"
proof -
  let ?n = "of_char c :: nat"
  have n: "?n div 16 < 16" by (rule less_mult_imp_div_less) simp
  have hex: "char_of (16 * hex_val (hex_char (?n div 16)) + hex_val (hex_char (?n mod 16))) = c"
    using n by (simp add: hex_val_char)
  consider "c = quote" | "?n = 92" | "c \<noteq> quote" "?n \<noteq> 92" by blast
  then show ?thesis
  proof cases
    case 1
    then show ?thesis using assms by (auto simp: repr_char_def quote_chars)
  next
    case 2
    then have "c = char_of (92::nat)" by (metis char_of_char)
    then show ?thesis by (simp add: repr_char_def quote_chars)
  next
    case 3
    then have "c \<noteq> char_of (92::nat)" by auto
    then show ?thesis
      using 3 hex by (auto simp: repr_char_def Let_def unescape_plain dest: char_by_code)
  qed
qed

lemma unquote_repr: "unquote_repr (py_repr s) = s"
proof -
  have "unescape (concat (map (repr_char q) s)) = s" if "q \<in> {char_of (39::nat), char_of (34::nat)}" for q
    by (induction s) (simp_all add: unescape_repr_char[OF that])
  then show ?thesis
    by (simp add: unquote_repr_def py_repr_def Let_def butlast_append)
qed

section \<open>Properties\<close>

text \<open>
  What \<^verbatim>\<open>except\<close> clauses catch. \<^verbatim>\<open>except Exception\<close> catches everything but Trio's cancellation;
  \<^verbatim>\<open>except RuntimeError\<close> catches exactly the exceptions that the package defines and plain runtime errors;
  a handler of address errors catches the missing broadcast address and nothing else; and the package's
  \<^verbatim>\<open>ConnectionError\<close> and the built-in class whose name it takes catch nothing in common: a lost connection is
  an operating system's error, which only the built-in one catches.
\<close>

theorem except_clauses:
  "(catches ExceptionC e \<longleftrightarrow> is_Exception e) \<and>
   (catches RuntimeErrorC e \<longleftrightarrow> (\<exists>m. message_of e = Some m \<or> e = RuntimeError m)) \<and>
   (catches AddressErrorC e \<longleftrightarrow> e = NoBroadcastAddressError) \<and>
   (catches ConnectionErrorC e \<longleftrightarrow> (\<exists>m. e = ConnectionError m)) \<and>
   (catches BuiltinConnectionError e \<longleftrightarrow> (\<exists>n. e = OSError n \<and> n \<in> set connection_errnos)) \<and>
   \<not> (catches BuiltinConnectionError e \<and> catches ConnectionErrorC e)"
  by (cases e) (auto simp: catches_def is_subclass.simps)

text \<open>
  The message of an unknown type tells the type. Whatever its characters, the name that was asked for
  can be read back from the message, so different names have different messages, and a message of one
  kind is never one of the other.
\<close>

theorem unknown_type_messages:
  "unquote_repr (drop 25 (unknown_connection_type_message t)) = t \<and>
   unquote_repr (drop 25 (unknown_middleware_type_message t)) = t \<and>
   (message_of (UnknownConnectionTypeError t) = message_of (UnknownConnectionTypeError u) \<longleftrightarrow> t = u) \<and>
   message_of (UnknownConnectionTypeError t) \<noteq> message_of (UnknownMiddlewareTypeError u)"
proof -
  have "py_repr t = py_repr u \<longleftrightarrow> t = u" by (metis unquote_repr)
  then show ?thesis
    by (simp add: unknown_connection_type_message_def unknown_middleware_type_message_def unquote_repr)
qed

end
