(* ===== verification/Sockets.thy ===== *)
theory Sockets
  imports Stream_Connection Errors
begin

text \<open>
  \<^verbatim>\<open>connections/socket.py\<close>: socket bindings, the TCP listener and its incoming connections, the
  connected UDP socket and the UDP listener with its broadcast address.

  Sockets, interfaces and the network belong to the operating system and to other packages: the
  record \<open>socket_ops\<close> holds what the code calls, as actions on a world \<open>'w\<close> that a connection
  carries; a socket is an object of type \<open>'s\<close>. Interface and address errors are raised by these.
\<close>

type_synonym sock_address = "string \<times> int"

datatype socket_option =
    SO_BROADCAST
  | IP_BROADCAST_IF string
  | IP_MULTICAST_TTL int
  | IP_MULTICAST_IF string
  | IP_ADD_MEMBERSHIP string string

datatype socket_type = SOCK_STREAM | SOCK_DGRAM

record ('w, 's) socket_ops =
  create_socket :: "socket_type \<Rightarrow> ('w, 's) action"
  maximize_receive_buffer_size :: "'s \<Rightarrow> ('w, unit) action"
  maximize_send_buffer_size :: "'s \<Rightarrow> ('w, unit) action"
  setsockopt :: "'s \<Rightarrow> socket_option \<Rightarrow> ('w, unit) action"
  bind_to :: "'s \<Rightarrow> sock_address \<Rightarrow> ('w, unit) action"
  connect_to :: "'s \<Rightarrow> sock_address \<Rightarrow> ('w, unit) action"
  listen_on :: "'s \<Rightarrow> int option \<Rightarrow> ('w, unit) action"
  accept_on :: "'s \<Rightarrow> ('w, 's \<times> sock_address) action"
  getsockname :: "'s \<Rightarrow> ('w, sock_address option) action"
  recv_from :: "'s \<Rightarrow> nat \<Rightarrow> ('w, bytes \<times> sock_address) action"
  send_to :: "'s \<Rightarrow> bytes \<Rightarrow> sock_address \<Rightarrow> ('w, unit) action"
  recv_on :: "'s \<Rightarrow> nat \<Rightarrow> ('w, bytes) action"
  send_on :: "'s \<Rightarrow> bytes \<Rightarrow> ('w, unit) action"
  close_socket :: "'s \<Rightarrow> ('w, unit) action"
  address_of_interface :: "string \<Rightarrow> ('w, string) action"
  broadcast_of_interface :: "string \<Rightarrow> ('w, string) action"
  resolve_interface :: "string \<Rightarrow> ('w, string) action"
  interfaces_in_network :: "string \<Rightarrow> ('w, (string \<times> string \<times> string option) list) action"
  broadcast_of_network :: "string \<Rightarrow> exn + string"
  is_multicast_address :: "string \<Rightarrow> exn + bool"
  has_broadcast_if :: bool

section \<open>Bindings\<close>

datatype binding_mode = Fixed | Interface | Subnet | OtherMode string

record socket_binding =
  bind_mode :: binding_mode
  bind_value :: string
  bind_port :: int
  bind_broadcast :: bool

definition binding_fixed :: "string \<Rightarrow> int \<Rightarrow> socket_binding" where
  "binding_fixed host p = \<lparr>bind_mode = Fixed, bind_value = host, bind_port = p, bind_broadcast = False\<rparr>"

definition binding_to_interface :: "string \<Rightarrow> int \<Rightarrow> socket_binding" where
  "binding_to_interface i p = \<lparr>bind_mode = Interface, bind_value = i, bind_port = p, bind_broadcast = False\<rparr>"

definition binding_to_subnet :: "string \<Rightarrow> int \<Rightarrow> socket_binding" where
  "binding_to_subnet n p = \<lparr>bind_mode = Subnet, bind_value = n, bind_port = p, bind_broadcast = False\<rparr>"

definition fixed_address :: "socket_binding \<Rightarrow> sock_address option" where
  "fixed_address b = (if bind_mode b = Fixed then Some (bind_value b, bind_port b) else None)"

definition bind_to_broadcast :: "bool \<Rightarrow> socket_binding \<Rightarrow> socket_binding" where
  "bind_to_broadcast v b = b\<lparr>bind_broadcast := v\<rparr>"

text \<open>The message of the last branch is literal: the string in the code lacks its format prefix.\<close>

definition unknown_mode :: exn where
  "unknown_mode = ValueError ''Unknown socket binding mode: {self.mode!r}''"

definition from_result :: "exn + 'a \<Rightarrow> ('w, 'a) action" where
  [action_simps]: "from_result r = (case r of Inl e \<Rightarrow> throw e | Inr x \<Rightarrow> ret x)"

definition get_broadcast_address :: "('w, 's) socket_ops \<Rightarrow> socket_binding \<Rightarrow> ('w, string) action" where
  "get_broadcast_address ops b =
     (case bind_mode b of
        Fixed \<Rightarrow> ret ''255.255.255.255''
      | Interface \<Rightarrow> broadcast_of_interface ops (bind_value b)
      | Subnet \<Rightarrow> from_result (broadcast_of_network ops (bind_value b))
      | OtherMode _ \<Rightarrow> throw unknown_mode)"

fun is_ValueError :: "exn \<Rightarrow> bool" where
  "is_ValueError (ValueError _) = True"
| "is_ValueError _ = False"

definition resolve_address :: "('w, 's) socket_ops \<Rightarrow> socket_binding \<Rightarrow> ('w, string) action" where
  "resolve_address ops b =
     (case bind_mode b of
        Fixed \<Rightarrow> ret (bind_value b)
      | Interface \<Rightarrow>
          try_except
            (if bind_broadcast b then broadcast_of_interface ops (bind_value b)
             else address_of_interface ops (bind_value b))
            (\<lambda>e. throw (if is_ValueError e
                        then ConnectionError (''Network interface '' @ py_repr (bind_value b) @ '' has no IP address'') else e))
      | Subnet \<Rightarrow>
          and_then (interfaces_in_network ops (bind_value b))
            (\<lambda>candidates. case candidates of
               [] \<Rightarrow> throw (ConnectionError (''No network interface corresponds to subnet '' @ py_repr (bind_value b)))
             | (interface, addr, network) # _ \<Rightarrow>
                 if bind_broadcast b then
                   (case network of
                      None \<Rightarrow> broadcast_of_interface ops interface
                    | Some n \<Rightarrow> if n = [] then broadcast_of_interface ops interface
                                else from_result (broadcast_of_network ops n))
                 else ret addr)
      | OtherMode _ \<Rightarrow> throw unknown_mode)"

definition resolve_binding :: "('w, 's) socket_ops \<Rightarrow> socket_binding \<Rightarrow> ('w, sock_address) action" where
  "resolve_binding ops b = and_then (resolve_address ops b) (\<lambda>addr. ret (addr, bind_port b))"

section \<open>Socket connections\<close>

record ('w, 's) socket_connection = connection +
  socket_of :: "'s option"
  own_address :: "sock_address option"
  net_world :: 'w

definition on_net :: "('w, 'a) action \<Rightarrow> (('w, 's, 'z) socket_connection_scheme, 'a) action" where
  "on_net m c = (case m (net_world c) of (r, w) \<Rightarrow> (r, c\<lparr>net_world := w\<rparr>))"

definition socket_open_hook ::
  "(('w, 's, 'z) socket_connection_scheme, 's) action \<Rightarrow> (('w, 's, 'z) socket_connection_scheme, unit) action" where
  "socket_open_hook create = and_then create (\<lambda>s. modify (\<lambda>c. c\<lparr>socket_of := Some s\<rparr>))"

definition socket_close_hook :: "('w, 's) socket_ops \<Rightarrow> (('w, 's, 'z) socket_connection_scheme, unit) action" where
  "socket_close_hook ops c =
     (case socket_of c of
        None \<Rightarrow> (Raises AssertionError, c)
      | Some s \<Rightarrow> and_then (on_net (close_socket ops s)) (\<lambda>_. modify (\<lambda>c. c\<lparr>socket_of := None\<rparr>)) c)"

definition socket_address :: "('w, 's) socket_ops \<Rightarrow> (('w, 's, 'z) socket_connection_scheme, sock_address option) action" where
  "socket_address ops c =
     (case socket_of c of
        None \<Rightarrow> (case own_address c of
                   None \<Rightarrow> (Raises (ValueError ''socket is not open yet''), c)
                 | Some a \<Rightarrow> (Returns (Some a), c))
      | Some s \<Rightarrow> on_net (getsockname ops s) c)"

subsection \<open>TCP\<close>

definition tcp_listener_create ::
  "('w, 's) socket_ops \<Rightarrow> socket_binding \<Rightarrow> int \<Rightarrow> (('w, 's, 'z) socket_connection_scheme, 's) action" where
  "tcp_listener_create ops b backlog =
     on_net (and_then (create_socket ops SOCK_STREAM)
       (\<lambda>s. and_then (and_then (resolve_binding ops b) (bind_to ops s))
         (\<lambda>_. and_then (listen_on ops s (if 0 \<le> backlog then Some backlog else None))
           (\<lambda>_. ret s))))"

text \<open>The listener's constructor: the connection, its binding and its backlog.\<close>

definition init_tcp_listener ::
  "string option \<Rightarrow> int option \<Rightarrow> int option \<Rightarrow> 'w \<Rightarrow> ('w, 's) socket_connection \<times> socket_binding \<times> int" where
  "init_tcp_listener host p backlog w =
     (let b = binding_fixed (case host of Some h \<Rightarrow> h | None \<Rightarrow> []) (case p of Some n \<Rightarrow> n | None \<Rightarrow> 0)
      in (connection.extend init_connection \<lparr>socket_of = None, own_address = fixed_address b, net_world = w\<rparr>, b,
          case backlog of Some n \<Rightarrow> n | None \<Rightarrow> - 1))"

text \<open>
  \<^verbatim>\<open>IncomingTCPStreamConnection\<close>: a stream connection over a socket that is there already and can
  be used once; \<open>socket_stream\<close> is Trio's \<^verbatim>\<open>SocketStream\<close>.
\<close>

record ('s, 'st) incoming = "'st stream_connection" +
  stored_socket :: "'s option"
  peer_address :: sock_address

definition init_incoming :: "sock_address \<Rightarrow> 's \<Rightarrow> ('s, 'st) incoming" where
  "init_incoming a s = stream_connection.extend init_stream_connection \<lparr>stored_socket = Some s, peer_address = a\<rparr>"

definition incoming_create :: "('s \<Rightarrow> 'st) \<Rightarrow> (('s, 'st) incoming, 'st) action" where
  "incoming_create socket_stream c =
     (case stored_socket c of
        Some s \<Rightarrow> (Returns (socket_stream s), c\<lparr>stored_socket := None\<rparr>)
      | None \<Rightarrow> (Raises (RuntimeError ''this connection can be opened only once''), c))"

definition tcp_accept ::
  "('w, 's) socket_ops \<Rightarrow> ('s \<Rightarrow> 'st) \<Rightarrow> (('w, 's, 'z) socket_connection_scheme, ('s, 'st) incoming) action" where
  "tcp_accept ops socket_stream c =
     (case socket_of c of
        None \<Rightarrow> (Raises AssertionError, c)
      | Some s \<Rightarrow>
          and_then (on_net (accept_on ops s))
            (\<lambda>(client, a) c'.
               case conn_open (stream_open (incoming_create socket_stream)) (init_incoming a client) of
                 (Returns _, conn) \<Rightarrow> (Returns conn, c')
               | (Raises e, _) \<Rightarrow> (Raises e, c')
               | (Blocks, _) \<Rightarrow> (Blocks, c')) c)"

subsection \<open>Connected UDP sockets\<close>

definition init_udp_socket :: "string \<Rightarrow> int \<Rightarrow> 'w \<Rightarrow> ('w, 's) socket_connection" where
  "init_udp_socket host p w =
     connection.extend init_connection \<lparr>socket_of = None, own_address = Some (host, p), net_world = w\<rparr>"

definition udp_connect_create :: "('w, 's) socket_ops \<Rightarrow> sock_address \<Rightarrow> (('w, 's, 'z) socket_connection_scheme, 's) action" where
  "udp_connect_create ops a =
     on_net (and_then (create_socket ops SOCK_DGRAM) (\<lambda>s. and_then (connect_to ops s a) (\<lambda>_. ret s)))"

definition udp_socket_read :: "('w, 's) socket_ops \<Rightarrow> nat \<Rightarrow> (('w, 's, 'z) socket_connection_scheme, bytes) action" where
  "udp_socket_read ops sz c =
     (case socket_of c of
        None \<Rightarrow> (Returns [], c)
      | Some s \<Rightarrow>
          and_then (on_net (recv_on ops s sz))
            (\<lambda>data. if data = [] then and_then (conn_close (socket_close_hook ops)) (\<lambda>_. ret data) else ret data) c)"

definition udp_socket_write :: "('w, 's) socket_ops \<Rightarrow> bytes \<Rightarrow> (('w, 's, 'z) socket_connection_scheme, unit) action" where
  "udp_socket_write ops data c =
     (case socket_of c of
        None \<Rightarrow> (Raises (RuntimeError ''connection does not have a socket''), c)
      | Some s \<Rightarrow> on_net (send_on ops s data) c)"

section \<open>UDP listeners\<close>

record ('w, 's) udp_listener = "('w, 's) socket_connection" +
  binding :: socket_binding
  allow_broadcast :: bool
  broadcast_interface :: "string option"
  broadcast_port :: "int option"
  multicast_interface :: "string option"
  multicast_ttl :: "int option"
  maximize_receive_buffer :: bool
  maximize_send_buffer :: bool
  inferred_broadcast_address :: "sock_address option"
  user_defined_broadcast_address :: "sock_address option"

definition choose_binding :: "string option \<Rightarrow> int \<Rightarrow> string option \<Rightarrow> string option \<Rightarrow> socket_binding" where
  "choose_binding host p interface subnet =
     (case interface of
        Some i \<Rightarrow> binding_to_interface i p
      | None \<Rightarrow> (case subnet of
                   Some n \<Rightarrow> binding_to_subnet n p
                 | None \<Rightarrow> binding_fixed (case host of Some h \<Rightarrow> h | None \<Rightarrow> []) p))"

definition init_udp_listener ::
  "string option \<Rightarrow> int \<Rightarrow> string option \<Rightarrow> string option \<Rightarrow> bool \<Rightarrow> string option \<Rightarrow> int option \<Rightarrow>
   string option \<Rightarrow> int option \<Rightarrow> bool \<Rightarrow> bool \<Rightarrow> 'w \<Rightarrow> ('w, 's) udp_listener" where
  "init_udp_listener host p interface subnet allow bif bport mif ttl maxr maxs w =
     (let b = choose_binding host p interface subnet in
      connection.extend init_connection
        \<lparr>socket_of = None, own_address = fixed_address b, net_world = w, binding = b,
         allow_broadcast = (bport \<noteq> None \<or> allow), broadcast_interface = bif, broadcast_port = bport,
         multicast_interface = mif, multicast_ttl = ttl, maximize_receive_buffer = maxr,
         maximize_send_buffer = maxs, inferred_broadcast_address = None,
         user_defined_broadcast_address = None\<rparr>)"

definition only_if :: "bool \<Rightarrow> ('s, unit) action \<Rightarrow> ('s, unit) action" where
  [action_simps]: "only_if b m = (if b then m else ret ())"

text \<open>The options set before the socket is bound.\<close>

definition set_broadcast_options ::
  "('w, 's) socket_ops \<Rightarrow> 's \<Rightarrow> (('w, 's) udp_listener, unit) action" where
  "set_broadcast_options ops s c =
     only_if (allow_broadcast c)
       (and_then (on_net (setsockopt ops s SO_BROADCAST))
         (\<lambda>_. case broadcast_interface c of
            None \<Rightarrow> ret ()
          | Some i \<Rightarrow>
              and_then (on_net (resolve_interface ops i))
                (\<lambda>effective. if has_broadcast_if ops
                   then on_net (setsockopt ops s (IP_BROADCAST_IF effective))
                   else throw (RuntimeError ''this OS does not support setting the broadcast interface of a socket'')))) c"

definition set_multicast_options ::
  "('w, 's) socket_ops \<Rightarrow> 's \<Rightarrow> (('w, 's) udp_listener, unit) action" where
  "set_multicast_options ops s c =
     and_then
       (case multicast_ttl c of None \<Rightarrow> ret () | Some t \<Rightarrow> on_net (setsockopt ops s (IP_MULTICAST_TTL t)))
       (\<lambda>_. case multicast_interface c of
          None \<Rightarrow> ret ()
        | Some i \<Rightarrow>
            and_then (on_net (resolve_interface ops i))
              (\<lambda>a. on_net (setsockopt ops s (IP_MULTICAST_IF a)))) c"

text \<open>After the bind: the port for broadcasts, remembered in the connection, and the address.\<close>

definition choose_broadcast_port ::
  "('w, 's) socket_ops \<Rightarrow> 's \<Rightarrow> (('w, 's) udp_listener, unit) action" where
  "choose_broadcast_port ops s c =
     only_if (broadcast_port c = None)
       (and_then (on_net (getsockname ops s))
         (\<lambda>a. case a of
            Some (_, p) \<Rightarrow> modify (\<lambda>c. c\<lparr>broadcast_port := Some p\<rparr>)
          | None \<Rightarrow> ret ())) c"

definition infer_broadcast_address ::
  "('w, 's) socket_ops \<Rightarrow> (('w, 's) udp_listener, unit) action" where
  "infer_broadcast_address ops c =
     (case broadcast_port c of
        None \<Rightarrow> (Returns (), c)
      | Some p \<Rightarrow>
          and_then (on_net (get_broadcast_address ops (binding c)))
            (\<lambda>h. modify (\<lambda>c. c\<lparr>inferred_broadcast_address := Some (h, p)\<rparr>)) c)"

definition assign_broadcast_address ::
  "('w, 's) socket_ops \<Rightarrow> 's \<Rightarrow> (('w, 's) udp_listener, unit) action" where
  "assign_broadcast_address ops s c =
     only_if (allow_broadcast c) (and_then (choose_broadcast_port ops s) (\<lambda>_. infer_broadcast_address ops)) c"

definition udp_bind :: "('w, 's) socket_ops \<Rightarrow> 's \<Rightarrow> (('w, 's) udp_listener, unit) action" where
  "udp_bind ops s c = on_net (and_then (resolve_binding ops (binding c)) (bind_to ops s)) c"

definition udp_listener_create :: "('w, 's) socket_ops \<Rightarrow> (('w, 's) udp_listener, 's) action" where
  "udp_listener_create ops =
     and_then (on_net (create_socket ops SOCK_DGRAM))
       (\<lambda>s. and_then (\<lambda>c. only_if (maximize_receive_buffer c) (on_net (maximize_receive_buffer_size ops s)) c)
         (\<lambda>_. and_then (\<lambda>c. only_if (maximize_send_buffer c) (on_net (maximize_send_buffer_size ops s)) c)
           (\<lambda>_. and_then (set_broadcast_options ops s)
             (\<lambda>_. and_then (set_multicast_options ops s)
               (\<lambda>_. and_then (udp_bind ops s)
                 (\<lambda>_. and_then (assign_broadcast_address ops s)
                   (\<lambda>_. ret s)))))))"

definition udp_open_hook :: "('w, 's) socket_ops \<Rightarrow> (('w, 's) udp_listener, unit) action" where
  "udp_open_hook ops = socket_open_hook (udp_listener_create ops)"

definition udp_close_hook :: "('w, 's) socket_ops \<Rightarrow> (('w, 's) udp_listener, unit) action" where
  "udp_close_hook ops =
     and_then (modify (\<lambda>c. c\<lparr>inferred_broadcast_address := None\<rparr>)) (\<lambda>_. socket_close_hook ops)"

definition broadcast_address :: "('w, 's) udp_listener \<Rightarrow> sock_address option" where
  "broadcast_address c =
     (if user_defined_broadcast_address c \<noteq> None then user_defined_broadcast_address c
      else inferred_broadcast_address c)"

definition set_user_defined_broadcast_address :: "sock_address option \<Rightarrow> (('w, 's) udp_listener, unit) action" where
  "set_user_defined_broadcast_address a c =
     (if \<not> allow_broadcast c \<and> a \<noteq> None
      then (Raises (RuntimeError ''Broadcasts are disabled on this connection''), c)
      else (Returns (), c\<lparr>user_defined_broadcast_address := a\<rparr>))"

definition clear_user_defined_broadcast_address :: "(('w, 's) udp_listener, unit) action" where
  "clear_user_defined_broadcast_address = set_user_defined_broadcast_address None"

definition udp_read :: "('w, 's) socket_ops \<Rightarrow> nat \<Rightarrow> (('w, 's) udp_listener, bytes \<times> sock_address option) action" where
  "udp_read ops sz c =
     (case socket_of c of
        None \<Rightarrow> (Returns ([], None), c)
      | Some s \<Rightarrow>
          and_then (on_net (recv_from ops s sz))
            (\<lambda>(data, a). if data = [] then and_then (conn_close (udp_close_hook ops)) (\<lambda>_. ret (data, Some a))
                         else ret (data, Some a)) c)"

text \<open>\<^verbatim>\<open>EADDRNOTAVAIL\<close> on Linux.\<close>

definition EADDRNOTAVAIL :: int where "EADDRNOTAVAIL = 99"

definition udp_write :: "('w, 's) socket_ops \<Rightarrow> bytes \<times> sock_address \<Rightarrow> (('w, 's) udp_listener, unit) action" where
  "udp_write ops data c =
     (case socket_of c of
        None \<Rightarrow> (Raises (RuntimeError ''connection does not have a socket''), c)
      | Some s \<Rightarrow>
          try_except (on_net (send_to ops s (fst data) (snd data)))
            (\<lambda>ex. if ex = OSError EADDRNOTAVAIL
                  then and_then (conn_close (udp_close_hook ops)) (\<lambda>_. throw ex) else throw ex) c)"

text \<open>What is broadcast may be bytes or a pair of bytes and an address, which is ignored.\<close>

datatype broadcast_data = JustBytes bytes | WithAddress bytes sock_address

fun bytes_of :: "broadcast_data \<Rightarrow> bytes" where
  "bytes_of (JustBytes b) = b"
| "bytes_of (WithAddress b _) = b"

definition udp_broadcast :: "('w, 's) socket_ops \<Rightarrow> broadcast_data \<Rightarrow> (('w, 's) udp_listener, unit) action" where
  "udp_broadcast ops data c =
     (case broadcast_address c of
        None \<Rightarrow> (Raises NoBroadcastAddressError, c)
      | Some a \<Rightarrow> udp_write ops (bytes_of data, a) c)"

subsection \<open>The other UDP listeners\<close>

text \<open>
  \<^verbatim>\<open>udp-broadcast\<close>, \<^verbatim>\<open>udp-broadcast-in\<close>, \<^verbatim>\<open>udp-multicast\<close> and \<^verbatim>\<open>udp-subnet\<close>: constructors over
  \<open>init_udp_listener\<close>. The \<open>path\<close> and \<open>host\<close> arguments are the members of \<^verbatim>\<open>kwds\<close> of that name;
  the second and the third hand none of their other keyword arguments on, so the defaults hold for these.
\<close>

definition create_udp_broadcast_connection ::
  "string option \<Rightarrow> int \<Rightarrow> string option \<Rightarrow> string option \<Rightarrow> string option \<Rightarrow> int option \<Rightarrow>
   string option \<Rightarrow> int option \<Rightarrow> bool \<Rightarrow> bool \<Rightarrow> 'w \<Rightarrow> ('w, 's) udp_listener" where
  "create_udp_broadcast_connection host p interface subnet bif bport mif ttl maxr maxs w =
     init_udp_listener host p interface subnet True bif bport mif ttl maxr maxs w"

definition init_broadcast_udp_listener ::
  "string option \<Rightarrow> int \<Rightarrow> string option \<Rightarrow> 'w \<Rightarrow> exn + ('w, 's) udp_listener" where
  "init_broadcast_udp_listener interface p path w =
     (case (case interface of None \<Rightarrow> path | Some i \<Rightarrow> Some i) of
        None \<Rightarrow> Inl (ValueError ''either 'interface' or 'path' must be given'')
      | Some i \<Rightarrow>
          let c = (if CHR ''/'' \<in> set i
                   then init_udp_listener (Some []) p None (Some i) False None None None None True False w
                   else init_udp_listener (Some []) p (Some i) None False None None None None True False w)
          in Inr (c\<lparr>binding := bind_to_broadcast True (binding c)\<rparr>))"

definition init_multicast_udp_listener ::
  "('w, 's) socket_ops \<Rightarrow> string option \<Rightarrow> int \<Rightarrow> string option \<Rightarrow> 'w \<Rightarrow> exn + ('w, 's) udp_listener" where
  "init_multicast_udp_listener ops grp p host w =
     (case (case grp of None \<Rightarrow> host | Some g \<Rightarrow> Some g) of
        None \<Rightarrow> Inl (ValueError ''either 'group' or 'host' must be given'')
      | Some g \<Rightarrow>
          (case is_multicast_address ops g of
             Inl e \<Rightarrow> Inl e
           | Inr False \<Rightarrow> Inl (ValueError ''expected multicast group address'')
           | Inr True \<Rightarrow> Inr (init_udp_listener (Some g) p None None True None None None None True False w)))"

text \<open>The interface is the constructor's argument, a constant of the connection.\<close>

definition multicast_create ::
  "('w, 's) socket_ops \<Rightarrow> string option \<Rightarrow> (('w, 's) udp_listener, 's) action" where
  "multicast_create ops interface =
     and_then (udp_listener_create ops)
       (\<lambda>s. and_then
          (case interface of
             None \<Rightarrow> ret ''0.0.0.0''
           | Some i \<Rightarrow> if i = [] then ret ''0.0.0.0'' else on_net (resolve_interface ops i))
          (\<lambda>addr c. case own_address c of
             None \<Rightarrow> (Raises AssertionError, c)
           | Some (host, _) \<Rightarrow>
               and_then (on_net (setsockopt ops s (IP_ADD_MEMBERSHIP host addr))) (\<lambda>_. ret s) c))"

text \<open>All the keyword arguments are handed on; a host has no effect beside the subnet, an interface has.\<close>

definition init_subnet_udp_listener ::
  "string option \<Rightarrow> int \<Rightarrow> string option \<Rightarrow> string option \<Rightarrow> bool option \<Rightarrow> string option \<Rightarrow> int option \<Rightarrow>
   string option \<Rightarrow> int option \<Rightarrow> bool \<Rightarrow> bool \<Rightarrow> 'w \<Rightarrow> exn + ('w, 's) udp_listener" where
  "init_subnet_udp_listener network p path interface allow bif bport mif ttl maxr maxs w =
     (case (case network of None \<Rightarrow> path | Some n \<Rightarrow> Some n) of
        None \<Rightarrow> Inl (ValueError ''either 'network' or 'path' must be given'')
      | Some n \<Rightarrow>
          Inr (init_udp_listener (Some []) p interface (Some n) (case allow of None \<Rightarrow> True | Some b \<Rightarrow> b)
                 bif bport mif ttl maxr maxs w))"

section \<open>Lemmas\<close>

lemma socket_more:
  "connection.more c = connection.more d \<Longrightarrow>
    socket_of c = socket_of d \<and> own_address c = own_address d \<and> net_world c = net_world d \<and>
    socket_connection.more c = socket_connection.more d"
  by (cases c; cases d) simp

lemma socket_set_state [simp]:
  "socket_of (set_state s c) = socket_of c" "own_address (set_state s c) = own_address c"
  "net_world (set_state s c) = net_world c"
  "socket_connection.more (set_state s c) = socket_connection.more c"
  using socket_more[of "set_state s c" c] by simp_all

lemma udp_more:
  "socket_connection.more c = socket_connection.more d \<Longrightarrow>
    binding c = binding d \<and> allow_broadcast c = allow_broadcast d \<and>
    broadcast_port c = broadcast_port d \<and>
    inferred_broadcast_address c = inferred_broadcast_address d \<and>
    user_defined_broadcast_address c = user_defined_broadcast_address d \<and>
    broadcast_interface c = broadcast_interface d \<and> multicast_interface c = multicast_interface d \<and>
    multicast_ttl c = multicast_ttl d \<and> maximize_receive_buffer c = maximize_receive_buffer d \<and>
    maximize_send_buffer c = maximize_send_buffer d"
  by (cases c; cases d) simp

lemma udp_set_state [simp]:
  fixes c :: "('w, 's) udp_listener"
  shows "binding (set_state s c) = binding c" "allow_broadcast (set_state s c) = allow_broadcast c"
    "broadcast_port (set_state s c) = broadcast_port c"
    "inferred_broadcast_address (set_state s c) = inferred_broadcast_address c"
    "user_defined_broadcast_address (set_state s c) = user_defined_broadcast_address c"
    "broadcast_interface (set_state s c) = broadcast_interface c"
    "multicast_interface (set_state s c) = multicast_interface c"
    "multicast_ttl (set_state s c) = multicast_ttl c"
    "maximize_receive_buffer (set_state s c) = maximize_receive_buffer c"
    "maximize_send_buffer (set_state s c) = maximize_send_buffer c"
  using udp_more[of "set_state s c" c] by simp_all

text \<open>Closing a connected listener whose socket can be closed.\<close>

lemma udp_close_connected:
  assumes "conn_state c = CONNECTED" and "socket_of c = Some s"
    and "close_socket ops s (net_world c) = (Returns (), w)"
  obtains c' where "conn_close (udp_close_hook ops) c = (Returns (), c')"
    and "conn_state c' = DISCONNECTED" and "socket_of c' = None" and "net_world c' = w"
    and "inferred_broadcast_address c' = None" and "broadcast_port c' = broadcast_port c"
    and "user_defined_broadcast_address c' = user_defined_broadcast_address c"
proof -
  define d where "d = snd (conn_close (udp_close_hook ops) c)"
  have "conn_close (udp_close_hook ops) c = (Returns (), d) \<and> conn_state d = DISCONNECTED \<and>
      socket_of d = None \<and> net_world d = w \<and> inferred_broadcast_address d = None \<and>
      broadcast_port d = broadcast_port c \<and>
      user_defined_broadcast_address d = user_defined_broadcast_address c"
    using assms
    by (simp add: d_def conn_close_def close_body_def udp_close_hook_def socket_close_hook_def
        on_net_def action_simps)
  then show thesis using that by blast
qed

text \<open>
  Whether broadcasts are allowed and the port they go to: only \<open>assign_broadcast_address\<close> touches
  them, and only where no port is known.
\<close>

definition setup_is :: "bool \<Rightarrow> int option \<Rightarrow> ('w, 's) udp_listener \<Rightarrow> bool" where
  "setup_is a p c \<longleftrightarrow> allow_broadcast c = a \<and> broadcast_port c = p"

lemma setup_world [intro]: "preserves (setup_is a p) (on_net m)"
  by (auto simp: preserves_def setup_is_def on_net_def split: prod.split)

lemma setup_buffers:
  "preserves (setup_is a p) (\<lambda>c. only_if (maximize_receive_buffer c) (on_net m) c)"
  "preserves (setup_is a p) (\<lambda>c. only_if (maximize_send_buffer c) (on_net m) c)"
  by (auto simp: preserves_def setup_is_def on_net_def action_simps split: prod.split)

lemma setup_set_state [simp]: "setup_is a p (set_state s c) = setup_is a p c"
  by (simp add: setup_is_def)

lemma setup_options:
  "preserves (setup_is a p) (set_broadcast_options ops s)"
  "preserves (setup_is a p) (set_multicast_options ops s)"
  by (auto simp: preserves_def set_broadcast_options_def set_multicast_options_def setup_is_def
      on_net_def action_simps split: prod.splits outcome.splits option.splits)

lemma setup_bind: "preserves (setup_is a p) (udp_bind ops s)"
  by (auto simp: preserves_def udp_bind_def setup_is_def on_net_def split: prod.splits)

lemma setup_close_hook: "preserves (setup_is a p) (udp_close_hook ops)"
  by (auto simp: preserves_def udp_close_hook_def socket_close_hook_def setup_is_def on_net_def
      action_simps split: prod.splits outcome.splits option.splits)

lemma udp_close_clears:
  "udp_close_hook ops c = (Returns (), d) \<Longrightarrow> inferred_broadcast_address d = None"
  by (auto simp: udp_close_hook_def socket_close_hook_def on_net_def action_simps
      split: option.splits prod.splits outcome.splits)

lemma assign_known:
  assumes "assign_broadcast_address ops s c = (Returns (), c')" and "allow_broadcast c"
    and "broadcast_port c = Some p"
  shows "broadcast_port c' = Some p \<and> allow_broadcast c' \<and> (\<exists>h. inferred_broadcast_address c' = Some (h, p))"
  using assms
  by (auto simp: assign_broadcast_address_def choose_broadcast_port_def infer_broadcast_address_def
      on_net_def action_simps split: prod.splits outcome.splits)

lemma assign_unknown:
  assumes "assign_broadcast_address ops s c = (Returns (), c')" and "broadcast_port c = None"
    and "broadcast_port c' = Some p"
  shows "allow_broadcast c' \<and> (\<exists>h. inferred_broadcast_address c' = Some (h, p)) \<and>
    (\<exists>w a w'. getsockname ops s w = (Returns (Some (a, p)), w'))"
  using assms
  by (auto simp: assign_broadcast_address_def choose_broadcast_port_def infer_broadcast_address_def
      on_net_def action_simps split: prod.splits outcome.splits option.splits if_splits) blast+

text \<open>A successful opening ends with the assignment, on the setup the connection had before.\<close>

lemma udp_open_returns:
  assumes "conn_open (udp_open_hook ops) c = (Returns (), c')" and "conn_state c = DISCONNECTED"
    and "setup_is a p c"
  obtains s e e' where "assign_broadcast_address ops s e = (Returns (), e')" and "setup_is a p e"
    and "broadcast_port c' = broadcast_port e'" and "allow_broadcast c' = allow_broadcast e'"
    and "inferred_broadcast_address c' = inferred_broadcast_address e'"
    and "conn_state c' = CONNECTED" and "socket_of c' = Some s"
proof -
  let ?c = "set_state CONNECTING c"
  obtain d where hook: "udp_open_hook ops ?c = (Returns (), d)" and c': "c' = set_state CONNECTED d"
    by (rule conn_open_returns[OF assms(1,2)])
  obtain s e' where create: "udp_listener_create ops ?c = (Returns s, e')"
      and d: "d = e'\<lparr>socket_of := Some s\<rparr>"
    using hook by (auto simp: udp_open_hook_def socket_open_hook_def modify_def elim: and_then_returns)
  have start: "setup_is a p ?c" using assms(3) by simp
  from create obtain e where "assign_broadcast_address ops s e = (Returns (), e')" "setup_is a p e"
    unfolding udp_listener_create_def
  proof (elim and_then_returns, goal_cases)
    case (1 s0 t1 u1 t2 u2 t3 u3 t4 u4 t5 u5 t6 u6 t7)
    note st = preservesE[OF setup_world start 1(2)]
    note st = preservesE[OF setup_buffers(1) st 1(3)]
    note st = preservesE[OF setup_buffers(2) st 1(4)]
    note st = preservesE[OF setup_options(1) st 1(5)]
    note st = preservesE[OF setup_options(2) st 1(6)]
    note st = preservesE[OF setup_bind st 1(7)]
    show ?case using 1(1) 1(8,9) st by (simp add: ret_def)
  qed
  then show thesis using that[of s e e'] c' d by simp
qed

text \<open>What an incoming connection is after \<^verbatim>\<open>accept()\<close> has opened it.\<close>

definition accepted :: "'st \<Rightarrow> sock_address \<Rightarrow> ('s, 'st) incoming" where
  "accepted st a =
     set_state CONNECTED
       (stream_connection.extend ((set_state CONNECTING init_stream_connection)\<lparr>stream := Some st\<rparr>)
         \<lparr>stored_socket = None, peer_address = a\<rparr>)"

lemma incoming_opened:
  "conn_open (stream_open (incoming_create socket_stream)) (init_incoming a s) =
     (Returns (), accepted (socket_stream s) a)"
  by (simp add: conn_open_def open_body_def stream_open_def incoming_create_def init_incoming_def accepted_def
      init_stream_connection_def stream_connection.extend_def connection.extend_def set_state_def
      init_connection_def note_connected_def note_disconnected_def clear_connected_def clear_disconnected_def
      send_signal_def action_simps)

lemma incoming_more:
  "connection.more c = connection.more d \<Longrightarrow> stored_socket c = stored_socket d \<and> peer_address c = peer_address d"
  by (cases c; cases d) simp

lemma incoming_set_state [simp]:
  "stored_socket (set_state s c) = stored_socket c" "peer_address (set_state s c) = peer_address c"
  using incoming_more[of "set_state s c" c] by simp_all

lemma accepted_simps:
  "conn_state (accepted st a) = CONNECTED" "stream (accepted st a) = Some st"
  "stored_socket (accepted st a) = None" "peer_address (accepted st a) = a"
  "sent (accepted st a) =
     [StateChanged DISCONNECTED CONNECTING, StateChanged CONNECTING CONNECTED, Connected]"
  by (simp_all add: accepted_def stream_connection.extend_def init_stream_connection_def connection.extend_def
      set_state_def init_connection_def note_connected_def note_disconnected_def clear_connected_def
      clear_disconnected_def send_signal_def)

section \<open>Properties\<close>

text \<open>
  C37. A UDP listener that was given no broadcast port. The port it is bound to when it is first
  opened, which the system may have picked, becomes its broadcast port for good: closing it
  forgets the broadcast address but not the port, so when it is opened again, on whatever port,
  broadcasts still go to the port of the first time.
\<close>

theorem broadcast_port_remembered:
  assumes "conn_state c = DISCONNECTED" and "broadcast_port c = None"
    and "conn_open (udp_open_hook ops) c = (Returns (), c1)" and "broadcast_port c1 = Some p"
    and "conn_close (udp_close_hook ops) c1 = (Returns (), c2)"
    and "conn_open (udp_open_hook ops) c2 = (Returns (), c3)"
  shows "(\<exists>s w a w'. getsockname ops s w = (Returns (Some (a, p)), w')) \<and>
    (\<exists>h. inferred_broadcast_address c1 = Some (h, p)) \<and> inferred_broadcast_address c2 = None \<and>
    (\<exists>h. inferred_broadcast_address c3 = Some (h, p))"
proof -
  have "setup_is (allow_broadcast c) None c" using assms(2) by (simp add: setup_is_def)
  from udp_open_returns[OF assms(3,1) this] obtain s e e'
    where 1: "assign_broadcast_address ops s e = (Returns (), e')" "broadcast_port e = None"
      "broadcast_port c1 = broadcast_port e'" "allow_broadcast c1 = allow_broadcast e'"
      "inferred_broadcast_address c1 = inferred_broadcast_address e'" "conn_state c1 = CONNECTED"
    unfolding setup_is_def by metis
  note first = assign_unknown[OF 1(1,2), of p]
  have "setup_is True (Some p) c1" using first 1 assms(4) by (simp add: setup_is_def)
  then have c2: "setup_is True (Some p) c2"
    using preservesE[OF preserves_open_close(2)[OF _ setup_close_hook] _ assms(5)] by simp
  obtain d where d: "udp_close_hook ops (set_state DISCONNECTING c1) = (Returns (), d)"
      "c2 = set_state DISCONNECTED d"
    by (rule conn_close_returns[OF assms(5) 1(6)])
  have "inferred_broadcast_address d = None" by (rule udp_close_clears[OF d(1)])
  with d(2) have closed: "conn_state c2 = DISCONNECTED \<and> inferred_broadcast_address c2 = None" by simp
  from udp_open_returns[OF assms(6) _ c2] closed obtain s e e'
    where 3: "assign_broadcast_address ops s e = (Returns (), e')" "setup_is True (Some p) e"
      "inferred_broadcast_address c3 = inferred_broadcast_address e'" by metis
  have "\<exists>h. inferred_broadcast_address c3 = Some (h, p)"
    using assign_known[OF 3(1), of p] 3(2,3) by (simp add: setup_is_def)
  moreover have "\<exists>s w a w'. getsockname ops s w = (Returns (Some (a, p)), w')" using first 1 assms(4) by metis
  ultimately show ?thesis using first 1 assms(4) closed by simp
qed

text \<open>
  A datagram without a payload closes a UDP listener, whoever sent it: the read returns it
  with its sender, the socket is closed and the connection \<open>DISCONNECTED\<close>; from then on reads
  return empty bytes and no address at once, and writes raise \<^verbatim>\<open>RuntimeError\<close>. A datagram with a
  payload is passed on with its sender and leaves the connection as it was.
\<close>

theorem empty_datagram_closes:
  assumes "conn_state c = CONNECTED" and "socket_of c = Some s"
    and "recv_from ops s sz (net_world c) = (Returns (data, a), w)"
    and "close_socket ops s w = (Returns (), w')"
    and "udp_read ops sz c = (r, c')"
  shows "r = Returns (data, Some a) \<and>
    (if data = [] then conn_state c' = DISCONNECTED \<and> socket_of c' = None \<and>
        udp_read ops sz c' = (Returns ([], None), c') \<and>
        udp_write ops m c' = (Raises (RuntimeError ''connection does not have a socket''), c')
     else c' = c\<lparr>net_world := w\<rparr>)"
proof -
  obtain d where d: "conn_close (udp_close_hook ops) (c\<lparr>net_world := w\<rparr>) = (Returns (), d)"
      "conn_state d = DISCONNECTED" "socket_of d = None"
    using udp_close_connected[of "c\<lparr>net_world := w\<rparr>" s ops w'] assms(1,2,4) by auto
  show ?thesis
  proof (cases "data = []")
    case True
    then have "r = Returns (data, Some a)" "c' = d"
      using assms(2,3,5) d(1) by (simp_all add: udp_read_def on_net_def action_simps)
    with d True show ?thesis by (simp add: udp_read_def udp_write_def)
  next
    case False
    then show ?thesis
      using assms(2,3,5) by (simp add: udp_read_def on_net_def action_simps)
  qed
qed

text \<open>
  Broadcasting when the address of the interface has gone. A broadcast that the system rejects
  with \<^verbatim>\<open>EADDRNOTAVAIL\<close> disconnects the listener and is reported to the caller; a second broadcast
  then fails for want of a broadcast address, or, where the user has defined one, for want of a
  socket. The address that is ignored in the data plays no part.
\<close>

theorem broadcast_address_lost:
  assumes "conn_state c = CONNECTED" and "socket_of c = Some s" and "broadcast_address c = Some a"
    and "send_to ops s (bytes_of data) a (net_world c) = (Raises (OSError EADDRNOTAVAIL), w)"
    and "close_socket ops s w = (Returns (), w')"
    and "udp_broadcast ops data c = (r, c')"
  shows "r = Raises (OSError EADDRNOTAVAIL) \<and> conn_state c' = DISCONNECTED \<and>
    udp_broadcast ops data' c' =
      (Raises (if user_defined_broadcast_address c = None then NoBroadcastAddressError
               else RuntimeError ''connection does not have a socket''), c')"
proof -
  obtain d where d: "conn_close (udp_close_hook ops) (c\<lparr>net_world := w\<rparr>) = (Returns (), d)"
      "conn_state d = DISCONNECTED" "socket_of d = None" "inferred_broadcast_address d = None"
      "user_defined_broadcast_address d = user_defined_broadcast_address c"
    using udp_close_connected[of "c\<lparr>net_world := w\<rparr>" s ops w'] assms(1,2,5) by auto
  have "r = Raises (OSError EADDRNOTAVAIL)" "c' = d"
    using assms(2,3,4,6) d(1) by (simp_all add: udp_broadcast_def udp_write_def on_net_def action_simps)
  with d show ?thesis
    by (auto simp: udp_broadcast_def udp_write_def broadcast_address_def)
qed

text \<open>
  What \<^verbatim>\<open>accept()\<close> of the TCP listener returns is a connection that is \<open>CONNECTED\<close> over the
  stream of the accepted socket, announces its states and knows the peer's address; once closed
  it cannot be opened again.
\<close>

theorem accepted_connection:
  assumes "tcp_accept ops socket_stream c = (Returns conn, c')"
    and "aclose sops (the (stream conn)) = (Returns (), st')"
    and "close_stream_connection sops conn = (r, conn')"
  shows "(\<exists>s client w. socket_of c = Some s \<and>
      accept_on ops s (net_world c) = (Returns (client, peer_address conn), w) \<and>
      stream conn = Some (socket_stream client)) \<and>
    conn_state conn = CONNECTED \<and>
    sent conn = [StateChanged DISCONNECTED CONNECTING, StateChanged CONNECTING CONNECTED, Connected] \<and>
    r = Returns () \<and> conn_state conn' = DISCONNECTED \<and>
    fst (conn_open (stream_open (incoming_create socket_stream)) conn') =
      Raises (RuntimeError ''this connection can be opened only once'')"
proof -
  obtain s client w where acc: "socket_of c = Some s"
      "accept_on ops s (net_world c) = (Returns (client, peer_address conn), w)"
      "conn = accepted (socket_stream client) (peer_address conn)"
    using assms(1)
    by (auto simp: tcp_accept_def on_net_def incoming_opened action_simps accepted_simps
        split: option.splits prod.splits outcome.splits)
  have conn: "conn_state conn = CONNECTED" "stream conn = Some (socket_stream client)" "stored_socket conn = None"
    using acc(3) accepted_simps by metis+
  have "aclose sops (socket_stream client) = (Returns (), st')" using assms(2) conn(2) by simp
  then have closed: "r = Returns ()" "conn_state conn' = DISCONNECTED" "stored_socket conn' = None"
    using assms(3) conn
    by (auto simp: close_stream_connection_def conn_close_def close_body_def stream_close_result action_simps)
  have "fst (conn_open (stream_open (incoming_create socket_stream)) conn') =
      Raises (RuntimeError ''this connection can be opened only once'')"
    using closed(2,3) by (simp add: conn_open_def open_body_def stream_open_def incoming_create_def action_simps)
  moreover have "sent conn =
      [StateChanged DISCONNECTED CONNECTING, StateChanged CONNECTING CONNECTED, Connected]"
    using acc(3) accepted_simps(5) by metis
  ultimately show ?thesis using acc(1,2) conn closed by simp
qed

section \<open>Witnesses\<close>

text \<open>
  A network in which a new socket gets the next free port, every datagram is empty and every
  address is gone. A socket is its port, the world is the next port.
\<close>

definition bad_net :: "(nat, nat) socket_ops" where
  "bad_net = \<lparr>create_socket = (\<lambda>_ n. (Returns n, Suc n)),
     maximize_receive_buffer_size = (\<lambda>_. ret ()), maximize_send_buffer_size = (\<lambda>_. ret ()),
     setsockopt = (\<lambda>_ _. ret ()), bind_to = (\<lambda>_ _. ret ()), connect_to = (\<lambda>_ _. ret ()),
     listen_on = (\<lambda>_ _. ret ()), accept_on = (\<lambda>_ n. (Returns (n, ''10.0.0.7'', 5000), Suc n)),
     getsockname = (\<lambda>s. ret (Some (''0.0.0.0'', int s))), recv_from = (\<lambda>_ _. ret ([], ''10.0.0.9'', 6000)),
     send_to = (\<lambda>_ _ _. throw (OSError EADDRNOTAVAIL)), recv_on = (\<lambda>_ _. ret []), send_on = (\<lambda>_ _. ret ()),
     close_socket = (\<lambda>_. ret ()), address_of_interface = ret, broadcast_of_interface = ret,
     resolve_interface = ret, interfaces_in_network = (\<lambda>_. ret []), broadcast_of_network = Inr,
     is_multicast_address = (\<lambda>_. Inr True), has_broadcast_if = False\<rparr>"

definition any_port :: "(nat, nat) udp_listener" where
  "any_port = init_udp_listener None 0 None None True None None None None False False 40001"

lemma any_port_simps:
  "conn_state any_port = DISCONNECTED" "broadcast_port any_port = None" "allow_broadcast any_port"
  "net_world any_port = 40001" "binding any_port = binding_fixed [] 0" "broadcast_interface any_port = None"
  "multicast_interface any_port = None" "multicast_ttl any_port = None"
  "\<not> maximize_receive_buffer any_port" "\<not> maximize_send_buffer any_port"
  "user_defined_broadcast_address any_port = None"
  by (simp_all add: any_port_def init_udp_listener_def choose_binding_def connection.extend_def init_connection_def Let_def)

lemma bad_net_create:
  assumes "allow_broadcast c" "broadcast_interface c = None" "multicast_interface c = None"
    "multicast_ttl c = None" "\<not> maximize_receive_buffer c" "\<not> maximize_send_buffer c"
    "binding c = binding_fixed [] 0"
  shows "udp_listener_create bad_net c =
    (Returns (net_world c),
     c\<lparr>net_world := Suc (net_world c),
       broadcast_port := Some (case broadcast_port c of None \<Rightarrow> int (net_world c) | Some p \<Rightarrow> p),
       inferred_broadcast_address := Some (''255.255.255.255'',
         case broadcast_port c of None \<Rightarrow> int (net_world c) | Some p \<Rightarrow> p)\<rparr>)"
  using assms
  by (simp add: udp_listener_create_def set_broadcast_options_def set_multicast_options_def udp_bind_def
      resolve_binding_def resolve_address_def assign_broadcast_address_def choose_broadcast_port_def
      infer_broadcast_address_def get_broadcast_address_def binding_fixed_def bad_net_def on_net_def
      action_simps split: option.split)

definition bad_opened :: "(nat, nat) udp_listener \<Rightarrow> (nat, nat) udp_listener" where
  "bad_opened c = snd (conn_open (udp_open_hook bad_net) c)"

lemma bad_net_open:
  assumes "conn_state c = DISCONNECTED" "allow_broadcast c" "broadcast_interface c = None"
    "multicast_interface c = None" "multicast_ttl c = None" "\<not> maximize_receive_buffer c"
    "\<not> maximize_send_buffer c" "binding c = binding_fixed [] 0"
  shows "conn_open (udp_open_hook bad_net) c = (Returns (), bad_opened c)"
    and "conn_state (bad_opened c) = CONNECTED" and "socket_of (bad_opened c) = Some (net_world c)"
    and "net_world (bad_opened c) = Suc (net_world c)"
    and "broadcast_port (bad_opened c) =
      Some (case broadcast_port c of None \<Rightarrow> int (net_world c) | Some p \<Rightarrow> p)"
    and "inferred_broadcast_address (bad_opened c) = Some (''255.255.255.255'',
      case broadcast_port c of None \<Rightarrow> int (net_world c) | Some p \<Rightarrow> p)"
    and "user_defined_broadcast_address (bad_opened c) = user_defined_broadcast_address c"
    and "setup_is True (broadcast_port (bad_opened c)) (bad_opened c)"
    and "binding (bad_opened c) = binding c" "broadcast_interface (bad_opened c) = broadcast_interface c"
    "multicast_interface (bad_opened c) = multicast_interface c" "multicast_ttl (bad_opened c) = multicast_ttl c"
    "maximize_receive_buffer (bad_opened c) = maximize_receive_buffer c"
    "maximize_send_buffer (bad_opened c) = maximize_send_buffer c"
  using assms
  by (simp_all add: bad_opened_def conn_open_def open_body_def udp_open_hook_def socket_open_hook_def
      bad_net_create setup_is_def action_simps cong: option.case_cong)

lemmas opened_once = bad_net_open[of any_port, simplified any_port_simps, simplified]

theorem broadcast_port_remembered_witness:
  "\<exists>c1 c2 c3. conn_open (udp_open_hook bad_net) any_port = (Returns (), c1) \<and>
     conn_close (udp_close_hook bad_net) c1 = (Returns (), c2) \<and>
     conn_open (udp_open_hook bad_net) c2 = (Returns (), c3) \<and> socket_of c3 = Some 40002 \<and>
     (\<exists>h. inferred_broadcast_address c3 = Some (h, 40001))"
proof -
  let ?c1 = "bad_opened any_port"
  note o = opened_once
  define c2 where "c2 = snd (conn_close (udp_close_hook bad_net) ?c1)"
  have close: "conn_close (udp_close_hook bad_net) ?c1 = (Returns (), c2)"
    and c2: "conn_state c2 = DISCONNECTED" "allow_broadcast c2" "broadcast_interface c2 = None"
      "multicast_interface c2 = None" "multicast_ttl c2 = None" "\<not> maximize_receive_buffer c2"
      "\<not> maximize_send_buffer c2" "binding c2 = binding_fixed [] 0" "net_world c2 = 40002"
    using o(2-14)
    by (simp_all add: c2_def conn_close_def close_body_def udp_close_hook_def socket_close_hook_def
        on_net_def bad_net_def setup_is_def action_simps)
  note again = bad_net_open[OF c2(1-8)]
  have "broadcast_port ?c1 = Some 40001" using o(5) by simp
  from broadcast_port_remembered[OF any_port_simps(1,2) o(1) this close again(1)]
  moreover have "socket_of (bad_opened c2) = Some 40002" using again(3) c2(9) by simp
  ultimately show ?thesis using o(1) close again(1) by metis
qed

theorem empty_datagram_closes_witness:
  "\<exists>c'. udp_read bad_net 4096 (bad_opened any_port) = (Returns ([], Some (''10.0.0.9'', 6000)), c') \<and>
     conn_state c' = DISCONNECTED \<and> udp_read bad_net 4096 c' = (Returns ([], None), c')"
proof -
  note o = opened_once
  have rcv: "recv_from bad_net 40001 4096 w = (Returns ([], ''10.0.0.9'', 6000), w)"
    "close_socket bad_net 40001 w = (Returns (), w)" for w
    by (simp_all add: bad_net_def action_simps)
  obtain r c' where run: "udp_read bad_net 4096 (bad_opened any_port) = (r, c')"
    by (cases "udp_read bad_net 4096 (bad_opened any_port)")
  from empty_datagram_closes[OF o(2,3) rcv run] run show ?thesis by simp
qed

theorem broadcast_address_lost_witness:
  "\<exists>c'. udp_broadcast bad_net (JustBytes [1]) (bad_opened any_port) = (Raises (OSError EADDRNOTAVAIL), c') \<and>
     conn_state c' = DISCONNECTED \<and>
     udp_broadcast bad_net (WithAddress [2] (''10.0.0.1'', 9)) c' = (Raises NoBroadcastAddressError, c')"
proof -
  note o = opened_once
  have a: "broadcast_address (bad_opened any_port) = Some (''255.255.255.255'', 40001)"
    using o(6,7) by (simp add: broadcast_address_def)
  have snd: "send_to bad_net 40001 d a w = (Raises (OSError EADDRNOTAVAIL), w)"
    "close_socket bad_net 40001 w = (Returns (), w)" for d a w
    by (simp_all add: bad_net_def action_simps)
  obtain r c' where run: "udp_broadcast bad_net (JustBytes [1]) (bad_opened any_port) = (r, c')"
    by (cases "udp_broadcast bad_net (JustBytes [1]) (bad_opened any_port)")
  from broadcast_address_lost[OF o(2,3) a snd run, of "WithAddress [2] (''10.0.0.1'', 9)"] run o(7)
  show ?thesis by simp
qed

theorem accepted_connection_witness:
  "\<exists>conn :: (nat, nat) incoming. \<exists>c'. tcp_accept bad_net Suc (bad_opened any_port) = (Returns conn, c') \<and>
     conn_state conn = CONNECTED \<and> stream conn = Some 40003 \<and> peer_address conn = (''10.0.0.7'', 5000)"
proof -
  note o = opened_once
  let ?sops = "\<lparr>receive_some = (\<lambda>_. ret []), send_all = (\<lambda>_. ret ()), aclose = ret ()\<rparr> :: nat stream_ops"
  have acc: "accept_on bad_net 40001 w = (Returns (w, ''10.0.0.7'', 5000), Suc w)" for w
    by (simp add: bad_net_def)
  obtain conn :: "(nat, nat) incoming" and c' where run: "tcp_accept bad_net Suc (bad_opened any_port) = (Returns conn, c')"
    using o(3) by (simp add: tcp_accept_def on_net_def incoming_opened action_simps acc)
  obtain r d where cl: "close_stream_connection ?sops conn = (r, d)" by (cases "close_stream_connection ?sops conn")
  have "aclose ?sops (the (stream conn)) = (Returns (), the (stream conn))" by (simp add: action_simps)
  from accepted_connection[OF run this cl] o(3,4)
  have "conn_state conn = CONNECTED" "stream conn = Some 40003" "peer_address conn = (''10.0.0.7'', 5000)"
    by (auto simp: acc)
  with run show ?thesis by blast
qed

end
