(* ===== verification/Unix_Server.thy ===== *)
theory Unix_Server
  imports Prelude
begin

text \<open>
  \<^verbatim>\<open>UnixSocketListener\<close> of \<^verbatim>\<open>connections/servers.py\<close>: how the server creates its socket file under
  a temporary name and renames it, and how it removes the file when it is closed.

  The file system is what the calls of \<^verbatim>\<open>os\<close>, \<^verbatim>\<open>stat\<close> and \<^verbatim>\<open>socket\<close> see of it: paths with the
  inode, the kind and the permissions of what is there, and the open sockets. Every system call
  may fail: the argument \<open>fault\<close> says which of them do and with what exception. Serving
  the connections is Trio's \<^verbatim>\<open>serve_listeners\<close>, which calls \<^verbatim>\<open>accept()\<close> and, in the end, \<^verbatim>\<open>aclose()\<close>.
  The constructor of the listener, which after the renaming wraps the socket into one of Trio's, is
  taken not to fail.
\<close>

unbundle bit_operations_syntax

section \<open>The file system\<close>

type_synonym mode = "16 word"

record file_node =
  inode :: nat
  is_socket :: bool
  file_mode :: mode

text \<open>
  \<open>socks\<close> lists the open sockets: a number, the inode the socket is bound to, and whether it
  listens. \<open>next_free\<close> is a number that is neither in use as a socket nor as an inode.
\<close>

record unix_world =
  files :: "string \<rightharpoonup> file_node"
  socks :: "(nat \<times> nat option \<times> bool) list"
  umask :: mode
  next_free :: nat

datatype syscall = Socket | Bind | StatTmp | Chmod | ListenOn | Rename | UnlinkTmp | TestSocket | Connect | StatPath | Unlink

type_synonym faults = "syscall \<Rightarrow> exn option"

definition no_faults :: faults where "no_faults c = None"

text \<open>The errors of the system calls: no such file, address in use, connection refused.\<close>

definition ENOENT :: exn where "ENOENT = OSError 2"
definition EADDRINUSE :: exn where "EADDRINUSE = OSError 98"
definition ECONNREFUSED :: exn where "ECONNREFUSED = OSError 111"

definition sys :: "faults \<Rightarrow> syscall \<Rightarrow> (unix_world, 'a) action \<Rightarrow> (unix_world, 'a) action" where
  [action_simps]: "sys fault c m = (case fault c of Some e \<Rightarrow> throw e | None \<Rightarrow> m)"

definition sys_socket :: "(unix_world, nat) action" where
  "sys_socket w =
     (Returns (next_free w),
      w\<lparr>socks := (next_free w, None, False) # socks w, next_free := Suc (next_free w)\<rparr>)"

definition set_sock :: "nat \<Rightarrow> nat option \<times> bool \<Rightarrow> unix_world \<Rightarrow> unix_world" where
  "set_sock s v w = w\<lparr>socks := map (\<lambda>(t, u). if t = s then (t, v) else (t, u)) (socks w)\<rparr>"

text \<open>\<^verbatim>\<open>bind\<close> creates the file, with the permissions that the mask leaves.\<close>

definition sys_bind :: "nat \<Rightarrow> string \<Rightarrow> (unix_world, unit) action" where
  "sys_bind s path w =
     (if files w path \<noteq> None then (Raises EADDRINUSE, w)
      else (Returns (),
            set_sock s (Some (next_free w), False)
              (w\<lparr>files := (files w)(path \<mapsto> \<lparr>inode = next_free w, is_socket = True,
                  file_mode = 0x1FF AND NOT (umask w)\<rparr>),
                next_free := Suc (next_free w)\<rparr>)))"

definition sys_umask :: "mode \<Rightarrow> (unix_world, mode) action" where
  "sys_umask m w = (Returns (umask w), w\<lparr>umask := m\<rparr>)"

definition sys_stat :: "string \<Rightarrow> (unix_world, file_node) action" where
  "sys_stat path w = (case files w path of Some f \<Rightarrow> (Returns f, w) | None \<Rightarrow> (Raises ENOENT, w))"

definition sys_chmod :: "string \<Rightarrow> mode \<Rightarrow> (unix_world, unit) action" where
  "sys_chmod path m w =
     (case files w path of
        Some f \<Rightarrow> (Returns (), w\<lparr>files := (files w)(path \<mapsto> f\<lparr>file_mode := m\<rparr>)\<rparr>)
      | None \<Rightarrow> (Raises ENOENT, w))"

fun bound_to :: "nat \<Rightarrow> (nat \<times> nat option \<times> bool) list \<Rightarrow> nat option" where
  "bound_to s [] = None"
| "bound_to s ((t, b, l) # ss) = (if t = s then b else bound_to s ss)"

definition sys_listen :: "nat \<Rightarrow> int \<Rightarrow> (unix_world, unit) action" where
  "sys_listen s backlog w = (Returns (), set_sock s (bound_to s (socks w), True) w)"

definition sys_rename :: "string \<Rightarrow> string \<Rightarrow> (unix_world, unit) action" where
  "sys_rename old new w =
     (case files w old of
        None \<Rightarrow> (Raises ENOENT, w)
      | Some f \<Rightarrow> (Returns (), w\<lparr>files := ((files w)(old := None))(new \<mapsto> f)\<rparr>))"

definition sys_unlink :: "string \<Rightarrow> (unix_world, unit) action" where
  "sys_unlink path w =
     (case files w path of
        None \<Rightarrow> (Raises ENOENT, w)
      | Some f \<Rightarrow> (Returns (), w\<lparr>files := (files w)(path := None)\<rparr>))"

definition close_sock :: "nat \<Rightarrow> (unix_world, unit) action" where
  "close_sock s w = (Returns (), w\<lparr>socks := filter (\<lambda>(t, _). t \<noteq> s) (socks w)\<rparr>)"

definition live :: "nat \<Rightarrow> unix_world \<Rightarrow> bool" where
  "live i w \<longleftrightarrow> list_ex (\<lambda>(_, b, l). b = Some i \<and> l) (socks w)"

definition sys_connect :: "string \<Rightarrow> (unix_world, unit) action" where
  "sys_connect path w =
     (case files w path of
        None \<Rightarrow> (Raises ENOENT, w)
      | Some f \<Rightarrow> if is_socket f \<and> live (inode f) w then (Returns (), w) else (Raises ECONNREFUSED, w))"

section \<open>Creating the listener\<close>

record unix_listener =
  server_sock :: nat
  server_path :: string
  server_inode :: nat

text \<open>A clean-up that runs where the body raised, whatever it raised: \<^verbatim>\<open>except: ...; raise\<close>.\<close>

definition on_error :: "(unix_world, 'a) action \<Rightarrow> (unix_world, unit) action \<Rightarrow> (unix_world, 'a) action" where
  "on_error m clean = try_finally m (\<lambda>ok. if ok then ret () else clean)"

text \<open>\<^verbatim>\<open>_create\<close>, from its parts: the bind under a full mask, the set-up of the file, the whole.\<close>

definition bind_masked :: "faults \<Rightarrow> nat \<Rightarrow> string \<Rightarrow> (unix_world, unit) action" where
  "bind_masked fault s tmp =
     and_then (sys_umask 0x1FF)
       (\<lambda>old. try_finally (sys fault Bind (sys_bind s tmp)) (\<lambda>_. and_then (sys_umask old) (\<lambda>_. ret ())))"

definition set_up :: "faults \<Rightarrow> nat \<Rightarrow> string \<Rightarrow> string \<Rightarrow> mode \<Rightarrow> int \<Rightarrow> (unix_world, nat) action" where
  "set_up fault s tmp path m backlog =
     and_then (sys fault StatTmp (sys_stat tmp))
       (\<lambda>f. and_then (sys fault Chmod (sys_chmod tmp m))
         (\<lambda>_. and_then (sys fault ListenOn (sys_listen s backlog))
           (\<lambda>_. and_then (sys fault Rename (sys_rename tmp path))
             (\<lambda>_. ret (inode f)))))"

text \<open>\<open>token\<close> is the eight hexadecimal digits of the random UUID.\<close>

definition create_unix :: "faults \<Rightarrow> bool \<Rightarrow> string \<Rightarrow> string \<Rightarrow> mode \<Rightarrow> int \<Rightarrow> (unix_world, unix_listener) action" where
  "create_unix fault af_unix token path m backlog w =
     (if \<not> af_unix then
        (Raises (RuntimeError ''UNIX domain sockets are not supported on this platform''), w)
      else if (case files w path of Some f \<Rightarrow> \<not> is_socket f | None \<Rightarrow> False) then
        (Raises (FileExistsError (''Existing file is not a socket: '' @ path)), w)
      else
        and_then (sys fault Socket sys_socket)
          (\<lambda>s. on_error
             (let tmp = path @ ''.'' @ token in
              and_then (bind_masked fault s tmp)
                (\<lambda>_. and_then (on_error (set_up fault s tmp path m backlog) (sys fault UnlinkTmp (sys_unlink tmp)))
                  (\<lambda>i. ret \<lparr>server_sock = s, server_path = path, server_inode = i\<rparr>)))
             (close_sock s)) w)"

text \<open>\<^verbatim>\<open>create\<close>: the default of the backlog, which also takes the place of zero.\<close>

definition default_backlog :: "int option \<Rightarrow> int" where
  "default_backlog b = (case b of None \<Rightarrow> 0xFFFF | Some n \<Rightarrow> if n = 0 then 0xFFFF else n)"

text \<open>The limit that Trio puts on the backlog: copied into the module, and not used.\<close>

definition compute_backlog :: "int option \<Rightarrow> int" where
  "compute_backlog b = (case b of None \<Rightarrow> 0xFFFF | Some n \<Rightarrow> min n 0xFFFF)"

lemma backlog_differs: "default_backlog (Some n) = compute_backlog (Some n) \<longleftrightarrow> n \<noteq> 0 \<and> n \<le> 0xFFFF"
  by (auto simp: default_backlog_def compute_backlog_def)

definition create_listener ::
  "faults \<Rightarrow> bool \<Rightarrow> string \<Rightarrow> string \<Rightarrow> mode \<Rightarrow> int option \<Rightarrow> (unix_world, unix_listener) action" where
  "create_listener fault af_unix token path m b = create_unix fault af_unix token path m (default_backlog b)"

section \<open>Closing it\<close>

text \<open>The file is removed if nobody answers on it and it is still the file of this server.\<close>

definition remove_own_file :: "faults \<Rightarrow> unix_listener \<Rightarrow> (unix_world, unit) action" where
  "remove_own_file fault self =
     and_then (sys fault StatPath (sys_stat (server_path self)))
       (\<lambda>f. if server_inode self = inode f then sys fault Unlink (sys_unlink (server_path self)) else ret ())"

text \<open>\<^verbatim>\<open>_close\<close>: the test connection, and its exceptions other than a refusal.\<close>

definition test_connection :: "faults \<Rightarrow> unix_listener \<Rightarrow> (unix_world, unit) action" where
  "test_connection fault self =
     try_except (sys fault Connect (sys_connect (server_path self)))
       (\<lambda>e. if e = ECONNREFUSED then remove_own_file fault self else throw e)"

definition close_file :: "faults \<Rightarrow> bool \<Rightarrow> unix_listener \<Rightarrow> (unix_world, unit) action" where
  "close_file fault af_unix self w =
     (if \<not> af_unix then
        (Raises (RuntimeError ''UNIX domain sockets are not supported on this platform''), w)
      else try_except
             (and_then (sys fault TestSocket sys_socket)
               (\<lambda>s. try_finally (test_connection fault self) (\<lambda>_. close_sock s)))
             (\<lambda>_. ret ()) w)"

definition aclose_unix :: "faults \<Rightarrow> bool \<Rightarrow> unix_listener \<Rightarrow> (unix_world, unit) action" where
  "aclose_unix fault af_unix self =
     and_then (close_sock (server_sock self)) (\<lambda>_. close_file fault af_unix self)"

section \<open>Well-formed worlds\<close>

text \<open>
  Numbers in use are below \<open>next_free\<close>, different paths have different inodes (the server makes
  no hard links), and a socket has one entry.
\<close>

definition wf_world :: "unix_world \<Rightarrow> bool" where
  "wf_world w \<longleftrightarrow>
     (\<forall>p f. files w p = Some f \<longrightarrow> inode f < next_free w) \<and>
     (\<forall>p q f g. files w p = Some f \<longrightarrow> files w q = Some g \<longrightarrow> inode f = inode g \<longrightarrow> p = q) \<and>
     (\<forall>s b l. (s, b, l) \<in> set (socks w) \<longrightarrow> s < next_free w \<and> (\<forall>i. b = Some i \<longrightarrow> i < next_free w)) \<and>
     distinct (map fst (socks w))"

lemma wf_worldD:
  assumes "wf_world w"
  shows "files w p = Some f \<Longrightarrow> inode f < next_free w"
    and "files w p = Some f \<Longrightarrow> files w q = Some g \<Longrightarrow> inode f = inode g \<Longrightarrow> p = q"
    and "(s, b, l) \<in> set (socks w) \<Longrightarrow> s < next_free w"
    and "(s, Some i, l) \<in> set (socks w) \<Longrightarrow> i < next_free w"
    and "distinct (map fst (socks w))"
  using assms unfolding wf_world_def by blast+

lemma no_fault [simp]: "no_faults c = None"
  by (simp add: no_faults_def)

lemma map_socks_other:
  "s \<notin> fst ` set ss \<Longrightarrow> map (\<lambda>(t, u). if t = s then (t, v) else (t, u)) ss = ss"
  by (induction ss) auto

lemma filter_socks_other: "s \<notin> fst ` set ss \<Longrightarrow> filter (\<lambda>(t, _). t \<noteq> s) ss = ss"
  by (induction ss) auto

lemma next_free_unused: "wf_world w \<Longrightarrow> next_free w \<le> s \<Longrightarrow> s \<notin> fst ` set (socks w)"
  using wf_worldD(3) by fastforce

lemma temp_name: "path @ ''.'' @ token \<noteq> path" "path \<noteq> path @ ''.'' @ token"
  by simp_all

text \<open>The parts of the creation, in a world where the socket \<open>n\<close> is the first in the list.\<close>

lemma bind_masked_result:
  assumes "fault Bind = None" and "n \<notin> fst ` set ss" and "socks w = (n, b, l) # ss"
  shows "bind_masked fault n tmp w =
    (if files w tmp \<noteq> None then (Raises EADDRINUSE, w)
     else (Returns (), w\<lparr>files := (files w)(tmp \<mapsto> \<lparr>inode = next_free w, is_socket = True, file_mode = 0\<rparr>),
             socks := (n, Some (next_free w), False) # ss, next_free := Suc (next_free w)\<rparr>))"
  using assms
  by (simp add: bind_masked_def sys_umask_def sys_bind_def set_sock_def map_socks_other action_simps)

lemma bind_masked_fault:
  "fault Bind = Some e \<Longrightarrow> bind_masked fault n tmp w = (Raises e, w)"
  by (simp add: bind_masked_def sys_umask_def action_simps)

lemma set_up_result:
  assumes "n \<notin> fst ` set ss" and "socks w = (n, b, l) # ss"
    and "files w tmp = Some f" and "tmp \<noteq> path"
  shows "set_up no_faults n tmp path m backlog w =
    (Returns (inode f),
     w\<lparr>files := (files w)(tmp := None, path \<mapsto> f\<lparr>file_mode := m\<rparr>), socks := (n, b, True) # ss\<rparr>)"
  using assms
  by (simp add: set_up_def sys_stat_def sys_chmod_def sys_listen_def sys_rename_def set_sock_def
      map_socks_other action_simps fun_upd_twist)

text \<open>Where the set-up raises, it has changed at most the permissions of the file and the socket.\<close>

lemma set_up_raises:
  assumes "n \<notin> fst ` set ss" and "socks w = (n, b, l) # ss" and "files w tmp = Some f"
    and "set_up fault n tmp path m backlog w = (r, w')" and "\<forall>i. r \<noteq> Returns i"
  shows "(\<exists>e. r = Raises e) \<and> (\<forall>p. p \<noteq> tmp \<longrightarrow> files w' p = files w p) \<and> files w' tmp \<noteq> None \<and>
    (\<exists>l'. socks w' = (n, b, l') # ss) \<and> umask w' = umask w \<and> next_free w' = next_free w"
  using assms
  by (auto simp: set_up_def sys_stat_def sys_chmod_def sys_listen_def sys_rename_def set_sock_def
      map_socks_other action_simps split: option.splits)

section \<open>Creating\<close>

definition sock_file :: "nat \<Rightarrow> mode \<Rightarrow> file_node" where
  "sock_file i m = \<lparr>inode = i, is_socket = True, file_mode = m\<rparr>"

lemma create_result:
  assumes "wf_world w" and "\<And>f. files w path = Some f \<Longrightarrow> is_socket f" and "files w (path @ ''.'' @ token) = None"
  shows "create_unix no_faults True token path m backlog w =
    (Returns \<lparr>server_sock = next_free w, server_path = path, server_inode = Suc (next_free w)\<rparr>,
     w\<lparr>files := (files w)(path \<mapsto> sock_file (Suc (next_free w)) m),
       socks := (next_free w, Some (Suc (next_free w)), True) # socks w,
       next_free := Suc (Suc (next_free w))\<rparr>)"
proof -
  let ?n = "next_free w" and ?tmp = "path @ ''.'' @ token"
  let ?w1 = "w\<lparr>socks := (?n, None, False) # socks w, next_free := Suc ?n\<rparr>"
  let ?w2 = "?w1\<lparr>files := (files w)(?tmp \<mapsto> sock_file (Suc ?n) 0),
      socks := (?n, Some (Suc ?n), False) # socks w, next_free := Suc (Suc ?n)\<rparr>"
  have n: "?n \<notin> fst ` set (socks w)" by (rule next_free_unused[OF assms(1)]) simp
  have b: "bind_masked no_faults ?n ?tmp ?w1 = (Returns (), ?w2)"
    using assms(3) by (simp add: bind_masked_result[OF _ n, where b = None and l = False] sock_file_def)
  have upd: "(files w)(?tmp := None, path \<mapsto> x) = (files w)(path \<mapsto> x)" for x
    using assms(3) by (auto simp: fun_eq_iff)
  have u: "set_up no_faults ?n ?tmp path m backlog ?w2 = (Returns (Suc ?n),
      ?w2\<lparr>files := (files w)(path \<mapsto> sock_file (Suc ?n) m), socks := (?n, Some (Suc ?n), True) # socks w\<rparr>)"
    using upd by (subst set_up_result[OF n, where b = "Some (Suc ?n)" and l = False and f = "sock_file (Suc ?n) 0"]) (simp_all add: sock_file_def)
  have "\<not> (case files w path of Some f \<Rightarrow> \<not> is_socket f | None \<Rightarrow> False)"
    using assms(2) by (auto split: option.splits)
  then show ?thesis
    using b u by (simp add: create_unix_def sys_socket_def on_error_def Let_def action_simps)
qed

lemma create_raises:
  assumes "wf_world w" and "fault UnlinkTmp = None"
    and "create_unix fault af token path m backlog w = (r, w')" and "\<forall>self. r \<noteq> Returns self"
  shows "(\<exists>e. r = Raises e) \<and> files w' = files w \<and> socks w' = socks w \<and> umask w' = umask w \<and>
    next_free w \<le> next_free w'"
proof (cases "\<not> af \<or> (case files w path of Some f \<Rightarrow> \<not> is_socket f | None \<Rightarrow> False) \<or> fault Socket \<noteq> None")
  case True
  then show ?thesis
    using assms(3,4) by (auto simp: create_unix_def action_simps split: if_splits option.splits)
next
  case ok: False
  let ?n = "next_free w" and ?tmp = "path @ ''.'' @ token"
  let ?w1 = "w\<lparr>socks := (?n, None, False) # socks w, next_free := Suc ?n\<rparr>"
  let ?w2 = "?w1\<lparr>files := (files w)(?tmp \<mapsto> sock_file (Suc ?n) 0),
      socks := (?n, Some (Suc ?n), False) # socks w, next_free := Suc (Suc ?n)\<rparr>"
  have n: "?n \<notin> fst ` set (socks w)" by (rule next_free_unused[OF assms(1)]) simp
  note cr = assms(3)[unfolded create_unix_def on_error_def Let_def]
  show ?thesis
  proof (cases "fault Bind = None \<and> files w ?tmp = None")
    case False
    then have "bind_masked fault ?n ?tmp ?w1 = (Raises (case fault Bind of None \<Rightarrow> EADDRINUSE | Some e \<Rightarrow> e), ?w1)"
      by (cases "fault Bind") (simp_all add: bind_masked_result[OF _ n, where b = None and l = False] bind_masked_fault)
    then show ?thesis
      using cr ok n
      by (auto simp: sys_socket_def close_sock_def filter_socks_other action_simps split: option.splits)
  next
    case True
    then have b: "bind_masked fault ?n ?tmp ?w1 = (Returns (), ?w2)"
      by (simp add: bind_masked_result[OF _ n, where b = None and l = False] sock_file_def)
    obtain q w3 where u: "set_up fault ?n ?tmp path m backlog ?w2 = (q, w3)"
      by (cases "set_up fault ?n ?tmp path m backlog ?w2")
    show ?thesis
    proof (cases "\<exists>i. q = Returns i")
      case True
      then show ?thesis
        using cr ok assms(4) b u
        by (auto simp: sys_socket_def action_simps split: option.splits)
    next
      case False
      then obtain e l' where q: "q = Raises e" "files w3 ?tmp \<noteq> None" "socks w3 = (?n, Some (Suc ?n), l') # socks w"
          "umask w3 = umask w" "next_free w3 = Suc (Suc ?n)" and old: "\<forall>p. p \<noteq> ?tmp \<longrightarrow> files w3 p = files w p"
        using set_up_raises[OF n _ _ u, where b = "Some (Suc ?n)" and l = False and f = "sock_file (Suc ?n) 0"]
        by auto
      have "(files w3)(?tmp := None) = files w" using old True by (auto simp: fun_eq_iff)
      then show ?thesis
        using cr ok b u q n assms(2)
        by (auto simp: sys_socket_def sys_unlink_def close_sock_def filter_socks_other action_simps
            split: option.splits)
    qed
  qed
qed

section \<open>Closing\<close>

definition only_exceptions :: "faults \<Rightarrow> bool" where
  "only_exceptions fault \<longleftrightarrow> (\<forall>c e. fault c = Some e \<longrightarrow> is_Exception e) \<and> fault Connect \<noteq> Some ECONNREFUSED"

lemma only_exceptionsD:
  "only_exceptions fault \<Longrightarrow> fault c = Some e \<Longrightarrow> is_Exception e"
  "only_exceptions fault \<Longrightarrow> fault Connect \<noteq> Some ECONNREFUSED"
  unfolding only_exceptions_def by blast+

lemma errnos_are_exceptions [simp]:
  "is_Exception ENOENT" "is_Exception ECONNREFUSED" "is_Exception EADDRINUSE" "ENOENT \<noteq> ECONNREFUSED"
  by (simp_all add: ENOENT_def ECONNREFUSED_def EADDRINUSE_def)

text \<open>The file is this server's, and no socket listens on it.\<close>

definition abandoned :: "unix_listener \<Rightarrow> unix_world \<Rightarrow> bool" where
  "abandoned self w =
     (case files w (server_path self) of
        None \<Rightarrow> False
      | Some f \<Rightarrow> inode f = server_inode self \<and> \<not> (is_socket f \<and> live (inode f) w))"

lemma test_connection_result:
  assumes "only_exceptions fault"
  shows "\<exists>r. test_connection fault self w =
      (r, if fault Connect = None \<and> fault StatPath = None \<and> fault Unlink = None \<and> abandoned self w
          then w\<lparr>files := (files w)(server_path self := None)\<rparr> else w) \<and>
    (r = Returns () \<or> (\<exists>e. r = Raises e \<and> is_Exception e))"
  using only_exceptionsD[OF assms]
  by (auto simp: test_connection_def sys_connect_def remove_own_file_def sys_stat_def sys_unlink_def
      abandoned_def action_simps split: option.splits)

definition removes :: "faults \<Rightarrow> unix_listener \<Rightarrow> unix_world \<Rightarrow> bool" where
  "removes fault self w \<longleftrightarrow>
     fault TestSocket = None \<and> fault Connect = None \<and> fault StatPath = None \<and> fault Unlink = None \<and>
     abandoned self w"

lemma close_file_result:
  assumes "only_exceptions fault" and "fault TestSocket = None" and n: "next_free w \<notin> fst ` set (socks w)"
  shows "close_file fault True self w =
    (Returns (), w\<lparr>next_free := Suc (next_free w),
       files := (if removes fault self w then (files w)(server_path self := None) else files w)\<rparr>)"
proof -
  let ?n = "next_free w"
  define v where "v = w\<lparr>socks := (?n, None, False) # socks w, next_free := Suc ?n\<rparr>"
  define u where "u = (if removes fault self w then v\<lparr>files := (files v)(server_path self := None)\<rparr> else v)"
  have "abandoned self v = abandoned self w"
    by (simp add: v_def abandoned_def live_def split: option.split)
  then obtain r where r: "test_connection fault self v = (r, u)"
      "r = Returns () \<or> (\<exists>e. r = Raises e \<and> is_Exception e)"
    using test_connection_result[OF assms(1), of self v] assms(2) by (auto simp: u_def removes_def)
  have "sys_socket w = (Returns ?n, v)" by (simp add: sys_socket_def v_def)
  then have "close_file fault True self w = (Returns (), snd (close_sock ?n u))"
    using assms(2) r by (auto simp: close_file_def close_sock_def action_simps)
  moreover have "snd (close_sock ?n u) = w\<lparr>next_free := Suc ?n,
       files := (if removes fault self w then (files w)(server_path self := None) else files w)\<rparr>"
    using n by (simp add: close_sock_def u_def v_def filter_socks_other)
  ultimately show ?thesis by simp
qed

definition sock_closed :: "unix_listener \<Rightarrow> unix_world \<Rightarrow> unix_world" where
  "sock_closed self w = w\<lparr>socks := filter (\<lambda>(t, _). t \<noteq> server_sock self) (socks w)\<rparr>"

lemma sock_closed_simps [simp]:
  "files (sock_closed self w) = files w" "umask (sock_closed self w) = umask w"
  "next_free (sock_closed self w) = next_free w"
  "socks (sock_closed self w) = filter (\<lambda>(t, _). t \<noteq> server_sock self) (socks w)"
  by (simp_all add: sock_closed_def)

lemma aclose_result:
  assumes "wf_world w" and "only_exceptions fault"
  obtains n where "aclose_unix fault True self w =
    (Returns (), (sock_closed self w)\<lparr>next_free := n,
       files := (if removes fault self (sock_closed self w)
                 then (files w)(server_path self := None) else files w)\<rparr>)" and "next_free w \<le> n"
proof (cases "fault TestSocket")
  case (Some e)
  then have "aclose_unix fault True self w = (Returns (), sock_closed self w)"
    using only_exceptionsD(1)[OF assms(2) Some]
    by (simp add: aclose_unix_def close_sock_def close_file_def sock_closed_def action_simps)
  moreover have "(sock_closed self w)\<lparr>next_free := next_free w, files := files w\<rparr> = sock_closed self w"
    by (simp add: sock_closed_def)
  ultimately show ?thesis using that[of "next_free w"] Some by (simp add: removes_def)
next
  case None
  have "next_free (sock_closed self w) \<notin> fst ` set (socks (sock_closed self w))"
    using next_free_unused[OF assms(1), of "next_free w"] by auto
  then have "aclose_unix fault True self w = (Returns (), (sock_closed self w)\<lparr>next_free := Suc (next_free w),
       files := (if removes fault self (sock_closed self w)
                 then (files w)(server_path self := None) else files w)\<rparr>)"
    using close_file_result[OF assms(2) None, of "sock_closed self w"]
    by (simp add: aclose_unix_def close_sock_def sock_closed_def[symmetric] action_simps)
  then show ?thesis using that[of "Suc (next_free w)"] by simp
qed

section \<open>Faults and successes\<close>

text \<open>A creation that succeeds has met no fault.\<close>

lemma sys_returns: "sys fault c m w = (Returns x, w') \<longleftrightarrow> fault c = None \<and> m w = (Returns x, w')"
  by (simp add: action_simps split: option.split)

lemma on_error_returns: "on_error m f w = (Returns x, w') \<longleftrightarrow> m w = (Returns x, w')"
  by (auto simp: on_error_def action_simps split: prod.split outcome.split)

lemma bind_masked_returns:
  "bind_masked fault s tmp w = (Returns x, w') \<Longrightarrow> bind_masked no_faults s tmp w = (Returns x, w')"
  by (auto simp: bind_masked_def action_simps split: prod.splits outcome.splits option.splits)

lemma set_up_returns:
  "set_up fault s tmp path m b w = (Returns i, w') \<Longrightarrow> set_up no_faults s tmp path m b w = (Returns i, w')"
  by (auto simp: set_up_def action_simps split: prod.splits outcome.splits option.splits)

lemma create_returns:
  assumes "create_unix fault af token path m backlog w = (Returns self, w')"
  shows "create_unix no_faults True token path m backlog w = (Returns self, w')"
proof -
  let ?tmp = "path @ ''.'' @ token"
  have ok: "af" "\<not> (case files w path of Some f \<Rightarrow> \<not> is_socket f | None \<Rightarrow> False)"
    using assms by (auto simp: create_unix_def split: if_splits)
  then obtain s v u t i where parts: "sys fault Socket sys_socket w = (Returns s, v)"
      "bind_masked fault s ?tmp v = (Returns (), u)" "set_up fault s ?tmp path m backlog u = (Returns i, t)"
      "self = \<lparr>server_sock = s, server_path = path, server_inode = i\<rparr>" "w' = t"
    using assms
    by (auto simp: create_unix_def Let_def on_error_returns ret_def elim!: and_then_returns)
  have "sys no_faults Socket sys_socket w = (Returns s, v)"
    using parts(1) by (simp add: sys_returns)
  then show ?thesis
    using ok bind_masked_returns[OF parts(2)] set_up_returns[OF parts(3)] parts(4,5)
    by (simp add: create_unix_def Let_def on_error_returns) (simp add: action_simps on_error_def)
qed

definition served :: "string \<Rightarrow> mode \<Rightarrow> unix_world \<Rightarrow> unix_world" where
  "served path m w =
     w\<lparr>files := (files w)(path \<mapsto> sock_file (Suc (next_free w)) m),
       socks := (next_free w, Some (Suc (next_free w)), True) # socks w,
       next_free := Suc (Suc (next_free w))\<rparr>"

definition server_of :: "string \<Rightarrow> unix_world \<Rightarrow> unix_listener" where
  "server_of path w = \<lparr>server_sock = next_free w, server_path = path, server_inode = Suc (next_free w)\<rparr>"

lemma create_success:
  assumes "wf_world w" and "create_unix fault af token path m backlog w = (Returns self, w')"
  shows "self = server_of path w \<and> w' = served path m w"
proof -
  note run = create_returns[OF assms(2)]
  have kind: "\<not> (case files w path of Some f \<Rightarrow> \<not> is_socket f | None \<Rightarrow> False)"
    using assms(2) by (auto simp: create_unix_def split: if_splits)
  then have "\<And>f. files w path = Some f \<Longrightarrow> is_socket f" by (auto split: option.splits)
  moreover have "files w (path @ ''.'' @ token) = None"
  proof (rule ccontr)
    let ?w1 = "w\<lparr>socks := (next_free w, None, False) # socks w, next_free := Suc (next_free w)\<rparr>"
    assume "files w (path @ ''.'' @ token) \<noteq> None"
    then have "bind_masked no_faults (next_free w) (path @ ''.'' @ token) ?w1 = (Raises EADDRINUSE, ?w1)"
      using bind_masked_result[of no_faults "next_free w" "socks w" ?w1 None False]
        next_free_unused[OF assms(1), of "next_free w"] by simp
    then show False
      using run kind by (simp add: create_unix_def close_sock_def sys_socket_def on_error_def Let_def action_simps)
  qed
  ultimately show ?thesis
    using create_result[OF assms(1)] run by (simp add: served_def server_of_def)
qed

lemma wf_served:
  assumes "wf_world w"
  shows "wf_world (served path m w)"
  unfolding wf_world_def
proof (intro conjI allI impI)
  have old: "inode f < next_free w" if "files w p = Some f" for p f
    by (rule wf_worldD(1)[OF assms that])
  show "inode f < next_free (served path m w)" if "files (served path m w) p = Some f" for p f
    using that old[of p f] by (auto simp: served_def sock_file_def split: if_splits)
  show "p = q" if "files (served path m w) p = Some f" "files (served path m w) q = Some g" "inode f = inode g"
    for p q f g
    using that old[of p f] old[of q g] wf_worldD(2)[OF assms, of p f q g]
    by (auto simp: served_def sock_file_def split: if_splits)
  show "t < next_free (served path m w)" if "(t, b, l) \<in> set (socks (served path m w))" for t b l
    using that wf_worldD(3)[OF assms, of t b l] by (auto simp: served_def)
  show "i < next_free (served path m w)" if "(t, b, l) \<in> set (socks (served path m w))" "b = Some i" for t b l i
    using that wf_worldD(4)[OF assms, of t i l] by (auto simp: served_def)
  show "distinct (map fst (socks (served path m w)))"
    using wf_worldD(5)[OF assms] next_free_unused[OF assms, of "next_free w"] by (simp add: served_def)
qed

lemma wf_fewer:
  assumes "wf_world w" and "\<And>p f. files v p = Some f \<Longrightarrow> files w p = Some f"
    and "set (socks v) \<subseteq> set (socks w)" and "distinct (map fst (socks v))" and "next_free w \<le> next_free v"
  shows "wf_world v"
  unfolding wf_world_def
proof (intro conjI allI impI assms(4))
  show "inode f < next_free v" if "files v p = Some f" for p f
    using wf_worldD(1)[OF assms(1) assms(2)[OF that]] assms(5) by simp
  show "p = q" if "files v p = Some f" "files v q = Some g" "inode f = inode g" for p q f g
    using wf_worldD(2)[OF assms(1)] assms(2) that by blast
  show "t < next_free v" if "(t, b, l) \<in> set (socks v)" for t b l
    using wf_worldD(3)[OF assms(1)] assms(3,5) that by fastforce
  show "i < next_free v" if "(t, b, l) \<in> set (socks v)" "b = Some i" for t b l i
    using wf_worldD(4)[OF assms(1)] assms(3,5) that by fastforce
qed

lemma distinct_filter_socks: "distinct (map fst ss) \<Longrightarrow> distinct (map fst (filter P ss))"
  by (rule distinct_map_filter)

lemma wf_aclose:
  assumes "wf_world w" and "only_exceptions fault"
  shows "wf_world (snd (aclose_unix fault True self w))"
proof -
  obtain n where n: "aclose_unix fault True self w =
    (Returns (), (sock_closed self w)\<lparr>next_free := n,
       files := (if removes fault self (sock_closed self w)
                 then (files w)(server_path self := None) else files w)\<rparr>)" "next_free w \<le> n"
    using aclose_result[OF assms] by blast
  show ?thesis
    unfolding n(1) snd_conv
    by (rule wf_fewer[OF assms(1)])
      (use n(2) wf_worldD(5)[OF assms(1)] in \<open>auto simp: distinct_filter_socks split: if_splits\<close>)
qed

text \<open>What listens in a world with one server more.\<close>

lemma live_served:
  "live i (served path m w) \<longleftrightarrow> i = Suc (next_free w) \<or> live i w"
  by (auto simp: live_def served_def)

lemma live_old:
  assumes "wf_world w" and "live i w"
  shows "i < next_free w"
  using assms wf_worldD(4) by (fastforce simp: live_def list_ex_iff)

text \<open>A server that is created and closed leaves the path free and everything else as it was.\<close>

lemma close_served:
  assumes "wf_world v"
  shows "\<exists>n. aclose_unix no_faults True (server_of path v) (served path m v) =
      (Returns (), v\<lparr>files := (files v)(path := None), next_free := n\<rparr>) \<and> next_free v \<le> n"
proof -
  let ?w = "served path m v" and ?s = "server_of path v"
  have wf: "wf_world ?w" by (rule wf_served[OF assms])
  have oe: "only_exceptions no_faults" by (simp add: only_exceptions_def)
  have fresh: "next_free v \<notin> fst ` set (socks v)" by (rule next_free_unused[OF assms]) simp
  have socks: "socks (sock_closed ?s ?w) = socks v"
    using fresh by (simp add: served_def server_of_def filter_socks_other)
  have "\<not> live (Suc (next_free v)) v" using live_old[OF assms] by force
  then have "abandoned ?s (sock_closed ?s ?w)"
    using socks by (simp add: abandoned_def live_def served_def server_of_def sock_file_def)
  then obtain n where "aclose_unix no_faults True ?s ?w =
      (Returns (), (sock_closed ?s ?w)\<lparr>next_free := n, files := (files ?w)(path := None)\<rparr>)" "next_free ?w \<le> n"
    using aclose_result[OF wf oe, of ?s] by (auto simp: removes_def server_of_def)
  then show ?thesis using socks
    by (intro exI[of _ n]) (auto simp: served_def sock_closed_def)
qed

section \<open>Properties\<close>

text \<open>
  C30. Creating the listener. When it succeeds, the path holds the server's socket with exactly the
  requested permissions, clients can connect to it, nothing is left of the temporary name, no
  other path has changed and the mask is as before. When it fails, whatever system call was the
  cause, no file has appeared, changed or gone, the socket is closed and the mask is restored;
  the removal of the temporary file itself must not fail.
\<close>

theorem create_all_or_nothing:
  assumes "wf_world w" and "fault UnlinkTmp = None" and "create_listener fault af token path m b w = (r, w')"
  shows "case r of
      Returns self \<Rightarrow>
        files w' = (files w)(path \<mapsto> sock_file (server_inode self) m) \<and> server_path self = path \<and>
        sys_connect path w' = (Returns (), w') \<and> umask w' = umask w \<and>
        (\<forall>i. live i w' \<longleftrightarrow> i = server_inode self \<or> live i w)
    | Raises e \<Rightarrow> files w' = files w \<and> socks w' = socks w \<and> umask w' = umask w
    | Blocks \<Rightarrow> False"
proof (cases "\<exists>self. r = Returns self")
  case True
  then obtain self where r: "r = Returns self" by blast
  have s: "self = server_of path w" "w' = served path m w"
    using create_success[OF assms(1)] assms(3) r by (auto simp: create_listener_def)
  have "sys_connect path w' = (Returns (), w')"
    using live_served[of "Suc (next_free w)" path m w]
    by (simp add: s(2) sys_connect_def) (simp add: served_def sock_file_def)
  then show ?thesis
    using r live_served by (simp add: s served_def server_of_def sock_file_def)
next
  case False
  then have "(\<exists>e. r = Raises e) \<and> files w' = files w \<and> socks w' = socks w \<and> umask w' = umask w"
    using create_raises[where fault = fault, OF assms(1,2) assms(3)[unfolded create_listener_def]] by simp
  then show ?thesis by (cases r) auto
qed

text \<open>
  Closing a listener never raises and never takes away what belongs to somebody else,
  whatever fails: its socket is closed, no other path changes, and the file at its path is
  removed only if it is the one it created and no socket listens on it; without faults it is
  then removed.
\<close>

theorem close_removes_own_file:
  assumes "wf_world w" and "only_exceptions fault" and "aclose_unix fault True self w = (r, w')"
  shows "r = Returns () \<and> socks w' = filter (\<lambda>(t, _). t \<noteq> server_sock self) (socks w) \<and>
    (\<forall>p. p \<noteq> server_path self \<longrightarrow> files w' p = files w p) \<and>
    (files w' (server_path self) \<noteq> files w (server_path self) \<longrightarrow>
       abandoned self (sock_closed self w) \<and> files w' (server_path self) = None) \<and>
    (fault = no_faults \<and> abandoned self (sock_closed self w) \<longrightarrow> files w' (server_path self) = None)"
proof -
  obtain n where "aclose_unix fault True self w =
    (Returns (), (sock_closed self w)\<lparr>next_free := n,
       files := (if removes fault self (sock_closed self w)
                 then (files w)(server_path self := None) else files w)\<rparr>)"
    using aclose_result[OF assms(1,2)] by blast
  then show ?thesis using assms(3) by (auto simp: removes_def)
qed

text \<open>
  C31. Two servers, one after the other on the same path. The second one takes the path over
  from the first without an error, although the first still serves; when the first is closed, the
  file and the service of the second stay, and when the second is closed too, the path is free.
\<close>

theorem server_handover:
  assumes "wf_world w"
    and "create_listener f1 af1 t1 path m1 b1 w = (Returns s1, w1)"
    and "create_listener f2 af2 t2 path m2 b2 w1 = (Returns s2, w2)"
    and "aclose_unix no_faults True s1 w2 = (r, w3)"
    and "aclose_unix no_faults True s2 w3 = (q, w4)"
  shows "files w3 path = Some (sock_file (server_inode s2) m2) \<and> sys_connect path w3 = (Returns (), w3) \<and>
    files w4 = (files w)(path := None) \<and> socks w4 = socks w"
proof -
  let ?n = "next_free w"
  have s1: "s1 = server_of path w" "w1 = served path m1 w"
    using create_success[OF assms(1)] assms(2) by (auto simp: create_listener_def)
  have wf1: "wf_world w1" using wf_served[OF assms(1)] s1(2) by simp
  have s2: "s2 = server_of path w1" "w2 = served path m2 w1"
    using create_success[OF wf1] assms(3) by (auto simp: create_listener_def)
  have wf2: "wf_world w2" using wf_served[OF wf1] s2(2) by simp
  have oe: "only_exceptions no_faults" by (simp add: only_exceptions_def)
  have other: "\<not> abandoned s1 (sock_closed s1 w2)"
    by (simp add: abandoned_def s1 s2 served_def server_of_def sock_file_def)
  obtain n3 where w3: "w3 = (sock_closed s1 w2)\<lparr>next_free := n3\<rparr>"
    using aclose_result[OF wf2 oe, of s1] assms(4) other
    by (auto simp: removes_def sock_closed_def)
  have fresh: "?n \<notin> fst ` set (socks w)" by (rule next_free_unused[OF assms(1)]) simp
  have fresh2: "Suc (Suc ?n) \<notin> fst ` set (socks w)" by (rule next_free_unused[OF assms(1)]) simp
  have k3: "socks w3 = (Suc (Suc ?n), Some (Suc (Suc (Suc ?n))), True) # socks w"
    using fresh by (simp add: w3 s1 s2 served_def server_of_def filter_socks_other)
  have f3: "files w3 = (files w)(path \<mapsto> sock_file (Suc (Suc (Suc ?n))) m2)"
    by (simp add: w3 s1 s2 served_def)
  have c3: "sys_connect path w3 = (Returns (), w3)"
    by (simp add: sys_connect_def f3 live_def k3 sock_file_def)
  have wf3: "wf_world w3" using wf_aclose[OF wf2 oe, of s1] assms(4) by simp
  have not_live: "\<not> live (Suc (Suc (Suc ?n))) w" using live_old[OF assms(1)] by force
  have k4: "socks (sock_closed s2 w3) = socks w"
    using fresh2 by (simp add: k3 s1 s2 served_def server_of_def filter_socks_other)
  have "abandoned s2 (sock_closed s2 w3)"
    using not_live k4 by (simp add: abandoned_def live_def f3 s1 s2 served_def server_of_def sock_file_def)
  then obtain n4 where w4: "w4 = (sock_closed s2 w3)\<lparr>next_free := n4, files := (files w3)(path := None)\<rparr>"
    using aclose_result[OF wf3 oe, of s2] assms(5) by (auto simp: removes_def s2(1) server_of_def)
  have "server_inode s2 = Suc (Suc (Suc ?n))" by (simp add: s1 s2 served_def server_of_def)
  then show ?thesis using c3 f3 k4 w4 by simp
qed

text \<open>
  Well-formedness of the file system: creating a listener, successfully or not, and closing one
  keep every inode and every socket in one place.
\<close>

theorem unix_world_well_formed:
  assumes "wf_world w" and "only_exceptions fault" and "fault UnlinkTmp = None"
  shows "wf_world (snd (create_listener fault af token path m b w)) \<and>
    wf_world (snd (aclose_unix fault True self w))"
proof
  obtain r w' where run: "create_listener fault af token path m b w = (r, w')"
    by (cases "create_listener fault af token path m b w")
  show "wf_world (snd (create_listener fault af token path m b w))"
  proof (cases "\<exists>self. r = Returns self")
    case True
    then have "w' = served path m w"
      using create_success[OF assms(1)] run by (auto simp: create_listener_def)
    then show ?thesis using wf_served[OF assms(1)] run by simp
  next
    case False
    then have "files w' = files w" "socks w' = socks w" "next_free w \<le> next_free w'"
      using create_raises[where fault = fault, OF assms(1,3)] run by (auto simp: create_listener_def)
    then show ?thesis
      using wf_fewer[OF assms(1), of w'] wf_worldD(5)[OF assms(1)] run by simp
  qed
  show "wf_world (snd (aclose_unix fault True self w))" by (rule wf_aclose[OF assms(1,2)])
qed

section \<open>Witnesses\<close>

text \<open>A directory with a stale socket and a file, and a system on which \<^verbatim>\<open>rename\<close> fails.\<close>

definition var_run :: unix_world where
  "var_run = \<lparr>files = [''/run/s'' \<mapsto> sock_file 1 0x1FF, ''/run/x'' \<mapsto> \<lparr>inode = 2, is_socket = False, file_mode = 0x1A4\<rparr>],
     socks = [], umask = 0x12, next_free = 3\<rparr>"

definition no_rename :: faults where
  "no_rename c = (if c = Rename then Some (OSError 13) else None)"

lemma var_run_wf: "wf_world var_run"
  by (auto simp: wf_world_def var_run_def sock_file_def split: if_splits)

lemma no_rename_exceptions: "only_exceptions no_rename" "no_rename UnlinkTmp = None"
  by (auto simp: only_exceptions_def no_rename_def split: if_splits)

lemma var_run_created:
  "create_listener no_faults True ''a1b2c3d4'' ''/run/s'' 0x1B6 None var_run =
     (Returns (server_of ''/run/s'' var_run), served ''/run/s'' 0x1B6 var_run)"
  unfolding create_listener_def
  by (subst create_result[OF var_run_wf])
    (auto simp: var_run_def served_def server_of_def sock_file_def)

lemma no_rename_fails: "set_up no_rename s tmp path m b w \<noteq> (Returns i, w')"
  by (auto simp: set_up_def sys_stat_def sys_chmod_def sys_listen_def no_rename_def action_simps
      split: option.splits)

theorem create_all_or_nothing_witness:
  "\<exists>e w'. create_listener no_rename True ''a1b2c3d4'' ''/run/s'' 0x1B6 None var_run = (Raises e, w') \<and>
     files w' = files var_run \<and> socks w' = []"
proof -
  obtain r w' where run: "create_listener no_rename True ''a1b2c3d4'' ''/run/s'' 0x1B6 None var_run = (r, w')"
    by (cases "create_listener no_rename True ''a1b2c3d4'' ''/run/s'' 0x1B6 None var_run")
  have "r \<noteq> Returns self" for self
    using run no_rename_fails
    by (auto simp: create_listener_def create_unix_def Let_def on_error_returns sys_returns
        elim!: and_then_returns split: if_splits)
  then show ?thesis
    using create_all_or_nothing[OF var_run_wf no_rename_exceptions(2) run] run
    by (cases r) (auto simp: var_run_def)
qed

theorem close_removes_own_file_witness:
  "\<exists>w'. aclose_unix no_faults True (server_of ''/run/s'' var_run) (served ''/run/s'' 0x1B6 var_run) = (Returns (), w') \<and>
     files w' ''/run/s'' = None \<and> files w' ''/run/x'' = files var_run ''/run/x''"
proof -
  let ?w = "served ''/run/s'' 0x1B6 var_run" and ?s = "server_of ''/run/s'' var_run"
  obtain r w' where run: "aclose_unix no_faults True ?s ?w = (r, w')" by (cases "aclose_unix no_faults True ?s ?w")
  have "only_exceptions no_faults" by (simp add: only_exceptions_def)
  from close_removes_own_file[OF wf_served[OF var_run_wf] this run]
  have "r = Returns ()" "files w' ''/run/x'' = files ?w ''/run/x''" "files w' ''/run/s'' = None"
    by (auto simp: abandoned_def live_def served_def server_of_def var_run_def sock_file_def)
  then show ?thesis using run by (simp add: served_def)
qed

theorem server_handover_witness:
  "\<exists>s1 w1 s2 w2 w3 w4.
     create_listener no_faults True ''a1b2c3d4'' ''/run/s'' 0x1B6 None var_run = (Returns s1, w1) \<and>
     create_listener no_faults True ''00ff00ff'' ''/run/s'' 0x180 (Some 5) w1 = (Returns s2, w2) \<and>
     aclose_unix no_faults True s1 w2 = (Returns (), w3) \<and> sys_connect ''/run/s'' w3 = (Returns (), w3) \<and>
     aclose_unix no_faults True s2 w3 = (Returns (), w4) \<and> files w4 ''/run/s'' = None"
proof -
  let ?w1 = "served ''/run/s'' 0x1B6 var_run" and ?s1 = "server_of ''/run/s'' var_run"
  let ?w2 = "served ''/run/s'' 0x180 ?w1" and ?s2 = "server_of ''/run/s'' ?w1"
  have wf1: "wf_world ?w1" by (rule wf_served[OF var_run_wf])
  have 2: "create_listener no_faults True ''00ff00ff'' ''/run/s'' 0x180 (Some 5) ?w1 = (Returns ?s2, ?w2)"
    unfolding create_listener_def
    by (subst create_result[OF wf1]) (auto simp: var_run_def served_def server_of_def sock_file_def)
  have oe: "only_exceptions no_faults" by (simp add: only_exceptions_def)
  obtain w3 where 3: "aclose_unix no_faults True ?s1 ?w2 = (Returns (), w3)"
    using aclose_result[OF wf_served[OF wf1] oe] by metis
  have "wf_world w3" using wf_aclose[OF wf_served[OF wf1] oe, of ?s1] 3 by (metis snd_conv)
  then obtain w4 where 4: "aclose_unix no_faults True ?s2 w3 = (Returns (), w4)"
    using aclose_result[OF _ oe] by metis
  from server_handover[OF var_run_wf var_run_created 2 3 4] have
    "sys_connect ''/run/s'' w3 = (Returns (), w3)" "files w4 ''/run/s'' = None" by simp_all
  then show ?thesis using var_run_created 2 3 4 by blast
qed

theorem unix_world_well_formed_witness:
  "wf_world (snd (create_listener no_rename True ''a1b2c3d4'' ''/run/s'' 0x1B6 None var_run))"
  using unix_world_well_formed[OF var_run_wf no_rename_exceptions] by blast

end
