(* ===== verification/Stream_Sockets.thy ===== *)
theory Stream_Sockets
  imports Sockets Unix_Server
begin

text \<open>
  The rest of \<^verbatim>\<open>connections/socket.py\<close>: \<^verbatim>\<open>InternetAddressMixin\<close>, and the two stream connections that
  connect to a server, \<^verbatim>\<open>TCPStreamConnection\<close> over Trio's \<^verbatim>\<open>open_tcp_stream\<close>, which is a parameter, and
  \<^verbatim>\<open>UnixDomainSocketConnection\<close> over the file system of \<open>Unix_Server\<close>.
\<close>

section \<open>Addresses\<close>

text \<open>\<^verbatim>\<open>ip\<close> and \<^verbatim>\<open>port\<close>, from the \<^verbatim>\<open>address\<close> property; every pair is true in a condition.\<close>

definition mixin_ip :: "sock_address option \<Rightarrow> exn + string" where
  "mixin_ip address =
     (case address of
        Some a \<Rightarrow> Inr (fst a)
      | None \<Rightarrow> Inl (RuntimeError ''socket is not bound to an IP address''))"

definition mixin_port :: "sock_address option \<Rightarrow> exn + int" where
  "mixin_port address =
     (case address of
        Some a \<Rightarrow> Inr (snd a)
      | None \<Rightarrow> Inl (RuntimeError ''socket is not bound to an IP address''))"

section \<open>TCP\<close>

record ('w, 'st) tcp_stream = "'st stream_connection" +
  tcp_address :: "sock_address option"
  tcp_net :: 'w

definition init_tcp_stream :: "string option \<Rightarrow> int option \<Rightarrow> 'w \<Rightarrow> ('w, 'st) tcp_stream" where
  "init_tcp_stream host port w =
     stream_connection.extend init_stream_connection
       \<lparr>tcp_address = Some (case host of None \<Rightarrow> [] | Some h \<Rightarrow> h, case port of None \<Rightarrow> 0 | Some p \<Rightarrow> p),
        tcp_net = w\<rparr>"

definition tcp_create_stream ::
  "(string \<Rightarrow> int \<Rightarrow> ('w, 'st) action) \<Rightarrow> (('w, 'st, 'z) tcp_stream_scheme, 'st) action" where
  "tcp_create_stream open_tcp_stream c =
     (case tcp_address c of
        None \<Rightarrow> (Raises AssertionError, c)
      | Some (host, port) \<Rightarrow>
          (case open_tcp_stream host port (tcp_net c) of (r, w) \<Rightarrow> (r, c\<lparr>tcp_net := w\<rparr>)))"

section \<open>Unix domain sockets\<close>

text \<open>The stream of the connection is named by its socket.\<close>

record unix_stream = "nat stream_connection" +
  unix_path :: string
  unix_net :: unix_world

definition init_unix_stream :: "string \<Rightarrow> unix_world \<Rightarrow> unix_stream" where
  "init_unix_stream path w =
     stream_connection.extend init_stream_connection \<lparr>unix_path = path, unix_net = w\<rparr>"

definition unix_create_stream :: "faults \<Rightarrow> bool \<Rightarrow> (unix_stream, nat) action" where
  "unix_create_stream fault af_unix c =
     (if \<not> af_unix then
        (Raises (RuntimeError ''UNIX domain sockets are not supported on this platform''), c)
      else
        (case and_then (sys fault Socket sys_socket)
                (\<lambda>s. and_then (sys fault Connect (sys_connect (unix_path c))) (\<lambda>_. ret s)) (unix_net c)
         of (r, w) \<Rightarrow> (r, c\<lparr>unix_net := w\<rparr>)))"

definition unix_open :: "faults \<Rightarrow> bool \<Rightarrow> (unix_stream, unit) action" where
  "unix_open fault af_unix = conn_open (stream_open (unix_create_stream fault af_unix))"

section \<open>Lemmas\<close>

lemma unix_more:
  "connection.more c = connection.more d \<Longrightarrow> unix_path c = unix_path d \<and> unix_net c = unix_net d"
  by (cases c; cases d) simp

lemma unix_set_state [simp]: "unix_path (set_state s c) = unix_path c" "unix_net (set_state s c) = unix_net c"
  using unix_more[of "set_state s c" c] by simp_all

lemma unix_update_base [simp]:
  "conn_state (c\<lparr>unix_net := w\<rparr>) = conn_state c" "flags_ok (c\<lparr>unix_net := w\<rparr>) = flags_ok c"
  by (simp_all add: flags_ok_def)

text \<open>Opening a closed connection, by what a client finds at the path.\<close>

lemma unix_open_result:
  assumes "conn_state c = DISCONNECTED"
    and "sys_connect (unix_path c) (snd (sys_socket (unix_net c))) = (r, w)"
  shows "case r of
      Returns _ \<Rightarrow> \<exists>c'. unix_open no_faults True c = (Returns (), c') \<and> conn_state c' = CONNECTED \<and>
        stream c' = Some (next_free (unix_net c)) \<and> unix_net c' = w
    | Raises e \<Rightarrow> \<exists>c'. unix_open no_faults True c = (Raises e, c') \<and> conn_state c' = DISCONNECTED \<and>
        stream c' = stream c
    | Blocks \<Rightarrow> True"
  using assms
  by (cases r)
    (auto simp: unix_open_def conn_open_def open_body_def stream_open_def unix_create_stream_def sys_socket_def
      no_faults_def action_simps)

lemma connect_with_socket:
  "sys_connect path (snd (sys_socket w)) = (fst (sys_connect path w), snd (sys_socket w))"
  by (auto simp: sys_connect_def sys_socket_def live_def split: option.split)

section \<open>Properties\<close>

text \<open>
  C32. Client and server. A Unix domain socket connection to the path of a listener that has been
  created, and is the last one there, opens and is connected over a socket of its own; once the
  listener has been closed, opening a connection to the path raises the error of a missing file
  and leaves the connection disconnected and without a stream.
\<close>

theorem unix_client_meets_server:
  assumes "wf_world w" and "create_listener fault af token path m b w = (Returns server, w1)"
    and "aclose_unix no_faults True server w1 = (r, w2)"
  shows "(\<exists>c. unix_open no_faults True (init_unix_stream path w1) = (Returns (), c) \<and>
       conn_state c = CONNECTED \<and> stream c = Some (next_free w1) \<and> next_free w1 \<notin> fst ` set (socks w1)) \<and>
    (\<exists>c. unix_open no_faults True (init_unix_stream path w2) = (Raises ENOENT, c) \<and>
       conn_state c = DISCONNECTED \<and> stream c = None)"
proof -
  have s: "server = server_of path w" "w1 = served path m w"
    using create_success[OF assms(1)] assms(2) by (auto simp: create_listener_def)
  have fresh: "next_free w1 \<notin> fst ` set (socks w1)"
    by (rule next_free_unused) (use wf_served[OF assms(1)] s in simp_all)
  have init: "conn_state (init_unix_stream path v) = DISCONNECTED" "unix_path (init_unix_stream path v) = path"
    "unix_net (init_unix_stream path v) = v" "stream (init_unix_stream path v) = None" for v
    by (simp_all add: init_unix_stream_def init_stream_connection_def stream_connection.extend_def
        connection.extend_def init_connection_def)
  have "fst (sys_connect path w1) = Returns ()"
    by (simp add: s sys_connect_def served_def sock_file_def live_def)
  then have up: "sys_connect path (snd (sys_socket w1)) = (Returns (), snd (sys_socket w1))"
    by (simp add: connect_with_socket)
  have "files w2 path = None"
    using close_served[OF assms(1), of path m] assms(3) by (auto simp: s)
  then have "fst (sys_connect path w2) = Raises ENOENT" by (simp add: sys_connect_def)
  then have down: "sys_connect path (snd (sys_socket w2)) = (Raises ENOENT, snd (sys_socket w2))"
    by (simp add: connect_with_socket)
  show ?thesis
    using unix_open_result[of "init_unix_stream path w1"] unix_open_result[of "init_unix_stream path w2"]
      up down fresh by (auto simp: init)
qed

section \<open>Witnesses\<close>

theorem unix_client_meets_server_witness:
  "\<exists>c. unix_open no_faults True (init_unix_stream ''/run/s'' (served ''/run/s'' 0x1B6 var_run)) = (Returns (), c) \<and>
     conn_state c = CONNECTED \<and> stream c = Some 5"
proof -
  obtain r w2 where "aclose_unix no_faults True (server_of ''/run/s'' var_run) (served ''/run/s'' 0x1B6 var_run) = (r, w2)"
    by fastforce
  from unix_client_meets_server[OF var_run_wf var_run_created this]
  show ?thesis by (auto simp: served_def var_run_def)
qed

end
