(* ===== verification/Process_Connection.thy ===== *)
theory Process_Connection
  imports Connection_Base
begin

text \<open>
  \<^verbatim>\<open>ProcessConnection\<close> of \<^verbatim>\<open>connections/process.py\<close>: a connection over the standard streams of a child
  process, which is started when the connection is opened, and terminated, or killed after five
  seconds, when it is closed.

  Processes belong to the operating system and to Trio. The record \<open>process_ops\<close> holds what the
  code calls, as actions on a world \<open>'w\<close> that the connection carries; a process is an object
  \<open>'p\<close>, a stream an object \<open>'i\<close> or \<open>'o\<close>. \<open>wait_for_5\<close> is \<^verbatim>\<open>process.wait()\<close> under
  \<^verbatim>\<open>move_on_after(5)\<close>: it returns whether or not the process has exited, and raises only if the
  caller is cancelled or the system call fails.
\<close>

record ('w, 'd, 'p, 'i, 'o) process_ops =
  make_descriptor :: "('w, 'd) action"
  start_in_nursery :: "'d \<Rightarrow> ('w, 'p) action"
  proc_stdout :: "'p \<Rightarrow> 'w \<Rightarrow> 'o option"
  proc_stdin :: "'p \<Rightarrow> 'w \<Rightarrow> 'i option"
  terminate_process :: "'p \<Rightarrow> ('w, unit) action"
  kill_process :: "'p \<Rightarrow> ('w, unit) action"
  wait_for_5 :: "'p \<Rightarrow> ('w, unit) action"
  wait_process :: "'p \<Rightarrow> ('w, unit) action"
  returncode :: "'p \<Rightarrow> 'w \<Rightarrow> int option"
  out_receive :: "'o \<Rightarrow> ('w, bytes) action"
  in_send_all :: "'i \<Rightarrow> bytes \<Rightarrow> ('w, unit) action"

section \<open>State\<close>

text \<open>
  \<^verbatim>\<open>_stdin\<close> and \<^verbatim>\<open>_stdout\<close> are declared without a value, so they do not exist before the connection
  is opened for the first time.
\<close>

datatype 'a attr = Missing | Attr "'a option"

record ('w, 'p, 'i, 'o) process_connection = connection +
  process :: "'p option"
  stdin :: "'i attr"
  stdout :: "'o attr"
  exit_code :: "int option"
  proc_world :: 'w

definition init_process_connection :: "'w \<Rightarrow> ('w, 'p, 'i, 'o) process_connection" where
  "init_process_connection w =
     connection.extend init_connection
       \<lparr>process = None, stdin = Missing, stdout = Missing, exit_code = None, proc_world = w\<rparr>"

definition on_proc :: "('w, 'a) action \<Rightarrow> (('w, 'p, 'i, 'o) process_connection, 'a) action" where
  "on_proc m c = (case m (proc_world c) of (r, w) \<Rightarrow> (r, c\<lparr>proc_world := w\<rparr>))"

section \<open>Operations\<close>

text \<open>
  A descriptor, and what \<^verbatim>\<open>start_in_nursery\<close> asks Trio for: \<open>run_process\<close> takes the descriptor, the value of
  \<^verbatim>\<open>check\<close>, and what to do with the standard output, error and input. The nursery is that of the caller.
\<close>

datatype process_command = ShellCommand string | Arguments "string list"

record process_descriptor =
  command :: process_command
  cwd :: "string option"
  env :: "(string \<rightharpoonup> string) option"

datatype redirection = PIPE | STDOUT

definition descriptor_start ::
  "(process_descriptor \<Rightarrow> bool \<Rightarrow> redirection \<Rightarrow> redirection \<Rightarrow> redirection \<Rightarrow> ('w, 'p) action) \<Rightarrow>
   process_descriptor \<Rightarrow> ('w, 'p) action" where
  "descriptor_start run_process self = run_process self False PIPE STDOUT PIPE"

text \<open>The first argument of the constructor: a descriptor, or a function that makes one at each opening.\<close>

datatype ('w, 'd) process_source = Descriptor 'd | DescriptorFactory "('w, 'd) action"

fun descriptor_factory :: "('w, 'd) process_source \<Rightarrow> ('w, 'd) action" where
  "descriptor_factory (DescriptorFactory f) = f"
| "descriptor_factory (Descriptor d) = ret d"

definition create_in_nursery ::
  "process_command \<Rightarrow> string option \<Rightarrow> (string \<rightharpoonup> string) option \<Rightarrow> ('w, process_descriptor) process_source" where
  "create_in_nursery args directory environment =
     Descriptor \<lparr>command = args, cwd = directory, env = environment\<rparr>"

text \<open>
  The factory of the descriptor is the caller's; a descriptor \<open>'d\<close> is started in the nursery with
  pipes for its streams (\<^verbatim>\<open>ProcessDescriptor.start_in_nursery\<close>, a call of Trio).
\<close>

definition attach_streams ::
  "('w, 'd, 'p, 'i, 'o) process_ops \<Rightarrow> 'p \<Rightarrow> (('w, 'p, 'i, 'o) process_connection, unit) action" where
  "attach_streams ops p c =
     (case (proc_stdout ops p (proc_world c), proc_stdin ops p (proc_world c)) of
        (Some out, Some inp) \<Rightarrow> (Returns (), c\<lparr>stdout := Attr (Some out), stdin := Attr (Some inp)\<rparr>)
      | _ \<Rightarrow> (Raises AssertionError, c))"

definition process_open_hook ::
  "('w, 'd, 'p, 'i, 'o) process_ops \<Rightarrow> (('w, 'p, 'i, 'o) process_connection, unit) action" where
  "process_open_hook ops =
     and_then (on_proc (make_descriptor ops))
       (\<lambda>descriptor. and_then (modify (\<lambda>c. c\<lparr>exit_code := None\<rparr>))
         (\<lambda>_. and_then (on_proc (start_in_nursery ops descriptor))
           (\<lambda>p. and_then (modify (\<lambda>c. c\<lparr>process := Some p\<rparr>)) (\<lambda>_. attach_streams ops p))))"

text \<open>A connection made by \<^verbatim>\<open>create_in_nursery\<close> starts the same command at every opening.\<close>

lemma open_created_process:
  assumes "make_descriptor ops = descriptor_factory (create_in_nursery args directory environment)"
    and "start_in_nursery ops = descriptor_start run_process"
  shows "process_open_hook ops c =
    and_then (on_proc (run_process \<lparr>command = args, cwd = directory, env = environment\<rparr> False PIPE STDOUT PIPE))
      (\<lambda>p. and_then (modify (\<lambda>c. c\<lparr>process := Some p\<rparr>)) (\<lambda>_. attach_streams ops p)) (c\<lparr>exit_code := None\<rparr>)"
  by (simp add: process_open_hook_def assms create_in_nursery_def descriptor_start_def on_proc_def action_simps)

text \<open>Ending the process: terminate, wait, and kill it if it has not exited by then.\<close>

definition end_process :: "('w, 'd, 'p, 'i, 'o) process_ops \<Rightarrow> 'p \<Rightarrow> ('w, unit) action" where
  "end_process ops p =
     and_then (terminate_process ops p)
       (\<lambda>_. and_then (wait_for_5 ops p)
         (\<lambda>_ w. if returncode ops p w = None
                then and_then (kill_process ops p) (\<lambda>_. wait_process ops p) w
                else (Returns (), w)))"

definition process_close_hook ::
  "('w, 'd, 'p, 'i, 'o) process_ops \<Rightarrow> (('w, 'p, 'i, 'o) process_connection, unit) action" where
  "process_close_hook ops c =
     (case process c of
        None \<Rightarrow> (Returns (), c)
      | Some p \<Rightarrow>
          try_finally (on_proc (end_process ops p))
            (\<lambda>_. modify (\<lambda>c. c\<lparr>exit_code := returncode ops p (proc_world c)\<rparr>))
            (c\<lparr>process := None, stdin := Attr None, stdout := Attr None\<rparr>))"

definition process_read ::
  "('w, 'd, 'p, 'i, 'o) process_ops \<Rightarrow> (('w, 'p, 'i, 'o) process_connection, bytes) action" where
  "process_read ops c =
     (case stdout c of
        Missing \<Rightarrow> (Raises (AttributeError ''_stdout''), c)
      | Attr None \<Rightarrow> (Raises AssertionError, c)
      | Attr (Some out) \<Rightarrow> on_proc (out_receive ops out) c)"

definition process_write ::
  "('w, 'd, 'p, 'i, 'o) process_ops \<Rightarrow> bytes \<Rightarrow> (('w, 'p, 'i, 'o) process_connection, unit) action" where
  "process_write ops data c =
     (case stdin c of
        Missing \<Rightarrow> (Raises (AttributeError ''_stdin''), c)
      | Attr None \<Rightarrow> (Raises AssertionError, c)
      | Attr (Some inp) \<Rightarrow> on_proc (in_send_all ops inp data) c)"

section \<open>Lemmas\<close>

lemma process_more:
  "connection.more c = connection.more d \<Longrightarrow>
    process c = process d \<and> stdin c = stdin d \<and> stdout c = stdout d \<and> exit_code c = exit_code d \<and>
    proc_world c = proc_world d"
  by (cases c; cases d) simp

lemma process_set_state [simp]:
  fixes c :: "('w, 'p, 'i, 'o) process_connection"
  shows "process (set_state s c) = process c" "stdin (set_state s c) = stdin c"
    "stdout (set_state s c) = stdout c" "exit_code (set_state s c) = exit_code c"
    "proc_world (set_state s c) = proc_world c"
  using process_more[of "set_state s c" c] by simp_all

lemma leaves_on_proc [simp]: "leaves_lifecycle (on_proc m)"
  by (auto simp: leaves_lifecycle_def on_proc_def flags_ok_def split: prod.split)

lemma leaves_close_hook: "leaves_lifecycle (process_close_hook ops)"
  by (auto simp: leaves_lifecycle_def process_close_hook_def on_proc_def flags_ok_def action_simps
      split: option.split prod.split outcome.split)

text \<open>Closing, by how the ending of the process goes.\<close>

lemma process_close:
  fixes c :: "('w, 'p, 'i, 'o) process_connection"
  assumes "conn_state c = CONNECTED" and "process c = Some p"
    and "end_process ops p (proc_world c) = (r, w)"
  obtains c' where "conn_close (process_close_hook ops) c = (r, c')"
    and "process c' = None" and "stdin c' = Attr None" and "stdout c' = Attr None" and "proc_world c' = w"
    and "r \<noteq> Blocks \<Longrightarrow> exit_code c' = returncode ops p w"
    and "conn_state c' = (case r of Returns _ \<Rightarrow> DISCONNECTED | Raises _ \<Rightarrow> CONNECTED | Blocks \<Rightarrow> DISCONNECTING)"
proof -
  define d where "d = snd (conn_close (process_close_hook ops) c)"
  have "conn_close (process_close_hook ops) c = (r, d) \<and> process d = None \<and> stdin d = Attr None \<and>
      stdout d = Attr None \<and> proc_world d = w \<and> (r \<noteq> Blocks \<longrightarrow> exit_code d = returncode ops p w) \<and>
      conn_state d = (case r of Returns _ \<Rightarrow> DISCONNECTED | Raises _ \<Rightarrow> CONNECTED | Blocks \<Rightarrow> DISCONNECTING)"
    using assms
    by (cases r) (simp_all add: d_def conn_close_def close_body_def process_close_hook_def on_proc_def action_simps)
  then show thesis using that by blast
qed

lemma process_open_returns:
  fixes c :: "('w, 'p, 'i, 'o) process_connection"
  assumes "conn_open (process_open_hook ops) c = (Returns (), c')" and "conn_state c = DISCONNECTED"
  shows "conn_state c' = CONNECTED \<and> exit_code c' = None \<and>
    (\<exists>p out inp. process c' = Some p \<and> stdout c' = Attr (Some out) \<and> stdin c' = Attr (Some inp) \<and>
       proc_stdout ops p (proc_world c') = Some out \<and> proc_stdin ops p (proc_world c') = Some inp)"
proof -
  obtain d where d: "process_open_hook ops (set_state CONNECTING c) = (Returns (), d)" "c' = set_state CONNECTED d"
    by (rule conn_open_returns[OF assms])
  have "exit_code d = None \<and>
    (\<exists>p out inp. process d = Some p \<and> stdout d = Attr (Some out) \<and> stdin d = Attr (Some inp) \<and>
       proc_stdout ops p (proc_world d) = Some out \<and> proc_stdin ops p (proc_world d) = Some inp)"
    using d(1)
    by (auto simp: process_open_hook_def attach_streams_def on_proc_def modify_def
        elim!: and_then_returns split: prod.splits option.splits)
  then show ?thesis using d(2) by simp
qed

lemma end_process_returns:
  assumes "end_process ops p w = (Returns (), w')"
  obtains w1 w2 where "terminate_process ops p w = (Returns (), w1)" and "wait_for_5 ops p w1 = (Returns (), w2)"
    and "if returncode ops p w2 = None
         then \<exists>w3. kill_process ops p w2 = (Returns (), w3) \<and> wait_process ops p w3 = (Returns (), w')
         else w' = w2"
  using assms
  by (auto simp: end_process_def elim!: and_then_returns split: if_splits)

section \<open>Properties\<close>

text \<open>
  C35. One life of a process connection. A successful \<^verbatim>\<open>open()\<close> gives a connected connection over the
  streams of a started process, without an exit code. A successful \<^verbatim>\<open>close()\<close> after that leaves the
  process ended and its exit code recorded: it was asked to terminate, waited for, and killed and
  waited for again exactly if it had no exit code by then. Afterwards reads and writes fail.
\<close>

theorem process_life:
  fixes c :: "('w, 'p, 'i, 'o) process_connection"
  assumes "conn_state c = DISCONNECTED" and "conn_open (process_open_hook ops) c = (Returns (), c1)"
    and "conn_close (process_close_hook ops) c1 = (Returns (), c2)"
    and "\<forall>p w w'. wait_process ops p w = (Returns (), w') \<longrightarrow> returncode ops p w' \<noteq> None"
  shows "conn_state c1 = CONNECTED \<and> exit_code c1 = None \<and> conn_state c2 = DISCONNECTED \<and>
    (\<exists>p w1 w2. process c1 = Some p \<and>
       terminate_process ops p (proc_world c1) = (Returns (), w1) \<and> wait_for_5 ops p w1 = (Returns (), w2) \<and>
       (if returncode ops p w2 = None
        then \<exists>w3. kill_process ops p w2 = (Returns (), w3) \<and> wait_process ops p w3 = (Returns (), proc_world c2)
        else proc_world c2 = w2) \<and>
       exit_code c2 = returncode ops p (proc_world c2)) \<and>
    exit_code c2 \<noteq> None \<and> process c2 = None \<and>
    process_read ops c2 = (Raises AssertionError, c2) \<and> process_write ops data c2 = (Raises AssertionError, c2)"
proof -
  obtain p where c1: "conn_state c1 = CONNECTED" "exit_code c1 = None" "process c1 = Some p"
    using process_open_returns[OF assms(2,1)] by blast
  obtain r w where e: "end_process ops p (proc_world c1) = (r, w)" by (cases "end_process ops p (proc_world c1)")
  from process_close[OF c1(1,3) e] obtain d where d: "conn_close (process_close_hook ops) c1 = (r, d)"
      "process d = None" "stdin d = Attr None" "stdout d = Attr None" "proc_world d = w"
      "r \<noteq> Blocks \<Longrightarrow> exit_code d = returncode ops p w"
      "conn_state d = (case r of Returns _ \<Rightarrow> DISCONNECTED | Raises _ \<Rightarrow> CONNECTED | Blocks \<Rightarrow> DISCONNECTING)"
    by metis
  have r: "r = Returns ()" "d = c2" using d(1) assms(3) by simp_all
  from end_process_returns[OF e[unfolded r(1)]] obtain w1 w2
    where w: "terminate_process ops p (proc_world c1) = (Returns (), w1)" "wait_for_5 ops p w1 = (Returns (), w2)"
      "if returncode ops p w2 = None
       then \<exists>w3. kill_process ops p w2 = (Returns (), w3) \<and> wait_process ops p w3 = (Returns (), w)
       else w = w2" .
  have code: "exit_code c2 = returncode ops p w" "returncode ops p w \<noteq> None"
    using d(6) r w(3) assms(4) by (auto split: if_splits)
  show ?thesis
    using c1 d(2-5,7) r w code by (auto simp: process_read_def process_write_def)
qed

text \<open>
  A \<^verbatim>\<open>close()\<close> that is interrupted while it waits for the process gives the process up: the
  connection is \<open>CONNECTED\<close> again, but without process and streams, and the next \<^verbatim>\<open>close()\<close> succeeds
  at once, without an exit code and without having touched the process, which may still run.
\<close>

theorem interrupted_close_gives_up:
  fixes c :: "('w, 'p, 'i, 'o) process_connection"
  assumes "conn_state c = CONNECTED" and "process c = Some p"
    and "end_process ops p (proc_world c) = (Raises e, w)" and "returncode ops p w = None"
  shows "\<exists>c1 c2. conn_close (process_close_hook ops) c = (Raises e, c1) \<and> conn_state c1 = CONNECTED \<and>
    process_read ops c1 = (Raises AssertionError, c1) \<and>
    conn_close (process_close_hook ops) c1 = (Returns (), c2) \<and> conn_state c2 = DISCONNECTED \<and>
    exit_code c2 = None \<and> proc_world c2 = w"
proof -
  obtain c1 where c1: "conn_close (process_close_hook ops) c = (Raises e, c1)"
      "process c1 = None" "stdout c1 = Attr None" "proc_world c1 = w" "exit_code c1 = None" "conn_state c1 = CONNECTED"
    by (rule process_close[OF assms(1-3)]) (simp_all add: assms(4))
  define c2 where "c2 = set_state DISCONNECTED (set_state DISCONNECTING c1)"
  have "conn_close (process_close_hook ops) c1 = (Returns (), c2)"
    using c1 by (simp add: c2_def conn_close_def close_body_def process_close_hook_def action_simps)
  then show ?thesis
    using c1 by (intro exI[of _ c1] exI[of _ c2]) (simp add: c2_def process_read_def)
qed

section \<open>Witnesses\<close>

text \<open>
  A process that ignores \<^verbatim>\<open>SIGTERM\<close>: the world is its exit code. The second system is one where the
  wait is cancelled.
\<close>

definition stubborn :: "(int option, unit, unit, unit, unit) process_ops" where
  "stubborn = \<lparr>make_descriptor = ret (), start_in_nursery = (\<lambda>_ _. (Returns (), None)),
     proc_stdout = (\<lambda>_ _. Some ()), proc_stdin = (\<lambda>_ _. Some ()), terminate_process = (\<lambda>_. ret ()),
     kill_process = (\<lambda>_ _. (Returns (), Some (-9))), wait_for_5 = (\<lambda>_. ret ()),
     wait_process = (\<lambda>_ w. case w of None \<Rightarrow> (Blocks, w) | Some _ \<Rightarrow> (Returns (), w)), returncode = (\<lambda>_ w. w),
     out_receive = (\<lambda>_. ret []), in_send_all = (\<lambda>_ _. ret ())\<rparr>"

definition interrupted :: "(int option, unit, unit, unit, unit) process_ops" where
  "interrupted = stubborn\<lparr>wait_for_5 := (\<lambda>_. throw Cancelled)\<rparr>"

definition new_process :: "(int option, unit, unit, unit) process_connection" where
  "new_process = init_process_connection (Some 0)"

lemma new_process_simps [simp]:
  "conn_state new_process = DISCONNECTED" "process new_process = None" "proc_world new_process = Some 0"
  by (simp_all add: new_process_def init_process_connection_def connection.extend_def init_connection_def)

definition running :: "(int option, unit, unit, unit) process_connection" where
  "running = snd (conn_open (process_open_hook stubborn) new_process)"

lemma running_opened:
  "conn_open (process_open_hook stubborn) new_process = (Returns (), running)"
  "conn_state running = CONNECTED" "process running = Some ()" "proc_world running = None"
  by (simp_all add: running_def conn_open_def open_body_def process_open_hook_def attach_streams_def on_proc_def
      stubborn_def action_simps)

theorem process_life_witness:
  "\<exists>c2. conn_close (process_close_hook stubborn) running = (Returns (), c2) \<and> conn_state c2 = DISCONNECTED \<and>
     exit_code c2 = Some (-9)"
proof -
  have e: "end_process stubborn () (proc_world running) = (Returns (), Some (-9))"
    by (simp add: end_process_def stubborn_def running_opened(4) action_simps)
  obtain c2 where c2: "conn_close (process_close_hook stubborn) running = (Returns (), c2)" "proc_world c2 = Some (-9)"
    using process_close[OF running_opened(2,3) e] by metis
  have waited: "\<forall>p w w'. wait_process stubborn p w = (Returns (), w') \<longrightarrow> returncode stubborn p w' \<noteq> None"
    by (auto simp: stubborn_def split: option.splits)
  obtain p where "exit_code c2 = returncode stubborn p (proc_world c2)" "conn_state c2 = DISCONNECTED"
    using process_life[OF new_process_simps(1) running_opened(1) c2(1) waited] by blast
  then show ?thesis using c2 by (simp add: stubborn_def)
qed

theorem interrupted_close_gives_up_witness:
  "\<exists>c1 c2. conn_close (process_close_hook interrupted) running = (Raises Cancelled, c1) \<and>
     conn_close (process_close_hook interrupted) c1 = (Returns (), c2) \<and> conn_state c2 = DISCONNECTED \<and>
     exit_code c2 = None"
proof -
  have "end_process interrupted () (proc_world running) = (Raises Cancelled, None)"
    by (simp add: end_process_def interrupted_def stubborn_def running_opened(4) action_simps)
  from interrupted_close_gives_up[OF running_opened(2,3) this] show ?thesis
    by (auto simp: interrupted_def stubborn_def)
qed

end
