(* ===== verification/Socket_Listeners.thy ===== *)
theory Socket_Listeners
  imports Trio_Listener Unix_Server
begin

text \<open>
  \<^verbatim>\<open>TCPSocketListener\<close> and \<^verbatim>\<open>UnixDomainSocketListener\<close> of \<^verbatim>\<open>listeners/socket.py\<close>, with \<^verbatim>\<open>serve_unix\<close> of \<^verbatim>\<open>connections/servers.py\<close>:
  listeners in the sense of \<open>Trio_Listener\<close> whose background task serves a socket. That of the former
  is Trio's \<^verbatim>\<open>serve_tcp\<close>, a parameter; that of the latter creates a server of \<open>Unix_Server\<close> and serves
  it, and the theory shows how listener, server and file system work together.

  The state joins that of the listener, the file system, and the servers of the task. Serving
  is Trio's \<^verbatim>\<open>serve_listeners\<close>: it reports \<^verbatim>\<open>started()\<close> when it begins, and closes the listeners it was
  given when it ends, by itself or because it was cancelled. All other steps are those of the
  listener alone. Nobody else works on the path in the meantime.
\<close>

section \<open>The tasks\<close>

record tcp_socket_listener =
  tcp_host :: string
  tcp_port :: int

definition init_tcp_socket_listener :: "string option \<Rightarrow> int option \<Rightarrow> tcp_socket_listener" where
  "init_tcp_socket_listener host port =
     \<lparr>tcp_host = (case host of None \<Rightarrow> [] | Some h \<Rightarrow> h), tcp_port = (case port of None \<Rightarrow> 0 | Some p \<Rightarrow> p)\<rparr>"

definition tcp_run :: "(int \<Rightarrow> string \<Rightarrow> 'a) \<Rightarrow> tcp_socket_listener \<Rightarrow> 'a" where
  "tcp_run serve_tcp self = serve_tcp (tcp_port self) (tcp_host self)"

definition open_unix_listeners ::
  "faults \<Rightarrow> bool \<Rightarrow> string \<Rightarrow> string \<Rightarrow> mode \<Rightarrow> int option \<Rightarrow> (unix_world, unix_listener list) action" where
  "open_unix_listeners fault af token path m b =
     and_then (create_listener fault af token path m b) (\<lambda>l. ret [l])"

definition serve_unix ::
  "(unix_listener list \<Rightarrow> (unix_world, unit) action) \<Rightarrow>
   faults \<Rightarrow> bool \<Rightarrow> string \<Rightarrow> string \<Rightarrow> mode \<Rightarrow> int option \<Rightarrow> (unix_world, unit) action" where
  "serve_unix serve_listeners fault af token path m b =
     and_then (open_unix_listeners fault af token path m b) serve_listeners"

text \<open>The constructor's arguments, and \<^verbatim>\<open>_run()\<close>, which serves with the default backlog.\<close>

record unix_socket_listener =
  listen_path :: string
  listen_mode :: mode

definition init_unix_socket_listener :: "string \<Rightarrow> mode option \<Rightarrow> unix_socket_listener" where
  "init_unix_socket_listener path m =
     \<lparr>listen_path = path, listen_mode = (case m of None \<Rightarrow> 0x1B6 | Some k \<Rightarrow> k)\<rparr>"

definition unix_run ::
  "(unix_listener list \<Rightarrow> (unix_world, unit) action) \<Rightarrow>
   faults \<Rightarrow> bool \<Rightarrow> string \<Rightarrow> unix_socket_listener \<Rightarrow> (unix_world, unit) action" where
  "unix_run serve_listeners fault af token self =
     serve_unix serve_listeners fault af token (listen_path self) (listen_mode self) None"

text \<open>What \<^verbatim>\<open>serve_listeners\<close> does with the listeners in the end.\<close>

fun close_servers :: "bool \<Rightarrow> unix_listener list \<Rightarrow> (unix_world, unit) action" where
  "close_servers af [] = ret ()"
| "close_servers af (l # ls) = and_then (aclose_unix no_faults af l) (\<lambda>_. close_servers af ls)"

section \<open>The listener at work\<close>

record serving =
  trio :: trio_listener
  world :: unix_world
  servers :: "unix_listener list"

definition init_serving :: "bool \<Rightarrow> unix_world \<Rightarrow> serving" where
  "init_serving n w = \<lparr>trio = init_trio_listener n, world = w, servers = []\<rparr>"

text \<open>
  The task's own steps: the server is created and \<^verbatim>\<open>started()\<close> reported, it cannot be created, it
  stops serving. Everything else is a step of the listener that leaves the task as it is, or
  starts it.
\<close>

inductive serving_step :: "bool \<Rightarrow> unix_socket_listener \<Rightarrow> serving \<Rightarrow> serving \<Rightarrow> bool" for af self where
  server_created:
    "the_task (trio s) = Starting \<Longrightarrow>
     open_unix_listeners fault af token (listen_path self) (listen_mode self) None (world s) = (Returns ls, w) \<Longrightarrow>
     serving_step af self s
       (s\<lparr>trio := report_started (trio s), world := w, servers := ls\<rparr>)"
| server_fails:
    "the_task (trio s) = Starting \<Longrightarrow> fault UnlinkTmp = None \<Longrightarrow> is_Exception e \<Longrightarrow>
     open_unix_listeners fault af token (listen_path self) (listen_mode self) None (world s) = (Raises e, w) \<Longrightarrow>
     serving_step af self s (s\<lparr>trio := end_task True (trio s), world := w\<rparr>)"
| serving_ends:
    "the_task (trio s) = Running \<Longrightarrow> (by_itself \<or> cancelled (trio s)) \<Longrightarrow>
     close_servers af (servers s) (world s) = (Returns (), w) \<Longrightarrow>
     serving_step af self s (s\<lparr>trio := end_task by_itself (trio s), world := w, servers := []\<rparr>)"
| listener_moves:
    "trio_step (trio s) t \<Longrightarrow> the_task t = the_task (trio s) \<or> the_task (trio s) = NoTask \<Longrightarrow>
     serving_step af self s (s\<lparr>trio := t\<rparr>)"

inductive serving_reachable ::
  "bool \<Rightarrow> unix_socket_listener \<Rightarrow> bool \<Rightarrow> unix_world \<Rightarrow> serving \<Rightarrow> bool" for af self n w where
  serving_starts: "serving_reachable af self n w (init_serving n w)"
| serving_moves: "serving_reachable af self n w s \<Longrightarrow> serving_step af self s s' \<Longrightarrow>
    serving_reachable af self n w s'"

section \<open>Lemmas\<close>

text \<open>The listener part of a step is a step of the listener.\<close>

lemma serving_step_trio:
  assumes "serving_step af self s s'"
  shows "trio_step (trio s) (trio s')"
  using assms
proof (cases rule: serving_step.cases)
  case (server_created fault token ls w)
  then show ?thesis by (auto intro: started)
next
  case (server_fails fault token e w)
  then show ?thesis by (auto intro: task_ends)
next
  case (serving_ends by_itself w)
  then show ?thesis by (cases by_itself) (auto intro: task_ends task_cancelled)
qed simp

lemma serving_reachable_trio: "serving_reachable af self n w s \<Longrightarrow> trio_reachable n (trio s)"
  by (induction rule: serving_reachable.induct)
    (auto simp: init_serving_def intro: fresh moved serving_step_trio)

text \<open>A world in which nobody serves: that of the beginning, with or without what was at the path.\<close>

definition idle_world :: "string \<Rightarrow> unix_world \<Rightarrow> unix_world \<Rightarrow> bool" where
  "idle_world path w0 w \<longleftrightarrow> wf_world w \<and> socks w = socks w0 \<and>
     (files w = files w0 \<or> files w = (files w0)(path := None))"

definition serving_inv :: "bool \<Rightarrow> unix_socket_listener \<Rightarrow> unix_world \<Rightarrow> serving \<Rightarrow> bool" where
  "serving_inv af self w0 s \<longleftrightarrow>
     (if the_task (trio s) = Running
      then af \<and> (\<exists>v. idle_world (listen_path self) w0 v \<and> servers s = [server_of (listen_path self) v] \<and>
             world s = served (listen_path self) (listen_mode self) v)
      else servers s = [] \<and> idle_world (listen_path self) w0 (world s))"

lemma listeners_returns:
  assumes "wf_world w" and "open_unix_listeners fault af token path m b w = (Returns ls, w')"
  shows "af \<and> ls = [server_of path w] \<and> w' = served path m w"
proof -
  obtain l where l: "create_listener fault af token path m b w = (Returns l, w')" "ls = [l]"
    using assms(2) by (auto simp: open_unix_listeners_def ret_def elim!: and_then_returns)
  have af using l(1) by (auto simp: create_listener_def create_unix_def split: if_splits)
  then show ?thesis using create_success[OF assms(1)] l by (auto simp: create_listener_def)
qed

lemma listeners_raises:
  assumes "wf_world w" and "fault UnlinkTmp = None"
    and "open_unix_listeners fault af token path m b w = (Raises e, w')"
  shows "files w' = files w \<and> socks w' = socks w \<and> next_free w \<le> next_free w'"
proof -
  obtain r where r: "create_listener fault af token path m b w = (r, w')" "\<forall>self. r \<noteq> Returns self"
    using assms(3) by (auto simp: open_unix_listeners_def action_simps split: prod.splits outcome.splits)
  then show ?thesis
    using create_raises[where fault = fault, OF assms(1,2) r(1)[unfolded create_listener_def]] by blast
qed

lemma serving_inv_step:
  assumes "serving_step af self s s'" and "serving_inv af self w0 s"
  shows "serving_inv af self w0 s'"
  using assms(1)
proof (cases rule: serving_step.cases)
  case (server_created fault token ls w)
  have idle: "idle_world (listen_path self) w0 (world s)"
    using assms(2) server_created(2) by (simp add: serving_inv_def)
  then have "wf_world (world s)" by (simp add: idle_world_def)
  from listeners_returns[OF this server_created(3)] idle show ?thesis
    by (auto simp: serving_inv_def server_created(1) report_started_def)
next
  case (server_fails fault e token w)
  have idle: "idle_world (listen_path self) w0 (world s)"
    using assms(2) server_fails(2) by (simp add: serving_inv_def)
  then have wf: "wf_world (world s)" by (simp add: idle_world_def)
  have w: "files w = files (world s)" "socks w = socks (world s)" "next_free (world s) \<le> next_free w"
    using listeners_raises[OF wf server_fails(3,5)] by simp_all
  have "wf_world w" by (rule wf_fewer[OF wf]) (use w wf_worldD(5)[OF wf] in auto)
  then have "idle_world (listen_path self) w0 w" using idle w by (auto simp: idle_world_def)
  then show ?thesis using assms(2) server_fails(2) by (simp add: serving_inv_def server_fails(1))
next
  case (serving_ends by_itself w)
  then obtain v where v: "af" "idle_world (listen_path self) w0 v" "servers s = [server_of (listen_path self) v]"
      "world s = served (listen_path self) (listen_mode self) v"
    using assms(2) by (auto simp: serving_inv_def)
  have wf: "wf_world v" using v(2) by (simp add: idle_world_def)
  obtain n where n: "aclose_unix no_faults True (server_of (listen_path self) v) (world s) =
      (Returns (), v\<lparr>files := (files v)(listen_path self := None), next_free := n\<rparr>)" "next_free v \<le> n"
    using close_served[OF wf] v(4) by metis
  then have w: "w = v\<lparr>files := (files v)(listen_path self := None), next_free := n\<rparr>"
    using serving_ends(4) v(1,3) by (simp add: action_simps)
  have "wf_world w"
    by (rule wf_fewer[OF wf]) (use w n(2) wf_worldD(5)[OF wf] in \<open>auto split: if_splits\<close>)
  then have "idle_world (listen_path self) w0 w" using v(2) w by (auto simp: idle_world_def)
  then show ?thesis by (simp add: serving_inv_def serving_ends(1))
next
  case (listener_moves t)
  have "the_task t \<noteq> Running" if "the_task (trio s) = NoTask"
    using listener_moves(2) that
    by (cases rule: trio_step.cases) (auto simp: start_task_def report_started_def begin_close_def cancel_scope_def)
  then have "(the_task t = Running) = (the_task (trio s) = Running)" using listener_moves(3) by auto
  then show ?thesis using assms(2) by (simp add: serving_inv_def listener_moves(1))
qed

lemma serving_reachable_inv:
  "serving_reachable af self n w s \<Longrightarrow> wf_world w \<Longrightarrow> serving_inv af self w s"
proof (induction rule: serving_reachable.induct)
  case serving_starts
  then show ?case by (simp add: init_serving_def serving_inv_def idle_world_def)
qed (blast intro: serving_inv_step)

section \<open>Properties\<close>

text \<open>
  C25. The listener and its socket. In every reachable state of a Unix domain socket listener,
  whatever system calls fail while its server is created: the listener itself is in a state of
  \<open>Trio_Listener\<close>; while it is open and its task runs, clients can connect to its path, whose file
  has the requested permissions; and when it has no task, in particular when it is closed, no
  socket of it is left and no path has changed but its own, where at most what was there before
  has gone.
\<close>

theorem unix_listener_serves:
  assumes "serving_reachable af self n w s" and "wf_world w"
  shows "trio_reachable n (trio s) \<and>
    (lstate (trio s) = OPEN \<and> the_task (trio s) = Running \<longrightarrow>
       sys_connect (listen_path self) (world s) = (Returns (), world s) \<and>
       map_option file_mode (files (world s) (listen_path self)) = Some (listen_mode self)) \<and>
    (the_task (trio s) = NoTask \<longrightarrow>
       socks (world s) = socks w \<and>
       (files (world s) = files w \<or> files (world s) = (files w)(listen_path self := None)))"
proof -
  have inv: "serving_inv af self w s" by (rule serving_reachable_inv[OF assms])
  have "sys_connect (listen_path self) (world s) = (Returns (), world s) \<and>
      map_option file_mode (files (world s) (listen_path self)) = Some (listen_mode self)"
    if "the_task (trio s) = Running"
    using inv that live_served by (auto simp: serving_inv_def sys_connect_def served_def sock_file_def live_def)
  then show ?thesis
    using inv serving_reachable_trio[OF assms(1)]
    by (cases "the_task (trio s)") (auto simp: serving_inv_def idle_world_def)
qed

section \<open>Witnesses\<close>

text \<open>The listener is opened and its server created; the stale socket at the path is replaced.\<close>

theorem unix_listener_serves_witness:
  "\<exists>s. serving_reachable True (init_unix_socket_listener ''/run/s'' None) True var_run s \<and>
     lstate (trio s) = OPEN \<and> sys_connect ''/run/s'' (world s) = (Returns (), world s)"
proof -
  let ?self = "init_unix_socket_listener ''/run/s'' None"
  let ?s0 = "init_serving True var_run"
  let ?s1 = "?s0\<lparr>trio := start_task (set_lstate PREPARING (trio ?s0))\<rparr>"
  have "serving_step True ?self ?s0 ?s1"
    by (rule listener_moves) (auto simp: init_serving_def intro: open_call)
  then have r1: "serving_reachable True ?self True var_run ?s1" by (rule serving_moves[OF serving_starts])
  have "open_unix_listeners no_faults True ''a1b2c3d4'' (listen_path ?self) (listen_mode ?self) None (world ?s1) =
      (Returns [server_of ''/run/s'' var_run], served ''/run/s'' 0x1B6 var_run)"
    using var_run_created
    by (simp add: open_unix_listeners_def init_unix_socket_listener_def init_serving_def action_simps)
  from server_created[OF _ this]
  obtain s2 where "serving_step True ?self ?s1 s2" and s2: "trio s2 = report_started (trio ?s1)"
    by (fastforce simp: init_serving_def start_task_def)
  then have r2: "serving_reachable True ?self True var_run s2" using serving_moves[OF r1] by blast
  define s3 where "s3 = s2\<lparr>trio := session_of (init_trio_listener True)\<rparr>"
  have "trio_step (trio s2) (session_of (init_trio_listener True))"
    unfolding s2 session_of_def by (simp add: init_serving_def) (rule open_returns, simp_all add: report_started_def)
  then have "serving_step True ?self s2 s3"
    unfolding s3_def by (rule listener_moves) (simp add: s2 report_started_def)
  then have r3: "serving_reachable True ?self True var_run s3" by (rule serving_moves[OF r2])
  show ?thesis
    using unix_listener_serves[OF r3 var_run_wf] r3
    by (intro exI[of _ s3]) (simp add: s3_def init_unix_socket_listener_def)
qed

end
