(* ===== verification/Middleware.thy ===== *)
theory Middleware
  imports Channels Hexdump
begin

text \<open>
  The package \<^verbatim>\<open>connections/middleware\<close>: proxies around a connection (base.py), the logging
  middleware and its formatters (log.py), the read-only and the write-only middleware.

  A connection is the record \<open>rw_ops\<close> of its operations; the proxy forwards all that it does not
  override. The log writers act on a state of their own, \<open>'l\<close>, next to that of the connection.
\<close>

section \<open>Proxies\<close>

text \<open>
  \<^verbatim>\<open>__aenter__\<close>: objects by their identities. The proxy stands in for the wrapped object where that
  would return itself.
\<close>

definition proxy_aenter :: "nat \<Rightarrow> nat \<Rightarrow> ('c, nat) action \<Rightarrow> ('c, nat) action" where
  "proxy_aenter self wrapped aenter =
     and_then aenter (\<lambda>result. ret (if result = wrapped then self else result))"

definition read_only :: "('c, 'r) rw_ops \<Rightarrow> ('c, 'r) rw_ops" where
  "read_only ops = ops\<lparr>rw_write := (\<lambda>_. ret ())\<rparr>"

definition write_only :: "('c, 'r) rw_ops \<Rightarrow> ('c, 'r) rw_ops" where
  "write_only ops = ops\<lparr>rw_read := block\<rparr>"

section \<open>Formatters\<close>

text \<open>A formatter is a generator: it yields lines and may then raise.\<close>

type_synonym 'r formatter = "'r \<Rightarrow> string list \<times> exn option"

text \<open>\<^verbatim>\<open>line[line.index(":") + 1:]\<close>; \<^verbatim>\<open>index\<close> raises where there is no colon.\<close>

definition after_colon :: "string \<Rightarrow> exn + string" where
  "after_colon line =
     (case partition_on CHR '':'' line of
        (_, True, t) \<Rightarrow> Inr t
      | (_, False, _) \<Rightarrow> Inl (ValueError ''substring not found''))"

fun strip_addresses :: "string list \<Rightarrow> string list \<times> exn option" where
  "strip_addresses [] = ([], None)"
| "strip_addresses (l # ls) =
     (case after_colon l of
        Inl e \<Rightarrow> ([], Some e)
      | Inr t \<Rightarrow> (case strip_addresses ls of (ts, x) \<Rightarrow> (t # ts, x)))"

definition format_bytes :: "bytes formatter" where
  "format_bytes obj =
     (case hexdump (Data (Binary obj) :: unit dump_input) ''generator'' of
        Some (Inr (Lines ls)) \<Rightarrow> strip_addresses ls
      | Some (Inr (Single s)) \<Rightarrow> strip_addresses (map (\<lambda>c. [c]) s)
      | Some (Inl e) \<Rightarrow> ([], Some e)
      | None \<Rightarrow> ([], None))"

text \<open>A string is an iterable of its characters: the lines of its log are single characters.\<close>

definition format_string :: "string formatter" where
  "format_string obj = (map (\<lambda>c. [c]) obj, None)"

text \<open>\<^verbatim>\<open>format_object_for_logging\<close>: by the class of the object; any other object by its \<^verbatim>\<open>repr\<close>.\<close>

datatype loggable = LogText string | LogBytes bytes | LogOther string

fun format_object :: "loggable formatter" where
  "format_object (LogText s) = format_string s"
| "format_object (LogBytes b) = format_bytes b"
| "format_object (LogOther r) = ([r], None)"

definition prefix_formatter :: "'r formatter \<Rightarrow> string \<Rightarrow> 'r formatter" where
  "prefix_formatter formatter pre obj = (case formatter obj of (ls, x) \<Rightarrow> (map (append pre) ls, x))"

definition default_formatters :: "bytes formatter \<times> bytes formatter" where
  "default_formatters = (prefix_formatter format_bytes ''<-- '', prefix_formatter format_bytes ''--> '')"

section \<open>Logging\<close>

text \<open>\<^verbatim>\<open>create()\<close> takes one writer or formatter, or a pair of them.\<close>

datatype 'a one_or_two = One 'a | Two 'a 'a

fun both :: "'a one_or_two \<Rightarrow> 'a \<times> 'a" where
  "both (One x) = (x, x)"
| "both (Two x y) = (x, y)"

definition on_left :: "('c, 'a) action \<Rightarrow> ('c \<times> 'l, 'a) action" where
  "on_left m = (\<lambda>(c, l). case m c of (r, c') \<Rightarrow> (r, (c', l)))"

definition on_right :: "('l, 'a) action \<Rightarrow> ('c \<times> 'l, 'a) action" where
  "on_right m = (\<lambda>(c, l). case m l of (r, l') \<Rightarrow> (r, (c, l')))"

fun write_lines :: "(string \<Rightarrow> ('l, unit) action) \<Rightarrow> string list \<Rightarrow> exn option \<Rightarrow> ('l, unit) action" where
  "write_lines print [] x = (case x of None \<Rightarrow> ret () | Some e \<Rightarrow> throw e)"
| "write_lines print (l # ls) x = and_then (print l) (\<lambda>_. write_lines print ls x)"

definition log_object :: "(string \<Rightarrow> ('l, unit) action) \<Rightarrow> 'r formatter \<Rightarrow> 'r \<Rightarrow> ('c \<times> 'l, unit) action" where
  "log_object print format obj = on_right (case format obj of (ls, x) \<Rightarrow> write_lines print ls x)"

definition logging ::
  "(string \<Rightarrow> ('l, unit) action) one_or_two \<Rightarrow> 'r formatter one_or_two \<Rightarrow> ('c, 'r) rw_ops \<Rightarrow> ('c \<times> 'l, 'r) rw_ops" where
  "logging writer formatter ops =
     (let (print_read, print_write) = both writer; (format_read, format_write) = both formatter in
      \<lparr>rw_read = and_then (on_left (rw_read ops))
          (\<lambda>result. and_then (log_object print_read format_read result) (\<lambda>_. ret result)),
       rw_write = (\<lambda>data. and_then (log_object print_write format_write data)
          (\<lambda>_. on_left (rw_write ops data))),
       rw_close = on_left (rw_close ops),
       rw_broadcast = (\<lambda>data. on_left (rw_broadcast ops data))\<rparr>)"

section \<open>Lemmas\<close>

lemma write_lines_quiet:
  assumes "\<And>s l. fst (print s l) = Returns ()"
  shows "write_lines print ls None l = (Returns (), fold (\<lambda>s l. snd (print s l)) ls l)"
proof (induction ls arbitrary: l)
  case (Cons s ls)
  obtain l' where "print s l = (Returns (), l')" using assms by (metis prod.collapse)
  then show ?case using Cons by (simp add: action_simps)
qed (simp add: action_simps)

lemma after_colon_line:
  "after_colon (line_of a d) = Inr ('' '' @ hex_part d @ replicate (padding d) CHR '' '' @ map printable d)"
proof -
  have "CHR '':'' \<notin> set (hex08 (a * 16))" using hex08_clean by blast
  from partition_on_sep[OF this] show ?thesis by (simp add: after_colon_def line_of_def)
qed

lemma strip_layout_addresses:
  "strip_addresses (layout a ds) =
    (map (\<lambda>d. '' '' @ hex_part d @ replicate (padding d) CHR '' '' @ map printable d) ds, None)"
  by (induction a ds rule: layout.induct) (simp_all add: after_colon_line)

lemma format_bytes_lines:
  "format_bytes data =
    (map (\<lambda>d. '' '' @ hex_part d @ replicate (padding d) CHR '' '' @ map printable d) (chop 16 data), None)"
  by (simp add: format_bytes_def hexdump_def dumpgen_layout strip_layout_addresses)

text \<open>The lines of a formatter of bytes with a prefix of four characters.\<close>

lemma prefixed_lines:
  assumes "length pre = 4"
  shows "\<exists>ls. prefix_formatter format_bytes pre data = (ls, None) \<and> length ls = (length data + 15) div 16 \<and>
     (\<forall>l \<in> set ls. take 5 l = pre @ '' '' \<and> 56 \<le> length l \<and> length l \<le> 71)"
proof -
  let ?line = "\<lambda>d. '' '' @ hex_part d @ replicate (padding d) CHR '' '' @ map printable d"
  have "take 5 (pre @ ?line d) = pre @ '' '' \<and> 56 \<le> length (pre @ ?line d) \<and> length (pre @ ?line d) \<le> 71"
    if "d \<in> set (chop 16 data)" for d
  proof -
    have d: "0 < length d" "length d \<le> 16" using chop_sizes[OF _ that] by auto
    then have "d \<noteq> []" by auto
    then have "length (hex_part d) + padding d = 50" using columns d(2) by blast
    moreover have "Suc 0 \<le> length d" using d(1) by linarith
    ultimately have "51 \<le> length (hex_part d) + (padding d + length d)"
      "length (hex_part d) + (padding d + length d) \<le> 66" using d(2) by linarith+
    then show ?thesis using assms by simp
  qed
  then show ?thesis using length_chop[of 16 data] by (auto simp: prefix_formatter_def format_bytes_lines)
qed

section \<open>Properties\<close>

text \<open>
  C38. Logging is transparent. With formatters that do not raise and writers that return, a logged
  connection reads, writes, closes and broadcasts with the outcomes and the effects of the wrapped
  one. Each object read, and each object about to be written, has been given to its writer line by
  line; a read that does not return data logs nothing, and neither does closing or broadcasting.
\<close>

theorem logging_transparent:
  assumes "both writer = (print_read, print_write)" and "both formatter = (format_read, format_write)"
    and "\<And>s l. fst (print_read s l) = Returns ()" and "\<And>s l. fst (print_write s l) = Returns ()"
    and "\<And>x. snd (format_read x) = None" and "\<And>x. snd (format_write x) = None"
  shows "rw_read (logging writer formatter ops) (c, l) =
      (case rw_read ops c of
         (Returns x, c') \<Rightarrow> (Returns x, (c', fold (\<lambda>s l. snd (print_read s l)) (fst (format_read x)) l))
       | (r, c') \<Rightarrow> (r, (c', l))) \<and>
    rw_write (logging writer formatter ops) data (c, l) =
      (case rw_write ops data c of
         (r, c') \<Rightarrow> (r, (c', fold (\<lambda>s l. snd (print_write s l)) (fst (format_write data)) l))) \<and>
    rw_close (logging writer formatter ops) (c, l) = (case rw_close ops c of (r, c') \<Rightarrow> (r, (c', l))) \<and>
    rw_broadcast (logging writer formatter ops) data (c, l) =
      (case rw_broadcast ops data c of (r, c') \<Rightarrow> (r, (c', l)))"
proof -
  have rd: "(case format_read x of (ls, e) \<Rightarrow> write_lines print_read ls e) =
      (\<lambda>l. (Returns (), fold (\<lambda>s l. snd (print_read s l)) (fst (format_read x)) l))" for x
    using write_lines_quiet[of print_read, OF assms(3)] assms(5)[of x] by (cases "format_read x") auto
  have wr: "(case format_write data of (ls, e) \<Rightarrow> write_lines print_write ls e) =
      (\<lambda>l. (Returns (), fold (\<lambda>s l. snd (print_write s l)) (fst (format_write data)) l))"
    using write_lines_quiet[of print_write, OF assms(4)] assms(6)[of data] by (cases "format_write data") auto
  show ?thesis
    using rd wr
    by (auto simp: logging_def assms(1,2) action_simps on_left_def on_right_def log_object_def
        split: prod.splits outcome.splits)
qed

text \<open>
  C39. What is logged of bytes, read or written: one line per sixteen bytes, the prefix of the
  direction, the hexadecimal columns and the printable column without the address, of between 56 and
  71 characters; nothing is raised.
\<close>

theorem default_log_lines:
  "(\<exists>ls. fst default_formatters data = (ls, None) \<and> length ls = (length data + 15) div 16 \<and>
     (\<forall>l \<in> set ls. take 5 l = ''<--  '' \<and> 56 \<le> length l \<and> length l \<le> 71)) \<and>
   (\<exists>ls. snd default_formatters data = (ls, None) \<and> length ls = (length data + 15) div 16 \<and>
     (\<forall>l \<in> set ls. take 5 l = ''-->  '' \<and> 56 \<le> length l \<and> length l \<le> 71))"
  using prefixed_lines[of "''<-- ''" data] prefixed_lines[of "''--> ''" data]
  by (simp add: default_formatters_def)

text \<open>
  The two restrictions. A read-only connection swallows what is written, a write-only one never
  returns from a read, and either leaves the other direction, \<^verbatim>\<open>close()\<close> and \<^verbatim>\<open>broadcast()\<close> as they
  are: a read-only connection still broadcasts.
\<close>

theorem restricted_connections:
  "rw_write (read_only ops) data c = (Returns (), c) \<and> rw_read (read_only ops) = rw_read ops \<and>
   rw_read (write_only ops) c = (Blocks, c) \<and> rw_write (write_only ops) = rw_write ops \<and>
   rw_broadcast (read_only ops) = rw_broadcast ops \<and> rw_close (read_only (write_only ops)) = rw_close ops \<and>
   read_only (write_only ops) = write_only (read_only ops)"
  by (simp add: read_only_def write_only_def action_simps)

section \<open>Witnesses\<close>

definition echo_ops :: "(bytes, bytes) rw_ops" where
  "echo_ops = \<lparr>rw_read = (\<lambda>c. (Returns c, [])), rw_write = (\<lambda>d c. (Returns (), c @ d)), rw_close = ret (),
     rw_broadcast = (\<lambda>_. ret ())\<rparr>"

definition collect :: "string \<Rightarrow> (string list, unit) action" where
  "collect s l = (Returns (), l @ [s])"

theorem logging_transparent_witness:
  "rw_write (logging (One collect) (One (\<lambda>d. ([''x''], None))) echo_ops) [1] ([7], []) = (Returns (), ([7, 1], [''x'']))"
  using logging_transparent[of "One collect" collect collect "One (\<lambda>d. ([''x''], None))" "\<lambda>d. ([''x''], None)"
      "\<lambda>d. ([''x''], None)" echo_ops "[7]" "[]" "[1]"]
  by (simp add: collect_def echo_ops_def)

theorem default_log_lines_witness:
  "(\<exists>ls. fst default_formatters (replicate 17 0x41) = (ls, None) \<and> length ls = 2) \<and>
   (\<exists>ls. snd default_formatters (replicate 17 0x41) = (ls, None) \<and> length ls = 2)"
  using default_log_lines[of "replicate 17 0x41"] by auto

end
