(* ===== verification/Message_Loopback.thy ===== *)
theory Message_Loopback
  imports Channels Factory
begin

text \<open>
  How the parts work together: two message channels (\<^verbatim>\<open>channels/message.py\<close>) over the two ends of a
  loopback pair of channel connections (\<^verbatim>\<open>connections/factory.py\<close>, \<^verbatim>\<open>connections/channel.py\<close>), one
  of which is closed in the end by the methods of \<^verbatim>\<open>ConnectionBase\<close>.

  The locale \<open>closing_channel\<close> extends the contract of a memory channel by what Trio documents of
  closing its sending end: the items in it can still be received, then \<^verbatim>\<open>EndOfChannel\<close> is raised.
\<close>

section \<open>Memory channels that can be closed\<close>

lemma channel_more: "connection.more c = connection.more d \<Longrightarrow> net c = net d"
  by (cases c; cases d) simp

lemma net_set_state [simp]: "net (set_state s c) = net c"
  by (rule channel_more) simp

locale closing_channel = fifo_channel mem contents
  for mem :: "('q, 'd) memory_channel" and contents :: "'q \<Rightarrow> 'd list" +
  fixes tx_closed :: "'q \<Rightarrow> bool"
  assumes receive_keeps_closed: "tx_closed q \<Longrightarrow> mem_receive mem q = (r, q') \<Longrightarrow> tx_closed q'"
    and close_tx_closes: "mem_close_tx mem q = (Returns (), q') \<Longrightarrow> contents q' = contents q \<and> tx_closed q'"
    and receive_at_end: "contents q = [] \<Longrightarrow> tx_closed q \<Longrightarrow> \<exists>q'. mem_receive mem q = (Raises EndOfChannel, q')"
begin

text \<open>The second connection of the pair, once the first has closed its sending end.\<close>

definition fed :: "('d \<Rightarrow> bool) \<Rightarrow> ('q \<times> 'q) channel_connection \<Rightarrow> bool" where
  "fed falsy c \<longleftrightarrow> tx_closed (fst (net c)) \<and> (\<forall>d \<in> set (contents (fst (net c))). \<not> falsy d)"

lemma loopback_source:
  "chunk_source (channel_conn_read (snd (loopback_pair mem))) falsy (fed falsy) (\<lambda>c. contents (fst (net c)))"
proof (unfold_locales, goal_cases)
  case (1 c d ds)
  obtain q1 q2 where q: "net c = (q1, q2)" by (cases "net c")
  obtain q' where r: "mem_receive mem q1 = (Returns d, q')" "contents q' = ds"
    using receive_pops[of q1 d ds] 1(2) q by auto
  have "tx_closed q'" using receive_keeps_closed[OF _ r(1)] 1(1) q by (simp add: fed_def)
  then show ?case
    using 1 q r
    by (intro exI[of _ "c\<lparr>net := (q', q2)\<rparr>"])
      (simp add: channel_conn_read_def on_net_def loopback_pair_def on_first_def fed_def)
next
  case (2 c)
  obtain q1 q2 where q: "net c = (q1, q2)" by (cases "net c")
  obtain q' where "mem_receive mem q1 = (Raises EndOfChannel, q')"
    using receive_at_end[of q1] 2 q by (auto simp: fed_def)
  then show ?case
    using q
    by (intro exI[of _ "c\<lparr>net := (q', q2)\<rparr>"])
      (simp add: channel_conn_read_def on_net_def loopback_pair_def on_first_def)
qed

text \<open>Closing the first connection of the pair.\<close>

lemma close_first:
  assumes "conn_state c = CONNECTED"
    and "conn_close (channel_conn_close (fst (loopback_pair mem))) c = (Returns (), c')"
  shows "contents (fst (net c')) = contents (fst (net c)) \<and> tx_closed (fst (net c'))"
proof -
  obtain d where d: "channel_conn_close (fst (loopback_pair mem)) (set_state DISCONNECTING c) = (Returns (), d)"
      "c' = set_state DISCONNECTED d"
    by (rule conn_close_returns[OF assms(2,1)])
  obtain q1 q2 where q: "net c = (q1, q2)" by (cases "net c")
  obtain r q1' where s: "mem_close_tx mem q1 = (r, q1')" by (cases "mem_close_tx mem q1")
  have "r = Returns () \<and> fst (net d) = q1'"
    using d(1) q s
    by (cases r) (auto simp: channel_conn_close_def on_net_def loopback_pair_def on_first_def on_second_def
        action_simps split: prod.splits outcome.splits)
  then show ?thesis using close_tx_closes[of q1 q1'] s q d(2) by simp
qed

end

text \<open>A bounded queue with a flag for its sending end.\<close>

definition closable_queue :: "nat \<Rightarrow> ('d list \<times> bool, 'd) memory_channel" where
  "closable_queue n =
     \<lparr>mem_send = (\<lambda>d (q, cl). if cl then (Raises ClosedResourceError, (q, cl))
        else if length q < n then (Returns (), (q @ [d], cl)) else (Blocks, (q, cl))),
      mem_receive = (\<lambda>(q, cl). case q of
          d # ds \<Rightarrow> (Returns d, (ds, cl))
        | [] \<Rightarrow> if cl then (Raises EndOfChannel, ([], cl)) else (Blocks, ([], cl))),
      mem_close_tx = (\<lambda>(q, cl). (Returns (), (q, True))), mem_close_rx = ret ()\<rparr>"

interpretation closable: closing_channel "closable_queue n" fst snd
  by unfold_locales (auto simp: closable_queue_def split: if_splits list.splits)

section \<open>Message channels over the pair\<close>

text \<open>The methods of a channel connection, as a message channel sees them; it has no \<^verbatim>\<open>broadcast\<close>.\<close>

definition connection_methods ::
  "('q, 'd, 'd) channel_ops \<Rightarrow> ('q channel_connection, 'd) rw_ops" where
  "connection_methods ops =
     \<lparr>rw_read = channel_conn_read ops, rw_write = channel_conn_write ops,
      rw_close = conn_close (channel_conn_close ops),
      rw_broadcast = (\<lambda>_. throw (AttributeError ''broadcast''))\<rparr>"

lemma leaves_send_each:
  "(\<And>d. leaves_lifecycle (w d)) \<Longrightarrow> leaves_lifecycle (send_each w ds)"
  by (induction ds) (auto intro: leaves_and_then)

text \<open>Sending messages is writing their encodings.\<close>

lemma send_each_encoded:
  "send_each (message_channel_send self) ms ch = (Returns (), ch') \<Longrightarrow>
    \<exists>raws. list_all2 (\<lambda>m raw. encoder self m = Inr raw) ms raws \<and>
      send_each (rw_write (ops_of self)) raws (conn_of ch) = (Returns (), conn_of ch')"
proof (induction ms arbitrary: ch)
  case Nil
  then show ?case by (auto simp: action_simps)
next
  case (Cons m ms)
  obtain raw where raw: "encoder self m = Inr raw"
    using Cons.prems by (cases "encoder self m") (simp_all add: message_channel_send_def action_simps)
  obtain r c where w: "rw_write (ops_of self) raw (conn_of ch) = (r, c)" by fastforce
  have "message_channel_send self m ch = (r, ch\<lparr>conn_of := c\<rparr>)"
    using raw w by (simp add: message_channel_send_def on_conn_def action_simps)
  then have "r = Returns ()" and
    rest: "send_each (message_channel_send self) ms (ch\<lparr>conn_of := c\<rparr>) = (Returns (), ch')"
    using Cons.prems by (auto elim!: and_then_returns)
  obtain raws where "list_all2 (\<lambda>m raw. encoder self m = Inr raw) ms raws"
      "send_each (rw_write (ops_of self)) raws c = (Returns (), conn_of ch')"
    using Cons.IH[OF rest] by auto
  then show ?case using raw w \<open>r = Returns ()\<close>
    by (intro exI[of _ "raw # raws"]) (simp add: action_simps)
qed

lemma parse_encoded:
  assumes "\<And>m raw p. enc m = Inr raw \<Longrightarrow> \<exists>p'. parse raw p = (([m], None), p')"
  shows "list_all2 (\<lambda>m raw. enc m = Inr raw) ms raws \<Longrightarrow> parse_events parse p raws = map Inr ms"
proof (induction arbitrary: p rule: list_all2_induct)
  case (Cons m ms raw raws)
  then show ?case using assms[of m raw p] by auto
qed simp

section \<open>Properties\<close>

text \<open>
  C22. The parts together. Two message channels over the two connections of a loopback pair, and an
  encoder and a parser that belong together: whatever Alice sends before she closes her channel,
  Bob receives, message by message and in order, and his loop over the channel then ends
  normally. Nothing is assumed of the memory channels but the documented behaviour of Trio's.
\<close>

theorem messages_over_loopback:
  assumes mem: "closing_channel mem contents tx_closed"
    and alice: "init_message_channel (connection_methods (fst (loopback_pair mem))) pa enc = Inr alice"
    and bob: "init_message_channel (connection_methods (snd (loopback_pair mem))) (CallableParser parse) encb = Inr bob"
    and truthy: "\<forall>m raw. enc m = Inr raw \<longrightarrow> \<not> falsy raw"
    and decodes: "\<forall>m raw p. enc m = Inr raw \<longrightarrow> (\<exists>p'. parse raw p = (([m], None), p'))"
    and start: "flags_ok (conn_of ch)" "conn_state (conn_of ch) = CONNECTED" "contents (fst (net (conn_of ch))) = []"
    and sent: "send_each (message_channel_send alice) ms ch = (Returns (), ch')"
    and closed: "message_channel_aclose alice ch' = (Returns (), ch'')"
    and other: "pending chb = []" "net (conn_of chb) = net (conn_of ch'')"
  shows "drain (message_channel_receive bob falsy) chb = Some (ms, Returns ())"
proof -
  let ?first = "fst (loopback_pair mem)"
  have a: "ops_of alice = connection_methods ?first" "encoder alice = enc"
    using alice by (auto simp: init_message_channel_def split: sum.splits)
  have b: "ops_of bob = connection_methods (snd (loopback_pair mem))" "msg_parser bob = parse"
    using bob by (auto simp: init_message_channel_def parser_of_arg_def)
  obtain raws where raws: "list_all2 (\<lambda>m raw. enc m = Inr raw) ms raws"
      "send_each (channel_conn_write ?first) raws (conn_of ch) = (Returns (), conn_of ch')"
    using send_each_encoded[OF sent] by (auto simp: a connection_methods_def)
  have fifo: "fifo_channel mem contents" using mem by (rule closing_channel.axioms)
  have written: "contents (fst (net (conn_of ch'))) = raws"
    using fifo_channel.send_each_first[OF fifo raws(2)] start(3) by simp
  have "leaves_lifecycle (send_each (channel_conn_write ?first) raws)"
    by (rule leaves_send_each) (simp add: channel_conn_write_def)
  then have "conn_state (conn_of ch') = CONNECTED"
    using start(1,2) raws(2) by (metis leaves_lifecycle_def snd_conv)
  moreover have "conn_close (channel_conn_close ?first) (conn_of ch') = (Returns (), conn_of ch'')"
    using closed by (auto simp: message_channel_aclose_def a connection_methods_def on_conn_def split: prod.splits)
  ultimately have fin: "contents (fst (net (conn_of ch''))) = raws" "tx_closed (fst (net (conn_of ch'')))"
    using closing_channel.close_first[OF mem] written by blast+
  have "\<not> falsy raw" if "raw \<in> set raws" for raw
    using raws(1) that truthy by (auto simp: list_all2_conv_all_nth in_set_conv_nth)
  then have live: "closing_channel.fed contents tx_closed falsy (conn_of chb)"
    using fin other(2) by (simp add: closing_channel.fed_def[OF mem])
  note src = chunk_source.channel_source[OF closing_channel.loopback_source[OF mem, of falsy], of parse]
  have "channel_events parse (\<lambda>c. contents (fst (net c))) chb = map Inr ms"
    using fin(1) other parse_encoded[OF _ raws(1), of parse] decodes by (simp add: channel_events_def)
  then show ?thesis
    using message_source.drain_delivers[OF src, of chb] live
    by (simp add: message_channel_receive_def b connection_methods_def)
qed

section \<open>Witnesses\<close>

text \<open>Numbers sent as one-element lists over a queue of three; two messages and the closing.\<close>

definition queue_end :: "(nat list list \<times> bool) \<times> (nat list list \<times> bool) \<Rightarrow>
    (((nat list list \<times> bool) \<times> (nat list list \<times> bool)) channel_connection, unit, nat) inbound" where
  "queue_end qs = \<lparr>conn_of = set_state CONNECTED (connection.extend init_connection \<lparr>net = qs\<rparr>),
     parser_of = (), pending = []\<rparr>"

definition singleton_parser :: "(unit, nat list, nat) parser" where
  "singleton_parser d p = ((d, None), p)"

definition number_channel ::
  "('q, nat list, nat list) channel_ops \<Rightarrow> ('q channel_connection, unit, nat list, nat) message_channel" where
  "number_channel ops = \<lparr>ops_of = connection_methods ops, msg_parser = singleton_parser, encoder = (\<lambda>m. Inr [m])\<rparr>"

lemma init_number_channel:
  "init_message_channel (connection_methods ops) (CallableParser singleton_parser) (\<lambda>m. Inr [m]) = Inr (number_channel ops)"
  by (simp add: init_message_channel_def parser_of_arg_def number_channel_def)

lemma queue_end_simps:
  "conn_state (conn_of (queue_end qs)) = CONNECTED" "flags_ok (conn_of (queue_end qs))"
  "net (conn_of (queue_end qs)) = qs" "pending (queue_end qs) = []"
  by (simp_all add: queue_end_def connection.extend_def init_connection_def flags_ok_def)

theorem messages_over_loopback_witness:
  "drain (message_channel_receive (number_channel (snd (loopback_pair (closable_queue 3)))) (\<lambda>d. d = []))
     (queue_end (([[5], [6]], True), ([], False))) = Some ([5, 6], Returns ())"
proof -
  let ?alice = "number_channel (fst (loopback_pair (closable_queue 3)))"
  let ?ch = "queue_end (([], False), ([], False))"
  let ?c1 = "conn_of ?ch\<lparr>net := (([[5], [6]], False), ([], False))\<rparr>"
  have sent: "send_each (message_channel_send ?alice) [5, 6] ?ch = (Returns (), ?ch\<lparr>conn_of := ?c1\<rparr>)"
    by (simp add: message_channel_send_def number_channel_def connection_methods_def on_conn_def
        channel_conn_write_def on_net_def loopback_pair_def on_first_def closable_queue_def action_simps queue_end_simps)
  obtain c2 where close: "conn_close (channel_conn_close (fst (loopback_pair (closable_queue 3)))) ?c1 = (Returns (), c2)"
      "net c2 = (([[5], [6]], True), ([], False))"
    by (simp add: conn_close_def queue_end_simps close_body_def channel_conn_close_def on_net_def loopback_pair_def on_first_def
        on_second_def closable_queue_def action_simps)
  have "message_channel_aclose ?alice (?ch\<lparr>conn_of := ?c1\<rparr>) = (Returns (), ?ch\<lparr>conn_of := c2\<rparr>)"
    using close(1) by (simp add: message_channel_aclose_def number_channel_def connection_methods_def on_conn_def)
  from messages_over_loopback[where falsy = "\<lambda>d. d = []" and chb = "queue_end (([[5], [6]], True), ([], False))",
      OF closable.closing_channel_axioms init_number_channel init_number_channel
      _ _ queue_end_simps(2,1) _ sent this] close(2)
  show ?thesis by (simp add: singleton_parser_def queue_end_simps)
qed

end
