(* ===== verification/Capabilities.thy ===== *)
theory Capabilities
  imports Prelude
begin

text \<open>
  The class hierarchy of the connections and \<^verbatim>\<open>connections/capabilities.py\<close>.

  A class is a constructor of \<open>pyclass\<close> with its bases and the methods its body defines, as far as a
  capability, the abstractness of a class, or the life cycle depends on them; \<^verbatim>\<open>Generic\<close>, \<^verbatim>\<open>Protocol\<close>
  and \<^verbatim>\<open>object\<close> define none of these and are left out. Python's method resolution (the C3
  linearisation), its rule for abstract classes and \<^verbatim>\<open>isinstance\<close> are spelled out, so that what the
  code asks of a class can be computed.
\<close>

section \<open>Classes\<close>

datatype pyclass =
    Connection | ListenerConnection | ReadableConnection | WritableConnection | RWConnection
  | BroadcastConnection | BroadcastAddressOverride | CapabilitySupport
  | ConnectionBase | FDConnectionBase | TaskConnectionBase
  | FileConnection | FDConnection | DummyConnection | ChannelConnection | ProcessConnection
  | StreamConnectionBase | StreamConnection | StreamWrapperConnection | SerialPortConnection
  | InternetAddressMixin | SocketConnectionBase | TCPStreamConnection | IncomingTCPStreamConnection
  | TCPListenerConnection | UDPSocketConnection | UDPListenerConnection
  | BroadcastUDPListenerConnection | MulticastUDPListenerConnection | SubnetBindingUDPListenerConnection
  | UnixDomainSocketConnection

fun bases :: "pyclass \<Rightarrow> pyclass list" where
  "bases Connection = []"
| "bases ListenerConnection = [Connection]"
| "bases ReadableConnection = [Connection]"
| "bases WritableConnection = [Connection]"
| "bases RWConnection = [ReadableConnection, WritableConnection]"
| "bases BroadcastConnection = [Connection]"
| "bases BroadcastAddressOverride = []"
| "bases CapabilitySupport = []"
| "bases ConnectionBase = [Connection]"
| "bases FDConnectionBase = [ConnectionBase, RWConnection]"
| "bases TaskConnectionBase = [ConnectionBase]"
| "bases FileConnection = [FDConnectionBase]"
| "bases FDConnection = [FDConnectionBase]"
| "bases DummyConnection = [ConnectionBase, RWConnection]"
| "bases ChannelConnection = [ConnectionBase, RWConnection]"
| "bases ProcessConnection = [ConnectionBase, RWConnection]"
| "bases StreamConnectionBase = [ConnectionBase, RWConnection]"
| "bases StreamConnection = [StreamConnectionBase]"
| "bases StreamWrapperConnection = [StreamConnectionBase]"
| "bases SerialPortConnection = [StreamConnectionBase]"
| "bases InternetAddressMixin = []"
| "bases SocketConnectionBase = [ConnectionBase, InternetAddressMixin]"
| "bases TCPStreamConnection = [StreamConnectionBase, InternetAddressMixin]"
| "bases IncomingTCPStreamConnection = [StreamConnectionBase, InternetAddressMixin]"
| "bases TCPListenerConnection = [SocketConnectionBase, ListenerConnection]"
| "bases UDPSocketConnection = [SocketConnectionBase, RWConnection]"
| "bases UDPListenerConnection =
     [SocketConnectionBase, RWConnection, BroadcastConnection, BroadcastAddressOverride, CapabilitySupport]"
| "bases BroadcastUDPListenerConnection = [UDPListenerConnection]"
| "bases MulticastUDPListenerConnection = [UDPListenerConnection]"
| "bases SubnetBindingUDPListenerConnection = [UDPListenerConnection]"
| "bases UnixDomainSocketConnection = [StreamConnectionBase]"

text \<open>Methods and properties; a definition is decorated with \<^verbatim>\<open>@abstractmethod\<close> or not.\<close>

datatype pymethod =
    M_open | M_close | M_state | M_wait_until_connected | M_wait_until_disconnected
  | M_accept | M_read | M_write | M_broadcast | M_set_user_defined_broadcast_address
  | M_get_capabilities | M_open_hook | M_close_hook | M_get_file_object | M_run
  | M_create_stream | M_create_socket

datatype def_kind = Abstract | Concrete

fun own_methods :: "pyclass \<Rightarrow> (pymethod \<times> def_kind) list" where
  "own_methods Connection =
     [(M_open, Abstract), (M_close, Abstract), (M_state, Abstract),
      (M_wait_until_connected, Abstract), (M_wait_until_disconnected, Abstract)]"
| "own_methods ListenerConnection = [(M_accept, Abstract)]"
| "own_methods ReadableConnection = [(M_read, Abstract)]"
| "own_methods WritableConnection = [(M_write, Abstract)]"
| "own_methods BroadcastConnection = [(M_broadcast, Abstract)]"
| "own_methods BroadcastAddressOverride = [(M_set_user_defined_broadcast_address, Abstract)]"
| "own_methods CapabilitySupport = [(M_get_capabilities, Concrete)]"
| "own_methods ConnectionBase =
     [(M_state, Concrete), (M_close, Concrete), (M_open, Concrete),
      (M_wait_until_connected, Concrete), (M_wait_until_disconnected, Concrete),
      (M_open_hook, Abstract), (M_close_hook, Abstract)]"
| "own_methods FDConnectionBase =
     [(M_close_hook, Concrete), (M_open_hook, Concrete), (M_get_file_object, Abstract),
      (M_read, Concrete), (M_write, Concrete)]"
| "own_methods TaskConnectionBase = [(M_open_hook, Concrete), (M_close_hook, Concrete), (M_run, Abstract)]"
| "own_methods FileConnection = [(M_get_file_object, Concrete)]"
| "own_methods FDConnection = [(M_get_file_object, Concrete)]"
| "own_methods DummyConnection =
     [(M_open_hook, Concrete), (M_close_hook, Concrete), (M_read, Concrete), (M_write, Concrete)]"
| "own_methods ChannelConnection =
     [(M_open_hook, Concrete), (M_close_hook, Concrete), (M_read, Concrete), (M_write, Concrete)]"
| "own_methods ProcessConnection =
     [(M_open_hook, Concrete), (M_close_hook, Concrete), (M_read, Concrete), (M_write, Concrete)]"
| "own_methods StreamConnectionBase =
     [(M_create_stream, Abstract), (M_open_hook, Concrete), (M_close_hook, Concrete),
      (M_read, Concrete), (M_write, Concrete)]"
| "own_methods StreamConnection = [(M_create_stream, Concrete)]"
| "own_methods StreamWrapperConnection = [(M_create_stream, Concrete)]"
| "own_methods SerialPortConnection = [(M_create_stream, Concrete), (M_close_hook, Concrete)]"
| "own_methods SocketConnectionBase =
     [(M_close_hook, Concrete), (M_create_socket, Abstract), (M_open_hook, Concrete)]"
| "own_methods TCPStreamConnection = [(M_create_stream, Concrete)]"
| "own_methods IncomingTCPStreamConnection = [(M_create_stream, Concrete)]"
| "own_methods TCPListenerConnection = [(M_create_socket, Concrete), (M_accept, Concrete)]"
| "own_methods UDPSocketConnection = [(M_create_socket, Concrete), (M_read, Concrete), (M_write, Concrete)]"
| "own_methods UDPListenerConnection =
     [(M_create_socket, Concrete), (M_close_hook, Concrete), (M_get_capabilities, Concrete),
      (M_broadcast, Concrete), (M_set_user_defined_broadcast_address, Concrete),
      (M_read, Concrete), (M_write, Concrete)]"
| "own_methods BroadcastUDPListenerConnection = [(M_get_capabilities, Concrete)]"
| "own_methods MulticastUDPListenerConnection = [(M_create_socket, Concrete), (M_get_capabilities, Concrete)]"
| "own_methods UnixDomainSocketConnection = [(M_create_stream, Concrete)]"
| "own_methods _ = []"

section \<open>Method resolution\<close>

text \<open>
  The merge of C3: the first head that is in no tail comes next; \<open>None\<close> is the \<^verbatim>\<open>TypeError\<close> of
  a class statement whose bases have no consistent order.
\<close>

definition good_head :: "'a list list \<Rightarrow> 'a option" where
  "good_head ls = List.find (\<lambda>c. \<forall>l \<in> set ls. c \<notin> set (tl l)) (map hd (filter (\<lambda>l. l \<noteq> []) ls))"

definition drop_head :: "'a \<Rightarrow> 'a list \<Rightarrow> 'a list" where
  "drop_head c l = (if l \<noteq> [] \<and> hd l = c then tl l else l)"

lemma good_head_shrinks:
  assumes "good_head ls = Some c"
  shows "length (concat (map (drop_head c) ls)) < length (concat ls)"
proof -
  have "c \<in> set (map hd (filter (\<lambda>l. l \<noteq> []) ls))"
    using assms unfolding good_head_def find_Some_iff by (metis nth_mem)
  then obtain l where l: "l \<in> set ls" "l \<noteq> []" "hd l = c" by auto
  have le: "length (concat (map (drop_head c) xs)) \<le> length (concat xs)" for xs :: "'a list list"
    by (induction xs) (auto simp: drop_head_def)
  from l(1) obtain xs ys where ls: "ls = xs @ l # ys" by (auto simp: in_set_conv_decomp)
  have "length (drop_head c l) < length l" using l(2,3) by (simp add: drop_head_def)
  then show ?thesis using le[of xs] le[of ys] by (simp add: ls)
qed

function merge :: "'a list list \<Rightarrow> 'a list option" where
  "merge ls =
     (if \<forall>l \<in> set ls. l = [] then Some []
      else case good_head ls of
             None \<Rightarrow> None
           | Some c \<Rightarrow> map_option (Cons c) (merge (map (drop_head c) ls)))"
  by auto
termination
  by (relation "measure (\<lambda>ls. length (concat ls))") (auto dest: good_head_shrinks)

declare merge.simps [simp del]

definition height :: "pyclass \<Rightarrow> nat" where
  "height c =
     (if bases c = [] then 0
      else if c \<in> {ListenerConnection, ReadableConnection, WritableConnection, BroadcastConnection, ConnectionBase} then 1
      else if c \<in> {RWConnection, TaskConnectionBase, SocketConnectionBase} then 2
      else if c \<in> {FDConnectionBase, DummyConnection, ChannelConnection, ProcessConnection, StreamConnectionBase,
                   TCPListenerConnection, UDPSocketConnection, UDPListenerConnection} then 3
      else 4)"

lemma base_lower: "b \<in> set (bases c) \<Longrightarrow> height b < height c"
  by (cases c) (auto simp: height_def)

function mro :: "pyclass \<Rightarrow> pyclass list option" where
  "mro c =
     (case those (map mro (bases c)) of
        None \<Rightarrow> None
      | Some ms \<Rightarrow> map_option (Cons c) (merge (ms @ [bases c])))"
  by auto
termination
  by (relation "measure height") (auto dest: base_lower)

declare mro.simps [simp del]

definition lookup :: "pyclass \<Rightarrow> pymethod \<Rightarrow> def_kind option" where
  "lookup c m = Option.bind (mro c) (\<lambda>cs. map_of (concat (map own_methods cs)) m)"

text \<open>
  The metaclass \<^verbatim>\<open>ABCMeta\<close>: the abstract methods of a class are those that its body defines so and
  those of its bases whose definition, looked up from the class, is abstract. Two classes are not
  created by it.
\<close>

fun by_abcmeta :: "pyclass \<Rightarrow> bool" where
  "by_abcmeta BroadcastAddressOverride = False"
| "by_abcmeta InternetAddressMixin = False"
| "by_abcmeta _ = True"

function abstract_methods :: "pyclass \<Rightarrow> pymethod list" where
  "abstract_methods c =
     (if by_abcmeta c then
        map fst (filter (\<lambda>(m, k). k = Abstract) (own_methods c)) @
        filter (\<lambda>m. lookup c m = Some Abstract) (concat (map abstract_methods (bases c)))
      else [])"
  by auto
termination
  by (relation "measure height") (auto dest: base_lower)

declare abstract_methods.simps [simp del]

definition constructible :: "pyclass \<Rightarrow> bool" where
  "constructible c \<longleftrightarrow> abstract_methods c = []"

section \<open>Capabilities\<close>

record capabilities =
  may_broadcast :: bool
  may_receive :: bool
  may_send :: bool

text \<open>
  A connection object: an instance of a class, or a middleware around another object. The proxies
  of \<^verbatim>\<open>wrapt\<close> answer \<^verbatim>\<open>__class__\<close> with that of the wrapped object and hand on every method they do
  not define; no middleware defines \<^verbatim>\<open>_get_capabilities\<close>.
\<close>

datatype connection_object = Instance pyclass | Proxy connection_object

fun class_of :: "connection_object \<Rightarrow> pyclass" where
  "class_of (Instance c) = c"
| "class_of (Proxy conn) = class_of conn"

definition isinstance :: "connection_object \<Rightarrow> pyclass \<Rightarrow> bool" where
  "isinstance conn d = (case mro (class_of conn) of None \<Rightarrow> False | Some cs \<Rightarrow> d \<in> set cs)"

text \<open>What the bodies of \<^verbatim>\<open>_get_capabilities\<close> return; that of the protocol is \<^verbatim>\<open>...\<close>, which is \<^verbatim>\<open>None\<close>.\<close>

fun body_of_get_capabilities :: "pyclass \<Rightarrow> capabilities option" where
  "body_of_get_capabilities UDPListenerConnection =
     Some \<lparr>may_broadcast = True, may_receive = True, may_send = True\<rparr>"
| "body_of_get_capabilities BroadcastUDPListenerConnection =
     Some \<lparr>may_broadcast = True, may_receive = True, may_send = True\<rparr>"
| "body_of_get_capabilities MulticastUDPListenerConnection =
     Some \<lparr>may_broadcast = True, may_receive = True, may_send = True\<rparr>"
| "body_of_get_capabilities _ = None"

definition call_get_capabilities :: "pyclass \<Rightarrow> capabilities option" where
  "call_get_capabilities c =
     Option.bind (mro c) (\<lambda>cs.
       Option.bind (List.find (\<lambda>d. M_get_capabilities \<in> set (map fst (own_methods d))) cs)
         body_of_get_capabilities)"

text \<open>\<^verbatim>\<open>CapabilitySupport\<close> is a protocol: an object that has the method is an instance, too.\<close>

definition get_connection_capabilities :: "connection_object \<Rightarrow> capabilities option" where
  "get_connection_capabilities conn =
     (if isinstance conn CapabilitySupport \<or> lookup (class_of conn) M_get_capabilities \<noteq> None
      then call_get_capabilities (class_of conn)
      else Some \<lparr>may_broadcast = isinstance conn BroadcastConnection,
                 may_receive = isinstance conn ReadableConnection,
                 may_send = isinstance conn WritableConnection\<rparr>)"

text \<open>The attribute \<^verbatim>\<open>can_send\<close> of two classes.\<close>

fun can_send_marker :: "pyclass \<Rightarrow> bool option" where
  "can_send_marker BroadcastUDPListenerConnection = Some False"
| "can_send_marker MulticastUDPListenerConnection = Some False"
| "can_send_marker _ = None"

text \<open>
  The names under which the modules register their classes with \<^verbatim>\<open>create_connection\<close>; the function
  registered as \<^verbatim>\<open>udp-broadcast\<close> constructs a UDP listener.
\<close>

definition registered :: "(string \<times> pyclass) list" where
  "registered =
     [(''dummy'', DummyConnection), (''file'', FileConnection), (''fd'', FDConnection),
      (''serial'', SerialPortConnection), (''tcp'', TCPStreamConnection),
      (''tcp-listen'', TCPListenerConnection), (''udp'', UDPSocketConnection),
      (''udp-listen'', UDPListenerConnection), (''udp-broadcast'', UDPListenerConnection),
      (''udp-broadcast-in'', BroadcastUDPListenerConnection),
      (''udp-multicast'', MulticastUDPListenerConnection),
      (''udp-subnet'', SubnetBindingUDPListenerConnection), (''unix'', UnixDomainSocketConnection)]"

section \<open>Lemmas\<close>

definition all_classes :: "pyclass list" where
  "all_classes =
     [Connection, ListenerConnection, ReadableConnection, WritableConnection, RWConnection,
      BroadcastConnection, BroadcastAddressOverride, CapabilitySupport, ConnectionBase, FDConnectionBase,
      TaskConnectionBase, FileConnection, FDConnection, DummyConnection, ChannelConnection, ProcessConnection,
      StreamConnectionBase, StreamConnection, StreamWrapperConnection, SerialPortConnection,
      InternetAddressMixin, SocketConnectionBase, TCPStreamConnection, IncomingTCPStreamConnection,
      TCPListenerConnection, UDPSocketConnection, UDPListenerConnection, BroadcastUDPListenerConnection,
      MulticastUDPListenerConnection, SubnetBindingUDPListenerConnection, UnixDomainSocketConnection]"

lemma every_class: "list_all P all_classes \<Longrightarrow> P c"
  by (cases c) (simp_all add: all_classes_def)

text \<open>The linearisation exists, starts with the class itself, and puts every class before its bases.\<close>

definition linear :: "pyclass \<Rightarrow> bool" where
  "linear c =
     (case mro c of None \<Rightarrow> False
      | Some cs \<Rightarrow> hd cs = c \<and> distinct cs \<and> sorted_wrt (\<lambda>a b. a \<notin> set (bases b)) cs \<and>
          list_all (\<lambda>d. list_all (\<lambda>b. b \<in> set cs) (bases d)) cs)"

lemma mro_linear: "linear c"
  by (rule every_class) code_simp

text \<open>Capabilities do not see the middleware around a connection.\<close>

lemma capabilities_of_proxy [simp]:
  "get_connection_capabilities (Proxy conn) = get_connection_capabilities conn"
  by (simp add: get_connection_capabilities_def isinstance_def)

definition inferred_from_methods :: "pyclass \<Rightarrow> capabilities" where
  "inferred_from_methods c =
     \<lparr>may_broadcast = lookup c M_broadcast = Some Concrete, may_receive = lookup c M_read = Some Concrete,
      may_send = lookup c M_write = Some Concrete\<rparr>"

text \<open>The classes of connections, as opposed to the three that are only mixed in.\<close>

definition connection_class :: "pyclass \<Rightarrow> bool" where
  "connection_class c \<longleftrightarrow> isinstance (Instance c) Connection"

lemma capabilities_of_class:
  "connection_class c \<and> constructible c \<longrightarrow>
     get_connection_capabilities (Instance c) = Some (inferred_from_methods c)"
  by (rule every_class) code_simp

lemma capabilities_of_instance:
  "get_connection_capabilities conn = get_connection_capabilities (Instance (class_of conn))"
  by (induction conn) simp_all

definition registration_ok :: "string \<times> pyclass \<Rightarrow> bool" where
  "registration_ok nc =
     (case nc of (name, c) \<Rightarrow>
        connection_class c \<and> constructible c \<and>
        (if name = ''tcp-listen''
         then lookup c M_accept = Some Concrete \<and> lookup c M_read = None \<and> lookup c M_write = None
         else lookup c M_read = Some Concrete \<and> lookup c M_write = Some Concrete \<and> lookup c M_accept = None) \<and>
        (lookup c M_broadcast = Some Concrete) = isinstance (Instance c) UDPListenerConnection)"

lemma registrations_ok: "list_all registration_ok registered"
  by code_simp

text \<open>
  Two classes say in their documentation, and by an attribute that is deprecated in favour of the
  capabilities, that they cannot send; their capabilities say that they can.
\<close>

lemma can_send_contradicted:
  "can_send_marker c = Some False \<longrightarrow> map_option may_send (get_connection_capabilities (Instance c)) = Some True"
  by (rule every_class) code_simp

text \<open>The middleware that drops what is written hides this from the capabilities, too.\<close>

lemma proxy_can_send:
  "map_option may_send (get_connection_capabilities (Proxy (Instance DummyConnection))) = Some True"
  by code_simp

section \<open>Properties\<close>

text \<open>
  The capabilities of a connection are true to its class. For an object of any class of
  connections that can be constructed, behind any number of middleware, the capabilities that
  \<^verbatim>\<open>get_connection_capabilities()\<close> infers from the inheritance, or takes from an override, name exactly
  the methods that an attribute lookup on the object's class finds implemented.
\<close>

theorem capabilities_match_methods:
  assumes "connection_class (class_of conn)" and "constructible (class_of conn)"
  shows "get_connection_capabilities conn = Some (inferred_from_methods (class_of conn))"
  using capabilities_of_class[of "class_of conn"] capabilities_of_instance[of conn] assms by simp

text \<open>
  Every class that is registered with \<^verbatim>\<open>create_connection\<close> is a class of connections without abstract
  methods left. All but the TCP listener implement \<^verbatim>\<open>read()\<close> and \<^verbatim>\<open>write()\<close>, the TCP listener
  implements \<^verbatim>\<open>accept()\<close> and neither of the two, and \<^verbatim>\<open>broadcast()\<close> is that of the UDP listeners.
\<close>

theorem registered_classes:
  assumes "map_of registered name = Some c"
  shows "connection_class c \<and> constructible c \<and>
    (if name = ''tcp-listen''
     then lookup c M_accept = Some Concrete \<and> lookup c M_read = None \<and> lookup c M_write = None
     else lookup c M_read = Some Concrete \<and> lookup c M_write = Some Concrete \<and> lookup c M_accept = None) \<and>
    (lookup c M_broadcast = Some Concrete) = isinstance (Instance c) UDPListenerConnection"
  using map_of_SomeD[OF assms] registrations_ok by (auto simp: list_all_iff registration_ok_def)

section \<open>Witnesses\<close>

theorem capabilities_match_methods_witness:
  "get_connection_capabilities (Proxy (Proxy (Instance TCPListenerConnection))) =
     Some \<lparr>may_broadcast = False, may_receive = False, may_send = False\<rparr>"
proof -
  have "connection_class TCPListenerConnection" "constructible TCPListenerConnection"
    "inferred_from_methods TCPListenerConnection = \<lparr>may_broadcast = False, may_receive = False, may_send = False\<rparr>"
    by code_simp+
  then show ?thesis
    using capabilities_match_methods[of "Proxy (Proxy (Instance TCPListenerConnection))"] by simp
qed

theorem registered_classes_witness:
  "constructible SerialPortConnection \<and> lookup SerialPortConnection M_read = Some Concrete"
  using registered_classes[of "''serial''" SerialPortConnection] by (simp add: registered_def)

end
