(* ===== verification/Registry.thy ===== *)
theory Registry
  imports Factory Capabilities Serial Sockets
begin

text \<open>
  The two factories as the package sets them up: \<^verbatim>\<open>create_connection\<close>, with the classes that the
  modules register (\<^verbatim>\<open>@create_connection.register(...)\<close> in \<^verbatim>\<open>dummy.py\<close>, \<^verbatim>\<open>file.py\<close>, \<^verbatim>\<open>serial.py\<close>,
  \<^verbatim>\<open>socket.py\<close>) and the built-in middleware, and \<^verbatim>\<open>create_listener\<close> of \<^verbatim>\<open>listeners/factory.py\<close> with the two classes
  of \<^verbatim>\<open>listeners/socket.py\<close>.

  A call of a class binds the keyword arguments to the parameters of its \<^verbatim>\<open>__init__\<close>; then those
  initialisers that look at their arguments may still refuse them. The object made is given by its class
  and its arguments; what an initialiser stores is in the theory of its module. The objects that a
  dictionary may hold besides integers and strings are taken not to be \<^verbatim>\<open>None\<close>; the record \<open>object_ops\<close>
  has what the initialisers ask of them, and \<^verbatim>\<open>ipaddress\<close>'s test for multicast addresses.
\<close>

section \<open>Calling a class with keyword arguments\<close>

text \<open>The parameters of \<^verbatim>\<open>__init__\<close> without a default, those with one, and whether there is \<^verbatim>\<open>**kwds\<close>.\<close>

record signature =
  required :: "string list"
  optional :: "string list"
  takes_kwds :: bool

definition params :: "string list \<Rightarrow> string list \<Rightarrow> bool \<Rightarrow> signature" where
  "params req opt kwds = \<lparr>required = req, optional = opt, takes_kwds = kwds\<rparr>"

definition file_parameters :: signature where
  "file_parameters = params [''path''] [''mode'', ''autoflush''] False"

definition fd_parameters :: signature where
  "fd_parameters = params [''path''] [''mode'', ''autoflush''] False"

definition serial_parameters :: signature where
  "serial_parameters =
     params [] [''path'', ''baud'', ''stopbits'', ''vid'', ''pid'', ''manufacturer'', ''product'', ''serial_number''] False"

definition tcp_parameters :: signature where
  "tcp_parameters = params [''host'', ''port''] [] True"

definition tcp_listener_parameters :: signature where
  "tcp_listener_parameters = params [] [''host'', ''port'', ''backlog''] True"

definition udp_parameters :: signature where
  "udp_parameters = params [''host'', ''port''] [] True"

definition udp_listener_parameters :: signature where
  "udp_listener_parameters =
     params []
       [''host'', ''port'', ''interface'', ''subnet'', ''allow_broadcast'', ''broadcast_interface'', ''broadcast_port'',
        ''multicast_interface'', ''multicast_ttl'', ''maximize_receive_buffer'', ''maximize_send_buffer''] True"

definition broadcast_parameters :: signature where
  "broadcast_parameters = params [] [''interface'', ''port''] True"

definition multicast_parameters :: signature where
  "multicast_parameters = params [] [''group'', ''port'', ''interface''] True"

definition subnet_parameters :: signature where
  "subnet_parameters = params [] [''network'', ''port''] True"

definition unix_parameters :: signature where
  "unix_parameters = params [''path''] [] True"

fun signature_of :: "pyclass \<Rightarrow> signature" where
  "signature_of FileConnection = file_parameters"
| "signature_of FDConnection = fd_parameters"
| "signature_of SerialPortConnection = serial_parameters"
| "signature_of TCPStreamConnection = tcp_parameters"
| "signature_of TCPListenerConnection = tcp_listener_parameters"
| "signature_of UDPSocketConnection = udp_parameters"
| "signature_of UDPListenerConnection = udp_listener_parameters"
| "signature_of BroadcastUDPListenerConnection = broadcast_parameters"
| "signature_of MulticastUDPListenerConnection = multicast_parameters"
| "signature_of SubnetBindingUDPListenerConnection = subnet_parameters"
| "signature_of UnixDomainSocketConnection = unix_parameters"
| "signature_of _ = params [] [] False"

lemmas parameters_defs = params_def file_parameters_def fd_parameters_def serial_parameters_def tcp_parameters_def
  tcp_listener_parameters_def udp_parameters_def udp_listener_parameters_def broadcast_parameters_def
  multicast_parameters_def subnet_parameters_def unix_parameters_def

definition named :: "signature \<Rightarrow> string list" where
  "named sg = required sg @ optional sg"

text \<open>The instance itself is bound to \<^verbatim>\<open>self\<close>, which cannot be given again.\<close>

definition bind_call :: "signature \<Rightarrow> kwargs \<Rightarrow> exn + kwargs" where
  "bind_call sg kw =
     (if kw ''self'' \<noteq> None then Inl (TypeError ''got multiple values for argument self'')
      else if \<not> takes_kwds sg \<and> \<not> dom kw \<subseteq> set (named sg)
      then Inl (TypeError ''got an unexpected keyword argument'')
      else if \<not> list_all (\<lambda>p. kw p \<noteq> None) (required sg)
      then Inl (TypeError ''missing required argument'')
      else Inr kw)"

section \<open>The initialisers\<close>

record object_ops =
  object_str :: "nat \<Rightarrow> string"
  object_int :: "nat \<Rightarrow> exn + int"
  object_has_slash :: "nat \<Rightarrow> exn + bool"
  object_lower :: "nat \<Rightarrow> exn + string"
  address_is_multicast :: "val \<Rightarrow> exn + bool"

text \<open>Evaluation that stops at the first exception.\<close>

definition bind_result :: "exn + 'a \<Rightarrow> ('a \<Rightarrow> exn + 'b) \<Rightarrow> exn + 'b" where
  "bind_result m f = (case m of Inl e \<Rightarrow> Inl e | Inr x \<Rightarrow> f x)"

lemma bind_result_simps [simp]: "bind_result (Inl e) f = Inl e" "bind_result (Inr x) f = f x"
  by (simp_all add: bind_result_def)

lemma bind_result_Inr: "bind_result m f = Inr y \<longleftrightarrow> (\<exists>x. m = Inr x \<and> f x = Inr y)"
  by (cases m) simp_all

text \<open>\<^verbatim>\<open>int(v)\<close>, \<^verbatim>\<open>str(v)\<close>, \<^verbatim>\<open>"/" in v\<close> and \<^verbatim>\<open>v or default\<close>.\<close>

fun val_int :: "object_ops \<Rightarrow> val \<Rightarrow> exn + int" where
  "val_int ops (VInt i) = Inr i"
| "val_int ops (VStr s) =
     (case py_int s of Some i \<Rightarrow> Inr i | None \<Rightarrow> Inl (ValueError ''invalid literal for int() with base 10''))"
| "val_int ops (VObject n) = object_int ops n"

fun val_str :: "object_ops \<Rightarrow> val \<Rightarrow> string" where
  "val_str ops (VInt i) = dec_of_int i"
| "val_str ops (VStr s) = s"
| "val_str ops (VObject n) = object_str ops n"

fun val_has_slash :: "object_ops \<Rightarrow> val \<Rightarrow> exn + bool" where
  "val_has_slash ops (VInt i) = Inl (TypeError ''argument of type 'int' is not iterable'')"
| "val_has_slash ops (VStr s) = Inr (CHR ''/'' \<in> set s)"
| "val_has_slash ops (VObject n) = object_has_slash ops n"

definition val_or :: "val \<Rightarrow> val \<Rightarrow> val" where
  "val_or v d = (if v = VInt 0 \<or> v = VStr [] then d else v)"

definition given :: "kwargs \<Rightarrow> string \<Rightarrow> val \<Rightarrow> val" where
  "given kw p d = (case kw p of Some v \<Rightarrow> v | None \<Rightarrow> d)"

definition optional_int :: "object_ops \<Rightarrow> val option \<Rightarrow> exn + int option" where
  "optional_int ops v =
     (case v of None \<Rightarrow> Inr None | Some w \<Rightarrow> bind_result (val_int ops w) (\<lambda>i. Inr (Some i)))"

text \<open>What the initialisers of the UDP listeners store; \<open>membership\<close> is \<^verbatim>\<open>_interface\<close> of multicast listeners.\<close>

record udp_settings =
  place_mode :: binding_mode
  place_value :: val
  place_port :: val
  to_broadcast :: bool
  out_interface :: "val option"
  out_port :: "int option"
  multicast_out :: "val option"
  ttl :: "int option"
  may_send_broadcast :: bool
  big_receive_buffer :: bool
  big_send_buffer :: bool
  membership :: "val option"

text \<open>\<^verbatim>\<open>UDPListenerConnection.__init__\<close>.\<close>

definition udp_binding :: "object_ops \<Rightarrow> kwargs \<Rightarrow> binding_mode \<times> val" where
  "udp_binding ops kw =
     (case kw ''interface'' of
        Some i \<Rightarrow> (Interface, i)
      | None \<Rightarrow>
          (case kw ''subnet'' of
             Some n \<Rightarrow> (Subnet, VStr (val_str ops n))
           | None \<Rightarrow> (Fixed, val_or (given kw ''host'' (VStr [])) (VStr []))))"

definition udp_init :: "object_ops \<Rightarrow> kwargs \<Rightarrow> exn + udp_settings" where
  "udp_init ops kw =
     bind_result (optional_int ops (kw ''broadcast_port'')) (\<lambda>bport.
     bind_result (optional_int ops (kw ''multicast_ttl'')) (\<lambda>hops.
     bind_result (if bport \<noteq> None then Inr 1 else val_int ops (given kw ''allow_broadcast'' (VInt 0))) (\<lambda>allow.
     bind_result (val_int ops (given kw ''maximize_receive_buffer'' (VInt 1))) (\<lambda>maxr.
     bind_result (val_int ops (given kw ''maximize_send_buffer'' (VInt 0))) (\<lambda>maxs.
     Inr \<lparr>place_mode = fst (udp_binding ops kw), place_value = snd (udp_binding ops kw),
          place_port = val_or (given kw ''port'' (VInt 0)) (VInt 0), to_broadcast = False,
          out_interface = kw ''broadcast_interface'', out_port = bport,
          multicast_out = kw ''multicast_interface'', ttl = hops, may_send_broadcast = (allow \<noteq> 0),
          big_receive_buffer = (maxr \<noteq> 0), big_send_buffer = (maxs \<noteq> 0), membership = None\<rparr>)))))"

text \<open>The subclasses.\<close>

definition udp_broadcast_in_init :: "object_ops \<Rightarrow> kwargs \<Rightarrow> exn + udp_settings" where
  "udp_broadcast_in_init ops kw =
     (case (case kw ''interface'' of
              Some i \<Rightarrow> Some i
            | None \<Rightarrow> map_option (\<lambda>v. VStr (val_str ops v)) (kw ''path'')) of
        None \<Rightarrow> Inl (ValueError ''either 'interface' or 'path' must be given'')
      | Some i \<Rightarrow>
          bind_result (val_has_slash ops i) (\<lambda>subnet.
          bind_result
            (udp_init ops [(if subnet then ''subnet'' else ''interface'') \<mapsto> i, ''port'' \<mapsto> given kw ''port'' (VInt 0)])
            (\<lambda>s. Inr (s\<lparr>to_broadcast := True\<rparr>))))"

definition udp_multicast_init :: "object_ops \<Rightarrow> kwargs \<Rightarrow> exn + udp_settings" where
  "udp_multicast_init ops kw =
     (case (case kw ''group'' of Some g \<Rightarrow> Some g | None \<Rightarrow> kw ''host'') of
        None \<Rightarrow> Inl (ValueError ''either 'group' or 'host' must be given'')
      | Some g \<Rightarrow>
          bind_result (address_is_multicast ops g) (\<lambda>multicast.
          if \<not> multicast then Inl (ValueError ''expected multicast group address'')
          else bind_result
            (udp_init ops [''host'' \<mapsto> g, ''port'' \<mapsto> given kw ''port'' (VInt 0), ''allow_broadcast'' \<mapsto> VInt 1])
            (\<lambda>s. Inr (s\<lparr>membership := kw ''interface''\<rparr>))))"

definition udp_subnet_init :: "object_ops \<Rightarrow> kwargs \<Rightarrow> exn + udp_settings" where
  "udp_subnet_init ops kw =
     (case (case kw ''network'' of
              Some n \<Rightarrow> Some n
            | None \<Rightarrow> map_option (\<lambda>v. VStr (val_str ops v)) (kw ''path'')) of
        None \<Rightarrow> Inl (ValueError ''either 'network' or 'path' must be given'')
      | Some n \<Rightarrow>
          if kw ''subnet'' \<noteq> None then Inl (TypeError ''got multiple values for keyword argument subnet'')
          else udp_init ops
            (kw(''network'' := None, ''subnet'' \<mapsto> n, ''port'' \<mapsto> given kw ''port'' (VInt 0),
                ''allow_broadcast'' \<mapsto> given kw ''allow_broadcast'' (VInt 1))))"

section \<open>The factories\<close>

datatype made =
    Made pyclass kwargs
  | MadeUdp pyclass udp_settings
  | Wrapped string made

definition made_udp :: "pyclass \<Rightarrow> exn + udp_settings \<Rightarrow> exn + made" where
  "made_udp c r = bind_result r (\<lambda>s. Inr (MadeUdp c s))"

definition fd_init :: "object_ops \<Rightarrow> kwargs \<Rightarrow> exn + made" where
  "fd_init ops kw =
     bind_result (val_int ops (given kw ''path'' (VInt 0))) (\<lambda>fd. Inr (Made FDConnection (kw(''path'' \<mapsto> VInt fd))))"

fun initialise :: "object_ops \<Rightarrow> pyclass \<Rightarrow> kwargs \<Rightarrow> exn + made" where
  "initialise ops FDConnection kw = fd_init ops kw"
| "initialise ops UDPListenerConnection kw = made_udp UDPListenerConnection (udp_init ops kw)"
| "initialise ops BroadcastUDPListenerConnection kw =
     made_udp BroadcastUDPListenerConnection (udp_broadcast_in_init ops kw)"
| "initialise ops MulticastUDPListenerConnection kw =
     made_udp MulticastUDPListenerConnection (udp_multicast_init ops kw)"
| "initialise ops SubnetBindingUDPListenerConnection kw =
     made_udp SubnetBindingUDPListenerConnection (udp_subnet_init ops kw)"
| "initialise ops c kw = Inr (Made c kw)"

definition construct :: "object_ops \<Rightarrow> pyclass \<Rightarrow> kwargs \<Rightarrow> exn + made" where
  "construct ops c kw = bind_result (bind_call (signature_of c) kw) (initialise ops c)"

text \<open>The one name registered for a function; it sets a keyword argument first.\<close>

definition registered_call :: "object_ops \<Rightarrow> string \<Rightarrow> pyclass \<Rightarrow> kwargs \<Rightarrow> exn + made" where
  "registered_call ops name c kw =
     construct ops c (if name = ''udp-broadcast'' then kw(''allow_broadcast'' \<mapsto> VInt 1) else kw)"

fun register_all :: "object_ops \<Rightarrow> (string \<times> pyclass) list \<Rightarrow> (made factory, unit) action" where
  "register_all ops [] = ret ()"
| "register_all ops ((name, c) # rs) =
     and_then (register name (registered_call ops name c)) (\<lambda>_. register_all ops rs)"

text \<open>Importing the package: the factory, its middleware, and the classes in the order of the imports.\<close>

definition connection_factory :: "object_ops \<Rightarrow> made factory" where
  "connection_factory ops =
     snd (and_then
       (register_builtin_middleware (\<lambda>x. Inr (Wrapped ''log'' x)) (\<lambda>x. Inr (Wrapped ''rd'' x))
          (\<lambda>x. Inr (Wrapped ''wr'' x)))
       (\<lambda>_. register_all ops registered) init_factory)"

definition create_connection ::
  "object_ops \<Rightarrow> (string \<Rightarrow> bool) \<Rightarrow> (bytes \<Rightarrow> string) \<Rightarrow> spec_input \<Rightarrow> exn + made" where
  "create_connection ops bracketed_ok decode s = create bracketed_ok decode (connection_factory ops) s"

definition create_connection_factory ::
  "object_ops \<Rightarrow> (string \<Rightarrow> bool) \<Rightarrow> (bytes \<Rightarrow> string) \<Rightarrow> spec_input \<Rightarrow> unit \<Rightarrow> exn + made" where
  "create_connection_factory ops bracketed_ok decode s = (\<lambda>_. create_connection ops bracketed_ok decode s)"

text \<open>
  The factory of listeners: the same class, with two classes registered (\<^verbatim>\<open>listeners/socket.py\<close>) and no middleware.
  Their \<^verbatim>\<open>**kwds\<close> go to \<^verbatim>\<open>TrioListenerBase\<close>, which takes a handler and a nursery, by keyword.
\<close>

datatype listener_class = TCPSocketListener | UnixDomainSocketListener

definition trio_listener_parameters :: "string list" where
  "trio_listener_parameters = [''handler'', ''nursery'']"

definition tcp_socket_parameters :: signature where
  "tcp_socket_parameters = params [] ([''host'', ''port''] @ trio_listener_parameters) False"

definition unix_socket_parameters :: signature where
  "unix_socket_parameters = params [''path''] (''mode'' # trio_listener_parameters) False"

fun listener_parameters :: "listener_class \<Rightarrow> signature" where
  "listener_parameters TCPSocketListener = tcp_socket_parameters"
| "listener_parameters UnixDomainSocketListener = unix_socket_parameters"

definition construct_listener :: "listener_class \<Rightarrow> kwargs \<Rightarrow> exn + listener_class \<times> kwargs" where
  "construct_listener c kw = bind_result (bind_call (listener_parameters c) kw) (\<lambda>args. Inr (c, args))"

definition listener_factory :: "(listener_class \<times> kwargs) factory" where
  "listener_factory =
     snd (and_then (register ''tcp'' (construct_listener TCPSocketListener))
       (\<lambda>_. register ''unix'' (construct_listener UnixDomainSocketListener)) init_factory)"

definition make_listener ::
  "(string \<Rightarrow> bool) \<Rightarrow> (bytes \<Rightarrow> string) \<Rightarrow> spec_input \<Rightarrow> exn + listener_class \<times> kwargs" where
  "make_listener bracketed_ok decode s = create bracketed_ok decode listener_factory s"

definition make_listener_factory ::
  "(string \<Rightarrow> bool) \<Rightarrow> (bytes \<Rightarrow> string) \<Rightarrow> spec_input \<Rightarrow> unit \<Rightarrow> exn + listener_class \<times> kwargs" where
  "make_listener_factory bracketed_ok decode s = (\<lambda>_. make_listener bracketed_ok decode s)"

section \<open>Serial ports of a URL\<close>

text \<open>
  \<^verbatim>\<open>SerialPortConnection._port_info_matches\<close> and the choice of the port on the arguments as the factory
  hands them on: what looks like a number has become one. \<^verbatim>\<open>lower()\<close> is not a method of integers, and an
  object that is not a string is not equal to one.
\<close>

fun val_lower :: "object_ops \<Rightarrow> val \<Rightarrow> exn + string" where
  "val_lower ops (VInt i) = Inl (AttributeError ''lower'')"
| "val_lower ops (VStr s) = Inr (lower s)"
| "val_lower ops (VObject n) = object_lower ops n"

definition glob_val :: "object_ops \<Rightarrow> string option \<Rightarrow> val option \<Rightarrow> exn + bool" where
  "glob_val ops reported wanted =
     (case wanted of
        None \<Rightarrow> Inr True
      | Some v \<Rightarrow>
          (case reported of
             None \<Rightarrow> Inr False
           | Some n \<Rightarrow> bind_result (val_lower ops v) (\<lambda>p. Inr (fnmatch (lower n) p))))"

definition val_port_matches :: "object_ops \<Rightarrow> kwargs \<Rightarrow> port_info \<Rightarrow> exn + bool" where
  "val_port_matches ops kw p =
     (if \<not> (id_matches (port_vid p) (map_option (val_str ops) (kw ''vid'')) \<and>
            id_matches (port_pid p) (map_option (val_str ops) (kw ''pid''))) then Inr False
      else if kw ''serial_number'' \<noteq> None \<and> map_option VStr (port_serial_number p) \<noteq> kw ''serial_number'' then Inr False
      else bind_result (glob_val ops (port_manufacturer p) (kw ''manufacturer'')) (\<lambda>ok.
           if \<not> ok then Inr False else glob_val ops (port_product p) (kw ''product'')))"

fun find_val_port :: "object_ops \<Rightarrow> kwargs \<Rightarrow> port_info list \<Rightarrow> exn + string" where
  "find_val_port ops kw [] = Inl (RuntimeError ''No USB serial port matching specification'')"
| "find_val_port ops kw (p # ps) =
     bind_result (val_port_matches ops kw p) (\<lambda>ok. if ok then Inr (port_device p) else find_val_port ops kw ps)"

definition resolve_val_path :: "object_ops \<Rightarrow> port_info list \<Rightarrow> kwargs \<Rightarrow> exn + val" where
  "resolve_val_path ops comports kw =
     (let path = given kw ''path'' (VStr []) in
      if path = VInt 0 \<or> path = VStr [] then bind_result (find_val_port ops kw comports) (\<lambda>d. Inr (VStr d))
      else case vid_pid (val_str ops path) of
             Some (v, p) \<Rightarrow>
               bind_result (find_val_port ops (kw(''vid'' \<mapsto> VStr v, ''pid'' \<mapsto> VStr p)) comports) (\<lambda>d. Inr (VStr d))
           | None \<Rightarrow> Inr path)"

text \<open>The stop bits among the values of \<open>Serial\<close>; another object is none of these.\<close>

fun val_stop :: "val \<Rightarrow> stop_bits option" where
  "val_stop (VInt i) = Some (StopInt i)"
| "val_stop (VStr s) = Some (StopStr s)"
| "val_stop (VObject n) = None"

section \<open>Lemmas\<close>

lemma register_all_result:
  "distinct (map fst rs) \<Longrightarrow>
    register_all ops rs f =
      (Returns (), f\<lparr>registry := registry f ++ (\<lambda>n. map_option (registered_call ops n) (map_of rs n))\<rparr>)"
proof (induction rs arbitrary: f)
  case Nil
  then show ?case by (simp add: action_simps)
next
  case (Cons nc rs)
  obtain n c where nc: "nc = (n, c)" by (cases nc)
  have new: "map_of rs n = None" using Cons.prems nc by (simp add: map_of_eq_None_iff)
  have "(registry f)(n \<mapsto> registered_call ops n c) ++ (\<lambda>m. map_option (registered_call ops m) (map_of rs m)) =
      registry f ++ (\<lambda>m. map_option (registered_call ops m) (map_of ((n, c) # rs) m))"
    using new by (auto simp: map_add_def fun_eq_iff split: option.split)
  then show ?case
    using Cons.IH[of "f\<lparr>registry := (registry f)(n \<mapsto> registered_call ops n c)\<rparr>"] Cons.prems nc
    by (simp add: register_def action_simps del: fun_upd_apply map_of.simps)
qed

definition builtin :: "string list" where
  "builtin = [''log'', ''rd'', ''wr'']"

lemma connection_factory_simps:
  "registry (connection_factory ops) = (\<lambda>n. map_option (registered_call ops n) (map_of registered n))"
  "middleware_registry (connection_factory ops) m = (if m \<in> set builtin then Some (\<lambda>x. Inr (Wrapped m x)) else None)"
proof -
  have d: "distinct (map fst registered)" by code_simp
  show "registry (connection_factory ops) = (\<lambda>n. map_option (registered_call ops n) (map_of registered n))"
    by (simp add: connection_factory_def register_builtin_middleware_def register_middleware_def action_simps
        register_all_result[OF d] init_factory_def)
  show "middleware_registry (connection_factory ops) m = (if m \<in> set builtin then Some (\<lambda>x. Inr (Wrapped m x)) else None)"
    by (auto simp: connection_factory_def register_builtin_middleware_def register_middleware_def action_simps
        register_all_result[OF d] init_factory_def builtin_def)
qed

definition wrapped_in :: "made \<Rightarrow> string list \<Rightarrow> made" where
  "wrapped_in x ms = foldl (\<lambda>y m. Wrapped m y) x ms"

lemma wrapped_in_simps [simp]: "wrapped_in x [] = x" "wrapped_in x (m # ms) = wrapped_in (Wrapped m x) ms"
  by (simp_all add: wrapped_in_def)

lemma wrap_all_builtin:
  "set ms \<subseteq> set builtin \<Longrightarrow>
    wrap_all (map (\<lambda>m. the (middleware_registry (connection_factory ops) m)) ms) x = Inr (wrapped_in x ms)"
  by (induction ms arbitrary: x) (simp_all add: connection_factory_simps)

text \<open>The object inside the middleware, and what it is for \<open>Capabilities\<close>.\<close>

fun core :: "made \<Rightarrow> made" where
  "core (Wrapped m x) = core x"
| "core x = x"

fun object_of :: "made \<Rightarrow> connection_object" where
  "object_of (Made c kw) = Instance c"
| "object_of (MadeUdp c s) = Instance c"
| "object_of (Wrapped m x) = Proxy (object_of x)"

lemma core_wrapped [simp]: "core (wrapped_in x ms) = core x"
  by (induction ms arbitrary: x) simp_all


lemma class_of_wrapped [simp]: "class_of (object_of (wrapped_in x ms)) = class_of (object_of x)"
  by (induction ms arbitrary: x) simp_all

lemma class_of_made: "construct ops c kw = Inr x \<Longrightarrow> class_of (object_of x) = c \<and> core x = x"
  by (cases c) (auto simp: construct_def made_udp_def fd_init_def bind_result_Inr)




text \<open>The arguments of a class without \<^verbatim>\<open>**kwds\<close> are among its parameters.\<close>

lemma bind_call_named:
  assumes "bind_call sg kw = Inr kw'" and "\<not> takes_kwds sg" and "kw k \<noteq> None"
  shows "k \<in> set (named sg)"
  using assms by (auto simp: bind_call_def split: if_splits)

lemma members_in_args:
  "members_of u k \<noteq> None \<Longrightarrow> (members_of u ++ map_of (u_query u)) k \<noteq> None"
  by (auto simp: map_add_def split: option.split)

lemma created_from_url:
  assumes "writable u"
  shows "create_connection ops bracketed_ok decode (Url (write_url u)) =
    (case map_of registered (u_type u) of
       None \<Rightarrow> Inl (UnknownConnectionTypeError (u_type u))
     | Some c \<Rightarrow>
         (case find (\<lambda>m. m \<notin> set builtin) (u_middleware u) of
            Some m \<Rightarrow> Inl (UnknownMiddlewareTypeError m)
          | None \<Rightarrow> bind_result (registered_call ops (u_type u) c (members_of u ++ map_of (u_query u)))
              (\<lambda>x. Inr (wrapped_in x (u_middleware u)))))"
proof -
  have f: "find (\<lambda>m. middleware_registry (connection_factory ops) m = None) ms = find (\<lambda>m. m \<notin> set builtin) ms" for ms
    by (simp add: connection_factory_simps cong: find_cong)
  have d: "spec_type (dict_of u) = Some (u_type u)" "spec_middleware (dict_of u) = Some (u_middleware u)"
    by (simp_all add: dict_of_def)
  have w: "wrap_all (map (\<lambda>m. the (middleware_registry (connection_factory ops) m)) ms) x = Inr (wrapped_in x ms)"
    if "find (\<lambda>m. m \<notin> set builtin) ms = None" for ms x
    using that by (intro wrap_all_builtin) (auto simp: find_None_iff)
  show ?thesis
  proof (cases "map_of registered (u_type u)")
    case (Some c)
    show ?thesis
      by (cases "registered_call ops (u_type u) c (members_of u ++ map_of (u_query u))")
        (simp_all add: create_connection_def create_def dict_of_written[OF assms] create_from_dict_def d
          find_middleware_result f connection_factory_simps(1) call_args_written Some w split: option.split)
  qed (simp add: create_connection_def create_def dict_of_written[OF assms] create_from_dict_def d connection_factory_simps(1))
qed

lemma made_with:
  assumes "writable u" and "map_of registered (u_type u) = Some c" and "u_type u \<noteq> ''udp-broadcast''"
    and "create_connection ops bracketed_ok decode (Url (write_url u)) = Inr x"
  shows "construct ops c (members_of u ++ map_of (u_query u)) = Inr (core x)"
    and "bind_call (signature_of c) (members_of u ++ map_of (u_query u)) = Inr (members_of u ++ map_of (u_query u))"
proof -
  obtain y where y: "construct ops c (members_of u ++ map_of (u_query u)) = Inr y" "x = wrapped_in y (u_middleware u)"
    using assms by (auto simp: created_from_url registered_call_def bind_result_Inr split: option.splits)
  then show "construct ops c (members_of u ++ map_of (u_query u)) = Inr (core x)"
    using class_of_made[OF y(1)] by simp
  then show "bind_call (signature_of c) (members_of u ++ map_of (u_query u)) = Inr (members_of u ++ map_of (u_query u))"
    by (auto simp: construct_def bind_result_Inr bind_call_def split: if_splits)
qed

text \<open>
  The network part of a URL is refused, with a \<^verbatim>\<open>TypeError\<close>, by the classes for what is on this machine.
\<close>

lemma local_urls:
  assumes "writable u" and "u_type u \<in> {''file'', ''fd'', ''serial'', ''dummy''}"
    and "create_connection ops bracketed_ok decode (Url (write_url u)) = Inr x"
  shows "u_host u = [] \<and> u_port u = None \<and> u_auth u = None"
proof -
  let ?kw = "members_of u ++ map_of (u_query u)"
  obtain c where c: "map_of registered (u_type u) = Some c" "c \<in> {FileConnection, FDConnection, SerialPortConnection, DummyConnection}"
    using assms(2) by (auto simp: registered_def)
  have "u_type u \<noteq> ''udp-broadcast''" using assms(2) by auto
  from made_with(2)[OF assms(1) c(1) this assms(3)]
  have b: "bind_call (signature_of c) ?kw = Inr ?kw" .
  have "\<not> takes_kwds (signature_of c)" using c(2) by (auto simp: parameters_defs)
  note used = bind_call_named[OF b this members_in_args]
  have n: "k \<notin> set (named (signature_of c))" if "k \<in> {''host'', ''port'', ''username''}" for k
    using that c(2) by (auto simp: named_def parameters_defs)
  have "members_of u k = None" if "k \<in> {''host'', ''port'', ''username''}" for k
  proof (rule ccontr)
    assume "members_of u k \<noteq> None"
    from used[OF this] n[OF that] show False by contradiction
  qed
  from this[of "''host''"] this[of "''port''"] this[of "''username''"] show ?thesis
    by (simp add: members_of_def split: if_splits)
qed

text \<open>On arguments that are strings, the choice of the port is that of \<open>Serial\<close>.\<close>

fun val_of_path :: "serial_path \<Rightarrow> val" where
  "val_of_path (PathStr s) = VStr s"
| "val_of_path (PathInt n) = VInt n"

definition serial_args :: "serial_path \<Rightarrow> usb_properties \<Rightarrow> kwargs" where
  "serial_args path u =
     (\<lambda>k. if k = ''path'' then Some (val_of_path path)
          else if k = ''vid'' then map_option VStr (usb_vid u)
          else if k = ''pid'' then map_option VStr (usb_pid u)
          else if k = ''manufacturer'' then map_option VStr (usb_manufacturer u)
          else if k = ''product'' then map_option VStr (usb_product u)
          else if k = ''serial_number'' then map_option VStr (usb_serial_number u) else None)"

lemma glob_val_str: "glob_val ops n (map_option VStr p) = Inr (name_matches n p)"
  by (simp add: glob_val_def name_matches_def split: option.split)

lemma val_port_matches_str: "val_port_matches ops (serial_args path u) p = Inr (port_info_matches p u)"
proof -
  have "map_option (val_str ops) (map_option VStr v) = v" for v by (cases v) simp_all
  moreover have "map_option VStr a = map_option VStr b \<longleftrightarrow> a = b" for a b by (cases a; cases b) simp_all
  ultimately show ?thesis
    by (auto simp: val_port_matches_def serial_args_def glob_val_str port_info_matches_def)
qed

lemma find_val_port_str: "find_val_port ops (serial_args path u) ps = find_matching_usb_device ps u"
  by (induction ps) (simp_all add: val_port_matches_str find_matching_usb_device_def)

lemma resolve_val_path_str:
  "resolve_val_path ops ports (serial_args path u) = map_sum id val_of_path (resolve_path ports path u)"
proof -
  have ids: "(serial_args path u)(''vid'' \<mapsto> VStr v, ''pid'' \<mapsto> VStr p) =
      serial_args path (u\<lparr>usb_vid := Some v, usb_pid := Some p\<rparr>)" for v p
    by (auto simp: serial_args_def fun_eq_iff)
  have lift: "bind_result r (\<lambda>d. Inr (VStr d)) = map_sum id val_of_path (map_sum id PathStr r)" for r :: "exn + string"
    by (cases r) simp_all
  have g: "given (serial_args path u) ''path'' (VStr []) = val_of_path path"
    by (simp add: given_def serial_args_def)
  have s: "val_str ops (val_of_path path) = path_str path" "(val_of_path path = VInt 0 \<or> val_of_path path = VStr []) \<longleftrightarrow> \<not> path_truthy path"
    by (cases path; simp)+
  show ?thesis
    unfolding resolve_val_path_def Let_def g s ids find_val_port_str lift resolve_path_def
    by (simp split: option.split)
qed

lemma find_val_port_number:
  assumes "kw ''serial_number'' = Some (VInt i)"
  shows "find_val_port ops kw ps = Inl (RuntimeError ''No USB serial port matching specification'')"
proof (induction ps)
  case (Cons p ps)
  have "map_option VStr (port_serial_number p) \<noteq> Some (VInt i)" by (cases "port_serial_number p") simp_all
  then have "val_port_matches ops kw p = Inr False" using assms by (simp add: val_port_matches_def)
  then show ?case using Cons by simp
qed simp

text \<open>On typed arguments, the initialiser of UDP listeners stores what that of \<open>Sockets\<close> does.\<close>

definition settings_of :: "('w, 's) udp_listener \<Rightarrow> udp_settings" where
  "settings_of c =
     \<lparr>place_mode = bind_mode (binding c), place_value = VStr (bind_value (binding c)),
      place_port = VInt (bind_port (binding c)), to_broadcast = bind_broadcast (binding c),
      out_interface = map_option VStr (broadcast_interface c), out_port = broadcast_port c,
      multicast_out = map_option VStr (multicast_interface c), ttl = Sockets.multicast_ttl c,
      may_send_broadcast = allow_broadcast c, big_receive_buffer = maximize_receive_buffer c,
      big_send_buffer = maximize_send_buffer c, membership = None\<rparr>"

definition bool_val :: "bool \<Rightarrow> val" where
  "bool_val b = VInt (if b then 1 else 0)"

definition udp_args ::
  "string option \<Rightarrow> int \<Rightarrow> string option \<Rightarrow> string option \<Rightarrow> bool \<Rightarrow> string option \<Rightarrow> int option \<Rightarrow>
   string option \<Rightarrow> int option \<Rightarrow> bool \<Rightarrow> bool \<Rightarrow> kwargs" where
  "udp_args host p interface subnet allow bif bport mif hops maxr maxs =
     (\<lambda>k. if k = ''host'' then map_option VStr host
          else if k = ''port'' then Some (VInt p)
          else if k = ''interface'' then map_option VStr interface
          else if k = ''subnet'' then map_option VStr subnet
          else if k = ''allow_broadcast'' then Some (bool_val allow)
          else if k = ''broadcast_interface'' then map_option VStr bif
          else if k = ''broadcast_port'' then map_option VInt bport
          else if k = ''multicast_interface'' then map_option VStr mif
          else if k = ''multicast_ttl'' then map_option VInt hops
          else if k = ''maximize_receive_buffer'' then Some (bool_val maxr)
          else if k = ''maximize_send_buffer'' then Some (bool_val maxs) else None)"

lemma udp_init_typed:
  "udp_init ops (udp_args host p interface subnet allow bif bport mif hops maxr maxs) =
    Inr (settings_of (init_udp_listener host p interface subnet allow bif bport mif hops maxr maxs w :: ('w, 's) udp_listener))"
    (is "udp_init ops ?kw = Inr (settings_of ?c)")
proof -
  have "optional_int ops (map_option VInt v) = Inr v" for v by (simp add: optional_int_def split: option.split)
  then have i: "optional_int ops (?kw ''broadcast_port'') = Inr bport" "optional_int ops (?kw ''multicast_ttl'') = Inr hops"
    by (simp_all add: udp_args_def)
  have v: "val_int ops (given ?kw ''allow_broadcast'' d) = Inr (of_bool allow)"
    "val_int ops (given ?kw ''maximize_receive_buffer'' d) = Inr (of_bool maxr)"
    "val_int ops (given ?kw ''maximize_send_buffer'' d) = Inr (of_bool maxs)"
    "val_or (given ?kw ''port'' (VInt 0)) (VInt 0) = VInt p"
    "?kw ''broadcast_interface'' = map_option VStr bif" "?kw ''multicast_interface'' = map_option VStr mif" for d
    by (simp_all add: udp_args_def given_def bool_val_def val_or_def)
  have b: "udp_binding ops ?kw = (bind_mode (binding ?c), VStr (bind_value (binding ?c)))"
    by (auto simp: udp_binding_def udp_args_def choose_binding_def binding_fixed_def binding_to_interface_def
        binding_to_subnet_def given_def val_or_def init_udp_listener_def connection.extend_def Let_def split: option.split)
  have c: "bind_port (binding ?c) = p" "bind_broadcast (binding ?c) = False"
    "broadcast_interface ?c = bif" "broadcast_port ?c = bport" "multicast_interface ?c = mif" "Sockets.multicast_ttl ?c = hops"
    "allow_broadcast ?c \<longleftrightarrow> bport \<noteq> None \<or> allow" "maximize_receive_buffer ?c = maxr" "maximize_send_buffer ?c = maxs"
    by (simp_all add: init_udp_listener_def connection.extend_def Let_def choose_binding_def binding_fixed_def
        binding_to_interface_def binding_to_subnet_def split: option.split)
  show ?thesis
    unfolding udp_init_def settings_of_def i v b c bind_result_simps by (cases bport) (simp_all add: v c)
qed

text \<open>The factory of listeners on URLs.\<close>

definition listener_of :: "string \<Rightarrow> listener_class option" where
  "listener_of name =
     (if name = ''tcp'' then Some TCPSocketListener else if name = ''unix'' then Some UnixDomainSocketListener else None)"

lemma listener_factory_simps:
  "registry listener_factory n = map_option construct_listener (listener_of n)"
  "middleware_registry listener_factory m = None"
  by (auto simp: listener_factory_def listener_of_def register_def action_simps init_factory_def)

lemma listener_from_url:
  assumes "writable u"
  shows "make_listener bracketed_ok decode (Url (write_url u)) =
    (case listener_of (u_type u) of
       None \<Rightarrow> Inl (UnknownConnectionTypeError (u_type u))
     | Some c \<Rightarrow>
         (case u_middleware u of
            m # _ \<Rightarrow> Inl (UnknownMiddlewareTypeError m)
          | [] \<Rightarrow> construct_listener c (members_of u ++ map_of (u_query u))))"
proof -
  have "spec_type (dict_of u) = Some (u_type u)" "spec_middleware (dict_of u) = Some (u_middleware u)"
    by (simp_all add: dict_of_def)
  then show ?thesis
    by (simp add: make_listener_def create_def dict_of_written[OF assms] create_from_dict_def listener_factory_simps
        call_args_written split: option.split list.split sum.split)
qed

lemma listener_arguments:
  assumes "construct_listener c kw = Inr (d, args)"
  shows "d = c \<and> args = kw \<and> dom kw \<subseteq> set (named (listener_parameters c)) \<and>
    (c = UnixDomainSocketListener \<longrightarrow> kw ''path'' \<noteq> None)"
  using assms
  by (cases c) (auto simp: construct_listener_def bind_result_Inr bind_call_def tcp_socket_parameters_def
      unix_socket_parameters_def params_def split: if_splits)

section \<open>Properties\<close>

text \<open>
  C20. What a URL creates. The type must be one of the thirteen that the modules register, else that is
  the error; then the first middleware that is not \<^verbatim>\<open>log\<close>, \<^verbatim>\<open>rd\<close> or \<^verbatim>\<open>wr\<close> is reported; then the class
  is called with the members of the URL, overridden by its parameters, and refuses them or makes
  a connection, around which the middleware is put, the first named innermost.
\<close>

theorem create_connection_from_url:
  assumes "writable u"
  shows "create_connection ops bracketed_ok decode (Url (write_url u)) =
    (case map_of registered (u_type u) of
       None \<Rightarrow> Inl (UnknownConnectionTypeError (u_type u))
     | Some c \<Rightarrow>
         (case find (\<lambda>m. m \<notin> set builtin) (u_middleware u) of
            Some m \<Rightarrow> Inl (UnknownMiddlewareTypeError m)
          | None \<Rightarrow> bind_result (registered_call ops (u_type u) c (members_of u ++ map_of (u_query u)))
              (\<lambda>x. Inr (wrapped_in x (u_middleware u)))))"
  using assms by (rule created_from_url)


text \<open>
  No URL can ask for one and a half stop bits. A serial connection made from a URL uses one stop bit if
  none are given or the parameter is 1, two if it is 2, and for anything else, \<^verbatim>\<open>stopbits=1.5\<close> included,
  opening the port fails with \<^verbatim>\<open>ValueError\<close>: parameters are integers or strings, the third documented setting is
  only recognised as a float.
\<close>

theorem serial_url_stop_bits:
  assumes "writable u" and "u_type u = ''serial''"
    and "create_connection ops bracketed_ok decode (Url (write_url u)) = Inr x"
  shows "\<exists>kw st. core x = Made SerialPortConnection kw \<and> val_stop (given kw ''stopbits'' (VInt 1)) = Some st \<and>
    serial_stop st =
      (case map_of (u_query u) ''stopbits'' of
         None \<Rightarrow> Inr STOPBITS_ONE
       | Some v \<Rightarrow>
           if v = VInt 1 then Inr STOPBITS_ONE
           else if v = VInt 2 then Inr STOPBITS_TWO
           else Inl (ValueError ''unsupported stop bit count''))"
proof -
  let ?kw = "members_of u ++ map_of (u_query u)"
  have "map_of registered (u_type u) = Some SerialPortConnection" by (simp add: assms(2) registered_def)
  from made_with[OF assms(1) this _ assms(3)] have m: "core x = Made SerialPortConnection ?kw"
    by (simp add: assms(2) construct_def)
  have g: "given ?kw ''stopbits'' (VInt 1) = (case map_of (u_query u) ''stopbits'' of None \<Rightarrow> VInt 1 | Some v \<Rightarrow> v)"
    by (simp add: given_def map_add_def members_of_def split: option.split)
  show ?thesis
  proof (cases "map_of (u_query u) ''stopbits''")
    case None
    then show ?thesis using m g by (auto simp: serial_stop_def)
  next
    case (Some v)
    then have "plain_val v"
      using assms(1) map_of_SomeD[OF Some] by (auto simp: writable_def list_all_iff)
    then show ?thesis using m g Some by (cases v) (auto simp: serial_stop_def)
  qed
qed

text \<open>
  A serial number of digits finds no device. If the parameter \<^verbatim>\<open>serial_number\<close> of a URL looks like a number it
  is made one, and is then equal to no string that a device reports: with any ports connected, a serial connection
  without a path fails to find its device.
\<close>

theorem serial_url_numeric_serial_number:
  assumes "writable u" and "u_type u = ''serial''" and "map_of (u_query u) ''serial_number'' = Some (VInt i)"
    and "u_path u = []" and "map_of (u_query u) ''path'' = None"
    and "create_connection ops bracketed_ok decode (Url (write_url u)) = Inr x"
  shows "\<exists>kw. core x = Made SerialPortConnection kw \<and>
    resolve_val_path ops ports kw = Inl (RuntimeError ''No USB serial port matching specification'')"
proof -
  let ?kw = "members_of u ++ map_of (u_query u)"
  have "map_of registered (u_type u) = Some SerialPortConnection" by (simp add: assms(2) registered_def)
  from made_with[OF assms(1) this _ assms(6)] have m: "core x = Made SerialPortConnection ?kw"
    by (simp add: assms(2) construct_def)
  have k: "given ?kw ''path'' (VStr []) = VStr []" "?kw ''serial_number'' = Some (VInt i)"
    using assms(3-5) by (simp_all add: given_def map_add_def members_of_def)
  have "resolve_val_path ops ports ?kw = Inl (RuntimeError ''No USB serial port matching specification'')"
    unfolding resolve_val_path_def k(1) Let_def by (simp add: find_val_port_number[of ?kw, OF k(2)])
  with m show ?thesis by blast
qed

text \<open>
  C40. Listeners of a URL. Only \<^verbatim>\<open>tcp\<close> and \<^verbatim>\<open>unix\<close> are known, no middleware is, and the listener made has exactly the
  arguments of the URL: a TCP listener without a path or a user, a Unix listener with a path and neither host,
  port nor user; every other parameter is refused, unlike by the connections of the same names.
\<close>

theorem listener_urls:
  assumes "writable u" and "make_listener bracketed_ok decode (Url (write_url u)) = Inr (c, args)"
  shows "args = members_of u ++ map_of (u_query u) \<and> u_middleware u = [] \<and> u_auth u = None \<and>
    (case c of
       TCPSocketListener \<Rightarrow> u_type u = ''tcp'' \<and> u_path u = [] \<and>
         fst ` set (u_query u) \<subseteq> {''host'', ''port'', ''handler'', ''nursery''}
     | UnixDomainSocketListener \<Rightarrow> u_type u = ''unix'' \<and> u_host u = [] \<and> u_port u = None \<and>
         args ''path'' \<noteq> None \<and> fst ` set (u_query u) \<subseteq> {''path'', ''mode'', ''handler'', ''nursery''})"
proof -
  let ?kw = "members_of u ++ map_of (u_query u)"
  have *: "listener_of (u_type u) = Some c" "u_middleware u = []" "construct_listener c ?kw = Inr (c, args)"
    using assms by (auto simp: listener_from_url dest: listener_arguments split: option.splits list.splits)
  note arg = listener_arguments[OF *(3)]
  have dom: "dom (members_of u) \<union> fst ` set (u_query u) \<subseteq> set (named (listener_parameters c))"
    using arg by (auto simp: dom_map_of_conv_image_fst)
  have no: "members_of u k = None" if "k \<notin> set (named (listener_parameters c))" for k
    using dom that by blast
  show ?thesis
  proof (cases c)
    case TCPSocketListener
    then have n: "set (named (listener_parameters c)) = {''host'', ''port'', ''handler'', ''nursery''}"
      by (auto simp: named_def tcp_socket_parameters_def trio_listener_parameters_def params_def)
    have "members_of u ''path'' = None" "members_of u ''username'' = None" by (rule no, simp add: n)+
    moreover have "u_type u = ''tcp''" using *(1) TCPSocketListener by (auto simp: listener_of_def split: if_splits)
    ultimately show ?thesis using *(2) arg dom n TCPSocketListener by (simp add: members_of_def split: if_splits)
  next
    case UnixDomainSocketListener
    then have n: "set (named (listener_parameters c)) = {''path'', ''mode'', ''handler'', ''nursery''}"
      by (auto simp: named_def unix_socket_parameters_def trio_listener_parameters_def params_def)
    have "members_of u ''host'' = None" "members_of u ''port'' = None" "members_of u ''username'' = None"
      by (rule no, simp add: n)+
    moreover have "u_type u = ''unix''" using *(1) UnixDomainSocketListener by (auto simp: listener_of_def split: if_splits)
    ultimately show ?thesis using *(2) arg dom n UnixDomainSocketListener by (simp add: members_of_def split: if_splits)
  qed
qed

section \<open>Witnesses\<close>

definition no_objects :: object_ops where
  "no_objects = \<lparr>object_str = (\<lambda>_. []), object_int = (\<lambda>_. Inr 0), object_has_slash = (\<lambda>_. Inr False),
     object_lower = (\<lambda>_. Inr []), address_is_multicast = (\<lambda>_. Inr False)\<rparr>"

theorem create_connection_from_url_witness:
  "\<exists>kw. create_connection no_objects (\<lambda>_. True) (\<lambda>_. []) (Url (write_url sample)) =
     Inr (Wrapped ''log'' (Made TCPStreamConnection kw)) \<and> kw ''host'' = Some (VStr ''localhost'')"
  using create_connection_from_url[OF sample_writable, of no_objects "\<lambda>_. True" "\<lambda>_. []"]
  by (simp add: sample_def registered_def builtin_def registered_call_def construct_def parameters_defs bind_call_def members_of_def
      map_add_def)

definition serial_url :: "(string \<times> val) list \<Rightarrow> url_spec" where
  "serial_url q = \<lparr>u_type = ''serial'', u_middleware = [], u_auth = None, u_host = [], u_port = None, u_path = [],
     u_query = q\<rparr>"

lemma serial_url_written:
  assumes "plain k" and "plain_val v" and "k \<in> {''stopbits'', ''serial_number''}"
  shows "writable (serial_url [(k, v)])"
    and "create_connection no_objects (\<lambda>_. True) (\<lambda>_. []) (Url (write_url (serial_url [(k, v)]))) =
      Inr (Made SerialPortConnection [k \<mapsto> v])"
proof -
  show w: "writable (serial_url [(k, v)])"
    using assms(1,2) by (simp add: writable_def serial_url_def plain_auth_def plain_def type_char_def is_lower_def write_netloc_def write_host_def)
  have m: "members_of (serial_url [(k, v)]) = Map.empty" by (auto simp: members_of_def serial_url_def fun_eq_iff)
  show "create_connection no_objects (\<lambda>_. True) (\<lambda>_. []) (Url (write_url (serial_url [(k, v)]))) =
      Inr (Made SerialPortConnection [k \<mapsto> v])"
    using assms(3) unfolding created_from_url[OF w] m
    by (auto simp: serial_url_def registered_def registered_call_def construct_def parameters_defs bind_call_def named_def)
qed

lemma plain_values: "plain ''stopbits''" "plain ''serial_number''" "plain_val (VStr ''1.5'')" "plain_val (VInt 42)"
proof -
  have "py_int ''1.5'' = None" by code_simp
  then show "plain_val (VStr ''1.5'')" by (simp add: plain_def plain_char_def is_digit_def)
  have "(10::int) ^ 2 \<le> 10 ^ max_str_digits"
    by (rule power_increasing; simp add: max_str_digits_def)
  moreover have "(42::int) < 10 ^ 2" by simp
  ultimately show "plain_val (VInt 42)" by (simp only: plain_val.simps)
qed (simp_all add: plain_def plain_char_def is_alpha_def is_lower_def)


theorem serial_url_stop_bits_witness:
  "\<exists>st. val_stop (VStr ''1.5'') = Some st \<and> serial_stop st = Inl (ValueError ''unsupported stop bit count'')"
  using serial_url_stop_bits[of "serial_url [(''stopbits'', VStr ''1.5'')]" no_objects "\<lambda>_. True" "\<lambda>_. []"]
    serial_url_written[OF plain_values(1,3)]
  by (auto simp: given_def) (simp_all add: serial_url_def)

definition reporting_42 :: port_info where
  "reporting_42 = \<lparr>port_device = ''/dev/ttyUSB0'', port_vid = Some 0x0403, port_pid = Some 0x6001,
     port_manufacturer = None, port_product = None, port_serial_number = Some ''42''\<rparr>"

theorem serial_url_numeric_serial_number_witness:
  "resolve_val_path no_objects [reporting_42] [''serial_number'' \<mapsto> VInt 42] =
     Inl (RuntimeError ''No USB serial port matching specification'')"
  using serial_url_numeric_serial_number[of "serial_url [(''serial_number'', VInt 42)]" 42 no_objects "\<lambda>_. True" "\<lambda>_. []"
      _ "[reporting_42]"]
    serial_url_written[OF plain_values(2,4)]
  by (simp add: serial_url_def)

text \<open>
  \<^verbatim>\<open>unix:/run/app?mode=600\<close>: the permissions are read as a decimal number, 1130 in octal, by which the owner may
  not connect; there is no way to write them in octal.
\<close>

definition unix_url :: url_spec where
  "unix_url = \<lparr>u_type = ''unix'', u_middleware = [], u_auth = None, u_host = [], u_port = None, u_path = ''/run/app'',
     u_query = [(''mode'', VInt 600)]\<rparr>"

lemma unix_url_writable: "writable unix_url"
proof -
  have "(600::int) < 10 ^ 3" "(10::int) ^ 3 \<le> 10 ^ max_str_digits"
    by simp (rule power_increasing; simp add: max_str_digits_def)
  then have "plain_val (VInt 600)" by simp
  then show ?thesis
    by (simp add: writable_def unix_url_def plain_auth_def plain_def type_char_def plain_char_def is_lower_def is_alpha_def
        write_netloc_def write_host_def)
qed

lemma permissions_in_decimal:
  "\<exists>args. make_listener (\<lambda>_. True) (\<lambda>_. []) (Url (write_url unix_url)) = Inr (UnixDomainSocketListener, args) \<and>
    args ''path'' = Some (VStr ''/run/app'') \<and> args ''mode'' = Some (VInt 600)"
proof -
  have m: "members_of unix_url = [''path'' \<mapsto> VStr ''/run/app'']" by (auto simp: members_of_def unix_url_def fun_eq_iff)
  show ?thesis
    unfolding listener_from_url[OF unix_url_writable] m
    by (simp add: unix_url_def listener_of_def construct_listener_def bind_call_def unix_socket_parameters_def
        trio_listener_parameters_def params_def named_def)
qed

theorem listener_urls_witness:
  "\<exists>args. args ''mode'' = Some (VInt 600) \<and> args ''path'' = Some (VStr ''/run/app'') \<and> u_host unix_url = []"
proof -
  obtain args where "make_listener (\<lambda>_. True) (\<lambda>_. []) (Url (write_url unix_url)) = Inr (UnixDomainSocketListener, args)"
    using permissions_in_decimal by blast
  from listener_urls[OF unix_url_writable this] show ?thesis
    by (intro exI[of _ args]) (simp add: unix_url_def members_of_def)
qed

end
