(* ===== verification/Supervised_Connection.thy ===== *)
theory Supervised_Connection
  imports Supervision Connection_Tasks
begin

text \<open>
  \<open>supervise()\<close> (\<^verbatim>\<open>connections/supervision.py\<close>) on a connection of the package that other tasks open
  and close at the same time: the interleaving of the supervisor with the system of
  \<open>Connection_Tasks\<close>, in which the supervisor is task 0.

  In each session the supervisor waits for the end of the connection, or opens a nursery in which
  the task and a watcher of the connection run side by side, each in \<^verbatim>\<open>_wait_and_call\<close>: the first to
  end cancels the other. Of Trio's nursery the model has what its documentation promises: a child
  that raises cancels the others, a cancelled child ends in its own time, with \<^verbatim>\<open>Cancelled\<close>, normally
  or with another exception; the block is left when all children have ended; the exceptions
  of the children, with a cancellation from outside, come out as one exception group, which \<open>pack\<close> makes.
\<close>

section \<open>State\<close>

text \<open>
  Where \<open>supervise()\<close> is: in \<^verbatim>\<open>connection.open()\<close>, in the nursery, in \<^verbatim>\<open>disconnection_event()\<close> without
  a task (the flag says whether it has been released), in \<^verbatim>\<open>sleep()\<close>, or at its end.
\<close>

datatype place = Opening | InNursery | Watching bool | Sleeping rat | Over "unit outcome"

text \<open>The second child of the nursery: not yet in its wait, in it (released or not), ended.\<close>

datatype watcher = NotWaiting | WaitingFor bool | Gone

text \<open>\<open>told\<close> records the calls of the policy with their answers.\<close>

record 'p supervision =
  net :: sys
  place :: place
  task_runs :: bool
  watcher :: watcher
  scope_cancel :: bool
  outer_cancel :: bool
  caught :: "exn list"
  policy_state :: 'p
  told :: "(Supervision.event \<times> answer outcome) list"

text \<open>Another state of the connection releases those who wait for its end.\<close>

definition notice :: "sys \<Rightarrow> 'p supervision \<Rightarrow> 'p supervision" where
  "notice n s =
     (let now = \<not> is_disconnected_flag (link (net s)) \<and> is_disconnected_flag (link n)
      in s\<lparr>net := n,
           place := (case place s of Watching r \<Rightarrow> Watching (r \<or> now) | p \<Rightarrow> p),
           watcher := (case watcher s of WaitingFor r \<Rightarrow> WaitingFor (r \<or> now) | x \<Rightarrow> x)\<rparr>)"

section \<open>Between two waits\<close>

definition tell :: "'p policy \<Rightarrow> Supervision.event \<Rightarrow> 'p supervision \<Rightarrow> answer outcome \<times> 'p supervision" where
  "tell policy ev s =
     (case policy ev (policy_state s) of
        (r, p) \<Rightarrow> (r, s\<lparr>policy_state := p, told := told s @ [(ev, r)]\<rparr>))"

text \<open>The call of the policy at the end of an attempt, and the action it proposes.\<close>

definition heed :: "answer \<Rightarrow> place" where
  "heed a =
     (if a = AnswerBool False \<or> a = AnswerNone then Over (Returns ())
      else case delay_of a of
             Some d \<Rightarrow> Sleeping d
           | None \<Rightarrow> Over (Raises (invalid_action a)))"

definition decide :: "'p policy \<Rightarrow> Supervision.event \<Rightarrow> 'p supervision \<Rightarrow> 'p supervision" where
  "decide policy ev s =
     (case tell policy ev s of
        (Returns a, s') \<Rightarrow> s'\<lparr>place := heed a\<rparr>
      | (Raises e, s') \<Rightarrow> s'\<lparr>place := Over (Raises e)\<rparr>
      | (Blocks, s') \<Rightarrow> s'\<lparr>place := Over Blocks\<rparr>)"

text \<open>An exception in the \<^verbatim>\<open>try\<close> block: \<^verbatim>\<open>except Exception\<close> hands it to the policy.\<close>

definition fails :: "'p policy \<Rightarrow> exn \<Rightarrow> 'p supervision \<Rightarrow> 'p supervision" where
  "fails policy e s =
     (if is_Exception e then decide policy (Supervision.Failed e) s else s\<lparr>place := Over (Raises e)\<rparr>)"

definition enter_session :: "bool \<Rightarrow> 'p supervision \<Rightarrow> 'p supervision" where
  "enter_session has_task s =
     (if has_task
      then s\<lparr>place := InNursery, task_runs := True, watcher := NotWaiting, scope_cancel := False, caught := []\<rparr>
      else s\<lparr>place := Watching (is_disconnected_flag (link (net s)))\<rparr>)"

text \<open>After \<open>open()\<close> has returned: the policy is told, and the session begins.\<close>

definition opened :: "bool \<Rightarrow> 'p policy \<Rightarrow> 'p supervision \<Rightarrow> 'p supervision" where
  "opened has_task policy s =
     (case tell policy Opened s of
        (Returns _, s') \<Rightarrow> enter_session has_task s'
      | (Raises e, s') \<Rightarrow> fails policy e s'
      | (Blocks, s') \<Rightarrow> s'\<lparr>place := Over Blocks\<rparr>)"

definition after_open :: "bool \<Rightarrow> 'p policy \<Rightarrow> 'p supervision \<Rightarrow> 'p supervision" where
  "after_open has_task policy s = (if pcs (net s) 0 = Done Open then opened has_task policy s else s)"

text \<open>The beginning of a pass of the loop.\<close>

definition try_open :: "bool \<Rightarrow> 'p policy \<Rightarrow> 'p supervision \<Rightarrow> 'p supervision" where
  "try_open has_task policy s = after_open has_task policy (s\<lparr>net := begin_call Open 0 (net s), place := Opening\<rparr>)"

text \<open>The end of the \<^verbatim>\<open>async with open_nursery()\<close> block.\<close>

definition leave_nursery :: "(exn list \<Rightarrow> exn) \<Rightarrow> 'p policy \<Rightarrow> 'p supervision \<Rightarrow> 'p supervision" where
  "leave_nursery pack policy s =
     (let es = caught s @ (if outer_cancel s then [Cancelled] else [])
      in if es = [] then decide policy Closed s else fails policy (pack es) s)"

definition blank :: "sys \<Rightarrow> 'p \<Rightarrow> 'p supervision" where
  "blank n p = \<lparr>net = n, place = Opening, task_runs = False, watcher = Gone, scope_cancel = False,
     outer_cancel = False, caught = [], policy_state = p, told = []\<rparr>"

section \<open>Steps\<close>

fun who :: "Connection_Tasks.event \<Rightarrow> nat" where
  "who (Call _ t) = t"
| "who (Resume t) = t"
| "who (HookReturns t) = t"
| "who (HookRaises t) = t"
| "who (Cancel t) = t"

text \<open>
  The steps of the supervisor and of the children of its nursery. \<open>cancel\<close> is the bound method
  \<^verbatim>\<open>nursery.cancel_scope.cancel\<close>, called by \<^verbatim>\<open>_wait_and_call\<close> once its first argument has returned.
\<close>

inductive own_step ::
  "bool \<Rightarrow> 'p policy \<Rightarrow> (exn list \<Rightarrow> exn) \<Rightarrow> 'p supervision \<Rightarrow> 'p supervision \<Rightarrow> bool" for has_task policy pack where
  open_resumes:
    "place s = Opening \<Longrightarrow> step (Resume 0) (net s) = Some n \<Longrightarrow>
     own_step has_task policy pack s (after_open has_task policy (notice n s))"
| open_returns:
    "place s = Opening \<Longrightarrow> step (HookReturns 0) (net s) = Some n \<Longrightarrow>
     own_step has_task policy pack s (after_open has_task policy (notice n s))"
| open_raises:
    "place s = Opening \<Longrightarrow> step (HookRaises 0) (net s) = Some n \<Longrightarrow>
     own_step has_task policy pack s (fails policy e (notice n s))"
| open_cancelled:
    "place s = Opening \<Longrightarrow> step (Cancel 0) (net s) = Some n \<Longrightarrow>
     own_step has_task policy pack s (fails policy Cancelled (notice n s))"
| watch_ends:
    "place s = Watching True \<Longrightarrow> own_step has_task policy pack s (decide policy Closed s)"
| watch_cancelled:
    "place s = Watching r \<Longrightarrow> own_step has_task policy pack s (fails policy Cancelled s)"
| watcher_starts:
    "place s = InNursery \<Longrightarrow> watcher s = NotWaiting \<Longrightarrow>
     own_step has_task policy pack s (s\<lparr>watcher := WaitingFor (is_disconnected_flag (link (net s)))\<rparr>)"
| watcher_ends:
    "place s = InNursery \<Longrightarrow> watcher s = WaitingFor True \<Longrightarrow>
     own_step has_task policy pack s (s\<lparr>watcher := Gone, scope_cancel := True\<rparr>)"
| watcher_cancelled:
    "place s = InNursery \<Longrightarrow> watcher s = WaitingFor r \<Longrightarrow> scope_cancel s \<or> outer_cancel s \<Longrightarrow>
     own_step has_task policy pack s (s\<lparr>watcher := Gone\<rparr>)"
| task_returns:
    "place s = InNursery \<Longrightarrow> task_runs s \<Longrightarrow>
     own_step has_task policy pack s (s\<lparr>task_runs := False, scope_cancel := True\<rparr>)"
| task_raises:
    "place s = InNursery \<Longrightarrow> task_runs s \<Longrightarrow> e \<noteq> Cancelled \<Longrightarrow>
     own_step has_task policy pack s (s\<lparr>task_runs := False, scope_cancel := True, caught := caught s @ [e]\<rparr>)"
| task_cancelled:
    "place s = InNursery \<Longrightarrow> task_runs s \<Longrightarrow> scope_cancel s \<or> outer_cancel s \<Longrightarrow>
     own_step has_task policy pack s (s\<lparr>task_runs := False\<rparr>)"
| nursery_cancelled:
    "place s = InNursery \<Longrightarrow> own_step has_task policy pack s (s\<lparr>outer_cancel := True\<rparr>)"
| nursery_left:
    "place s = InNursery \<Longrightarrow> \<not> task_runs s \<Longrightarrow> watcher s = Gone \<Longrightarrow>
     own_step has_task policy pack s (leave_nursery pack policy s)"
| sleep_ends:
    "place s = Sleeping d \<Longrightarrow> 0 \<le> d \<Longrightarrow> own_step has_task policy pack s (try_open has_task policy s)"
| sleep_refused:
    "place s = Sleeping d \<Longrightarrow> d < 0 \<Longrightarrow> own_step has_task policy pack s (s\<lparr>place := Over (Raises e)\<rparr>)"
| sleep_cancelled:
    "place s = Sleeping d \<Longrightarrow> own_step has_task policy pack s (s\<lparr>place := Over (Raises Cancelled)\<rparr>)"

inductive sv_step ::
  "bool \<Rightarrow> 'p policy \<Rightarrow> (exn list \<Rightarrow> exn) \<Rightarrow> 'p supervision \<Rightarrow> 'p supervision \<Rightarrow> bool" for has_task policy pack where
  own: "own_step has_task policy pack s s' \<Longrightarrow> sv_step has_task policy pack s s'"
| other: "step e (net s) = Some n \<Longrightarrow> who e \<noteq> 0 \<Longrightarrow> sv_step has_task policy pack s (notice n s)"

inductive sv_reachable ::
  "bool \<Rightarrow> 'p policy \<Rightarrow> (exn list \<Rightarrow> exn) \<Rightarrow> 'p supervision \<Rightarrow> bool" for has_task policy pack where
  sv_starts: "reachable n \<Longrightarrow> pcs n 0 = Idle \<Longrightarrow>
    sv_reachable has_task policy pack (try_open has_task policy (blank n p))"
| sv_moves: "sv_reachable has_task policy pack s \<Longrightarrow> sv_step has_task policy pack s s' \<Longrightarrow>
    sv_reachable has_task policy pack s'"


section \<open>What a step leaves alone\<close>

lemma notice_simps [simp]:
  "net (notice n s) = n" "task_runs (notice n s) = task_runs s" "scope_cancel (notice n s) = scope_cancel s"
  "outer_cancel (notice n s) = outer_cancel s" "caught (notice n s) = caught s"
  "policy_state (notice n s) = policy_state s" "told (notice n s) = told s"
  "(place (notice n s) = Opening) = (place s = Opening)"
  "(place (notice n s) = InNursery) = (place s = InNursery)"
  "(place (notice n s) = Sleeping d) = (place s = Sleeping d)"
  "(place (notice n s) = Over r) = (place s = Over r)"
  "(watcher (notice n s) = Gone) = (watcher s = Gone)"
  by (auto simp: notice_def Let_def split: place.split watcher.split)

text \<open>What \<open>supervise()\<close> does between two waits is a way from one place to the next.\<close>

definition session_over :: "'p supervision \<Rightarrow> bool" where
  "session_over s \<longleftrightarrow> \<not> task_runs s \<and> watcher s = Gone"

lemma decide_fields [simp]:
  "net (decide policy ev s) = net s" "task_runs (decide policy ev s) = task_runs s"
  "watcher (decide policy ev s) = watcher s" "scope_cancel (decide policy ev s) = scope_cancel s"
  "outer_cancel (decide policy ev s) = outer_cancel s" "caught (decide policy ev s) = caught s"
  by (auto simp: decide_def tell_def split: outcome.split prod.split)

lemma fails_fields [simp]:
  "net (fails policy e s) = net s" "task_runs (fails policy e s) = task_runs s"
  "watcher (fails policy e s) = watcher s" "scope_cancel (fails policy e s) = scope_cancel s"
  "outer_cancel (fails policy e s) = outer_cancel s" "caught (fails policy e s) = caught s"
  by (simp_all add: fails_def)

lemma heed_cases: "(\<exists>d. heed a = Sleeping d) \<or> (\<exists>r. heed a = Over r)"
  by (auto simp: heed_def split: option.split)

lemma decide_place: "(\<exists>d. place (decide policy ev s) = Sleeping d) \<or> (\<exists>r. place (decide policy ev s) = Over r)"
  using heed_cases by (auto simp: decide_def tell_def split: outcome.split prod.split)

lemma fails_place: "(\<exists>d. place (fails policy e s) = Sleeping d) \<or> (\<exists>r. place (fails policy e s) = Over r)"
  using decide_place by (auto simp: fails_def)


section \<open>Invariants\<close>

text \<open>The supervisor is in a call of \<open>open()\<close>, or in none.\<close>

definition opens :: "pc \<Rightarrow> bool" where
  "opens p \<longleftrightarrow> p = InHook Open \<or> (\<exists>st r. p = Waiting Open st r)"

definition calm :: "sys \<Rightarrow> bool" where
  "calm n \<longleftrightarrow> reachable n \<and> \<not> in_call (pcs n 0)"

definition ended :: "sys \<Rightarrow> bool" where
  "ended n \<longleftrightarrow> conn_state (link n) = DISCONNECTED"

definition sv_inv :: "'p supervision \<Rightarrow> bool" where
  "sv_inv s \<longleftrightarrow> reachable (net s) \<and>
     (if place s = Opening then opens (pcs (net s) 0) else \<not> in_call (pcs (net s) 0)) \<and>
     (place s \<noteq> InNursery \<longrightarrow> session_over s) \<and>
     (\<forall>r. place s = Watching r \<longrightarrow> ended (net s) \<longrightarrow> r) \<and>
     (\<forall>r. watcher s = WaitingFor r \<longrightarrow> ended (net s) \<longrightarrow> r) \<and>
     (place s = InNursery \<longrightarrow> \<not> task_runs s \<or> watcher s = Gone \<longrightarrow> scope_cancel s \<or> outer_cancel s) \<and>
     (place s = InNursery \<longrightarrow> caught s \<noteq> [] \<longrightarrow> scope_cancel s)"

lemma opens_simps [simp]:
  "opens (InHook k) = (k = Open)" "opens (Waiting k st r) = (k = Open)" "\<not> opens Idle" "\<not> opens (Done k)"
  "\<not> opens (Connection_Tasks.Failed k)"
  by (auto simp: opens_def)

lemma ended_flag: "reachable n \<Longrightarrow> is_disconnected_flag (link n) = ended n"
  using reachable_inv[of n] by (auto simp: tasks_inv_def flags_ok_def ended_def)

text \<open>A step of another task leaves the supervisor where it is.\<close>

lemma release1_in_call [simp]: "in_call (release1 c c' p) = in_call p" "opens (release1 c c' p) = opens p"
  by (cases p; simp)+

lemma other_pc:
  assumes "step e n = Some n'" and "who e \<noteq> 0"
  shows "in_call (pcs n' 0) = in_call (pcs n 0)" "opens (pcs n' 0) = opens (pcs n 0)"
  using assms
  by (cases e; auto simp: begin_call_eq Let_def sys_simps split: if_splits pc.splits bool.splits)+

lemma open_call_pc: "opens (pcs (begin_call Open 0 n) 0) \<or> pcs (begin_call Open 0 n) 0 = Done Open"
  by (auto simp: begin_call_eq Let_def sys_simps)

lemma open_resumes_pc:
  assumes "step (Resume 0) n = Some n'" and "opens (pcs n 0)"
  shows "opens (pcs n' 0) \<or> pcs n' 0 = Done Open"
  using assms by (auto simp: sys_simps split: pc.splits bool.splits)

lemma open_returns_pc:
  assumes "step (HookReturns 0) n = Some n'" and "opens (pcs n 0)"
  shows "pcs n' 0 = Done Open"
  using assms by (auto simp: sys_simps split: pc.splits)

lemma open_fails_pc:
  assumes "step (HookRaises 0) n = Some n' \<or> step (Cancel 0) n = Some n'"
  shows "\<not> in_call (pcs n' 0)"
  using assms by (auto simp: sys_simps split: pc.splits)

lemma reachable_begin: "calm n \<Longrightarrow> reachable (begin_call Open 0 n)"
  using next_step[of n "Call Open 0" "begin_call Open 0 n"] by (simp add: calm_def)

text \<open>Each way of leaving a wait keeps the invariant.\<close>

lemma inv_settled:
  assumes "calm (net s)" "session_over s" "(\<exists>d. place s = Sleeping d) \<or> (\<exists>r. place s = Over r)"
  shows "sv_inv s"
  using assms by (auto simp: sv_inv_def calm_def session_over_def)

lemma decide_inv: "calm (net s) \<Longrightarrow> session_over s \<Longrightarrow> sv_inv (decide policy ev s)"
  using decide_place[of policy ev s] by (intro inv_settled) (auto simp: session_over_def)

lemma fails_inv: "calm (net s) \<Longrightarrow> session_over s \<Longrightarrow> sv_inv (fails policy e s)"
  using fails_place[of policy e s] by (intro inv_settled) (auto simp: session_over_def)

lemma enter_session_inv: "calm (net s) \<Longrightarrow> session_over s \<Longrightarrow> sv_inv (enter_session has_task s)"
  by (auto simp: enter_session_def sv_inv_def calm_def session_over_def ended_flag)

lemma tell_fields:
  assumes "tell policy ev s = (r, s')"
  shows "net s' = net s" "session_over s' = session_over s" "place s' = place s"
    "told s' = told s @ [(ev, r)]" "outer_cancel s' = outer_cancel s"
  using assms by (auto simp: tell_def session_over_def split: prod.splits)

lemma opened_inv:
  assumes "calm (net s)" "session_over s"
  shows "sv_inv (opened has_task policy s)"
proof -
  obtain r s' where t: "tell policy Opened s = (r, s')" by (cases "tell policy Opened s")
  have "calm (net s')" "session_over s'" using tell_fields[OF t] assms by simp_all
  then show ?thesis
    by (cases r) (auto simp: opened_def t enter_session_inv fails_inv session_over_def intro: inv_settled)
qed

lemma after_open_inv:
  assumes "reachable (net s)" "place s = Opening" "session_over s"
    and "opens (pcs (net s) 0) \<or> pcs (net s) 0 = Done Open"
  shows "sv_inv (after_open has_task policy s)"
proof (cases "pcs (net s) 0 = Done Open")
  case True
  then show ?thesis using assms by (auto simp: after_open_def calm_def intro: opened_inv)
next
  case False
  then show ?thesis using assms by (auto simp: after_open_def sv_inv_def session_over_def)
qed

lemma try_open_inv: "calm (net s) \<Longrightarrow> session_over s \<Longrightarrow> sv_inv (try_open has_task policy s)"
  unfolding try_open_def
  using open_call_pc[of "net s"] by (intro after_open_inv) (simp_all add: reachable_begin session_over_def)

lemma inv_calm: "sv_inv s \<Longrightarrow> place s \<noteq> Opening \<Longrightarrow> calm (net s)"
  by (simp add: sv_inv_def calm_def)

lemma inv_session_over: "sv_inv s \<Longrightarrow> place s \<noteq> InNursery \<Longrightarrow> session_over s"
  by (simp add: sv_inv_def)

lemma own_step_inv:
  assumes "own_step has_task policy pack s s'" and "sv_inv s"
  shows "sv_inv s'"
  using assms(1)
proof (cases rule: own_step.cases)
  case (open_resumes n)
  have "reachable n" using assms(2) next_step[OF _ open_resumes(3)] by (simp add: sv_inv_def)
  moreover have "opens (pcs n 0) \<or> pcs n 0 = Done Open"
    using open_resumes_pc[OF open_resumes(3)] open_resumes(2) assms(2) by (simp add: sv_inv_def)
  ultimately show ?thesis unfolding open_resumes(1)
    using open_resumes(2) assms(2) by (intro after_open_inv) (auto simp: sv_inv_def session_over_def)
next
  case (open_returns n)
  have "reachable n" using assms(2) next_step[OF _ open_returns(3)] by (simp add: sv_inv_def)
  moreover have "pcs n 0 = Done Open"
    using open_returns_pc[OF open_returns(3)] open_returns(2) assms(2) by (simp add: sv_inv_def)
  ultimately show ?thesis unfolding open_returns(1)
    using open_returns(2) assms(2) by (intro after_open_inv) (auto simp: sv_inv_def session_over_def)
next
  case (open_raises n e)
  have "calm n" using assms(2) next_step[OF _ open_raises(3)] open_fails_pc open_raises(3)
    unfolding sv_inv_def calm_def by blast
  then show ?thesis unfolding open_raises(1)
    using open_raises(2) assms(2) by (intro fails_inv) (auto simp: sv_inv_def session_over_def)
next
  case (open_cancelled n)
  have "calm n" using assms(2) next_step[OF _ open_cancelled(3)] open_fails_pc open_cancelled(3)
    unfolding sv_inv_def calm_def by blast
  then show ?thesis unfolding open_cancelled(1)
    using open_cancelled(2) assms(2) by (intro fails_inv) (auto simp: sv_inv_def session_over_def)
next
  case watch_ends
  then show ?thesis using inv_calm[OF assms(2)] inv_session_over[OF assms(2)] by (simp add: decide_inv)
next
  case (watch_cancelled r)
  then show ?thesis using inv_calm[OF assms(2)] inv_session_over[OF assms(2)] by (simp add: fails_inv)
next
  case nursery_left
  have "calm (net s)" "session_over s"
    using inv_calm[OF assms(2)] nursery_left(2-4) by (simp_all add: session_over_def)
  then show ?thesis unfolding nursery_left(1)
    by (auto simp: leave_nursery_def Let_def intro: decide_inv fails_inv)
next
  case (sleep_ends d)
  then show ?thesis using inv_calm[OF assms(2)] inv_session_over[OF assms(2)] by (simp add: try_open_inv)
qed (use assms(2) in \<open>auto simp: sv_inv_def session_over_def ended_flag\<close>)

lemma sv_step_inv:
  assumes "sv_step has_task policy pack s s'" and "sv_inv s"
  shows "sv_inv s'"
  using assms(1)
proof (cases rule: sv_step.cases)
  case own
  then show ?thesis using assms(2) by (rule own_step_inv)
next
  case (other e n)
  have r: "reachable (net s)" "reachable n" using next_step[OF _ other(2)] assms(2) by (simp_all add: sv_inv_def)
  have "session_over (notice n s) = session_over s" by (simp add: session_over_def)
  then show ?thesis
    using assms(2) other_pc[OF other(2,3)] ended_flag[OF r(1)] ended_flag[OF r(2)] r
    unfolding other(1) by (auto simp: sv_inv_def notice_def Let_def split: place.splits watcher.splits)
qed

lemma sv_reachable_inv: "sv_reachable has_task policy pack s \<Longrightarrow> sv_inv s"
proof (induction rule: sv_reachable.induct)
  case (sv_starts n p)
  then show ?case by (intro try_open_inv) (simp_all add: blank_def calm_def session_over_def)
qed (blast intro: sv_step_inv)


section \<open>The calls of the policy\<close>

definition log_ok :: "(Supervision.event \<times> answer outcome) list \<Rightarrow> Supervision.event list \<Rightarrow> bool" where
  "log_ok l t \<longleftrightarrow> (\<exists>rounds. (\<forall>x \<in> set rounds. whole_round x) \<and> map fst l = concat rounds @ t)"

definition last_answer :: "(Supervision.event \<times> answer outcome) list \<Rightarrow> answer \<Rightarrow> bool" where
  "last_answer l a \<longleftrightarrow> l \<noteq> [] \<and> fst (last l) \<noteq> Opened \<and> snd (last l) = Returns a"

definition log_inv :: "'p supervision \<Rightarrow> bool" where
  "log_inv s =
     (case place s of
        Opening \<Rightarrow> log_ok (told s) []
      | Sleeping d \<Rightarrow> log_ok (told s) [] \<and> (\<exists>a. last_answer (told s) a \<and> delay_of a = Some d)
      | Over r \<Rightarrow> (log_ok (told s) [] \<or> log_ok (told s) [Opened]) \<and>
          (r = Returns () \<longrightarrow> log_ok (told s) [] \<and> (\<exists>a \<in> {AnswerNone, AnswerBool False}. last_answer (told s) a))
      | _ \<Rightarrow> log_ok (told s) [Opened])"

lemma log_ok_Nil [simp]: "log_ok [] []"
  unfolding log_ok_def by (rule exI[of _ "[]"]) simp

lemma log_ok_opened: "log_ok l [] \<Longrightarrow> log_ok (l @ [(Opened, r)]) [Opened]"
  unfolding log_ok_def by auto

lemma log_ok_round:
  assumes "log_ok l t" and "whole_round (t @ [ev])"
  shows "log_ok (l @ [(ev, r)]) []"
proof -
  obtain rounds where "\<forall>x \<in> set rounds. whole_round x" "map fst l = concat rounds @ t"
    using assms(1) by (auto simp: log_ok_def)
  then show ?thesis using assms(2)
    unfolding log_ok_def by (intro exI[of _ "rounds @ [t @ [ev]]"]) auto
qed

lemma whole_round_simps [simp]:
  "whole_round [Opened, Closed]" "is_Exception e \<Longrightarrow> whole_round [Supervision.Failed e]"
  "is_Exception e \<Longrightarrow> whole_round [Opened, Supervision.Failed e]"
  by (auto simp: whole_round_def)

lemma decide_log:
  assumes "log_ok (told s) t" "whole_round (t @ [ev])" "ev \<noteq> Opened"
  shows "log_inv (decide policy ev s)"
proof -
  obtain r s' where t: "tell policy ev s = (r, s')" by (cases "tell policy ev s")
  have l: "log_ok (told s') []" using tell_fields(4)[OF t] log_ok_round[OF assms(1,2)] by simp
  have a: "r = Returns a \<Longrightarrow> last_answer (told s') a" for a
    using tell_fields(4)[OF t] assms(3) by (simp add: last_answer_def)
  show ?thesis using l a
    by (cases r) (auto simp: decide_def t log_inv_def heed_def split: option.split)
qed

lemma fails_log:
  assumes "log_ok (told s) t" "t = [] \<or> t = [Opened]"
  shows "log_inv (fails policy e s)"
proof (cases "is_Exception e")
  case True
  then show ?thesis using assms by (auto simp: fails_def intro!: decide_log[where t = t])
next
  case False
  then show ?thesis using assms by (auto simp: fails_def log_inv_def)
qed

lemma opened_log:
  assumes "log_ok (told s) []"
  shows "log_inv (opened has_task policy s)"
proof -
  obtain r s' where t: "tell policy Opened s = (r, s')" by (cases "tell policy Opened s")
  have l: "log_ok (told s') [Opened]" using tell_fields(4)[OF t] log_ok_opened[OF assms] by simp
  then show ?thesis
    by (cases r) (auto simp: opened_def t log_inv_def enter_session_def intro!: fails_log[where t = "[Opened]", unfolded log_inv_def])
qed

lemma after_open_log:
  "place s = Opening \<Longrightarrow> log_ok (told s) [] \<Longrightarrow> log_inv (after_open has_task policy s)"
  by (simp add: after_open_def opened_log) (simp add: log_inv_def)

lemma own_step_log:
  assumes "own_step has_task policy pack s s'" and "log_inv s"
  shows "log_inv s'"
  using assms(1)
proof (cases rule: own_step.cases)
  case (open_resumes n)
  then show ?thesis using assms(2) by (auto simp: log_inv_def[of s] intro!: after_open_log)
next
  case (open_returns n)
  then show ?thesis using assms(2) by (auto simp: log_inv_def[of s] intro!: after_open_log)
next
  case (open_raises n e)
  then show ?thesis using assms(2) by (auto simp: log_inv_def[of s] intro!: fails_log)
next
  case (open_cancelled n)
  then show ?thesis using assms(2) by (auto simp: log_inv_def[of s] intro!: fails_log)
next
  case watch_ends
  then show ?thesis using assms(2) by (auto simp: log_inv_def[of s] intro!: decide_log[where t = "[Opened]"])
next
  case (watch_cancelled r)
  then show ?thesis using assms(2) by (auto simp: log_inv_def[of s] intro!: fails_log[where t = "[Opened]"])
next
  case nursery_left
  then have "log_ok (told s) [Opened]" using assms(2) by (simp add: log_inv_def)
  then show ?thesis unfolding nursery_left(1)
    by (auto simp: leave_nursery_def Let_def intro: decide_log fails_log)
next
  case (sleep_ends d)
  then show ?thesis using assms(2) by (auto simp: log_inv_def[of s] try_open_def intro!: after_open_log)
qed (use assms(2) in \<open>auto simp: log_inv_def\<close>)

lemma sv_reachable_log: "sv_reachable has_task policy pack s \<Longrightarrow> log_inv s"
proof (induction rule: sv_reachable.induct)
  case (sv_starts n p)
  show ?case unfolding try_open_def by (rule after_open_log) (simp_all add: blank_def)
next
  case (sv_moves s s')
  from sv_moves(2) show ?case
  proof (cases rule: sv_step.cases)
    case own
    then show ?thesis using sv_moves(3) by (rule own_step_log)
  next
    case (other e n)
    then show ?thesis using sv_moves(3) by (auto simp: log_inv_def notice_def Let_def split: place.splits)
  qed
qed


section \<open>The end of a session\<close>

lemma opened_caught: "caught (opened has_task policy s) = caught s \<or> caught (opened has_task policy s) = []"
  by (auto simp: opened_def tell_def enter_session_def split: outcome.split prod.split)

lemma after_open_caught:
  "caught (after_open has_task policy s) = caught s \<or> caught (after_open has_task policy s) = []"
  using opened_caught by (auto simp: after_open_def)

lemma no_cancelled_caught:
  "sv_reachable has_task policy pack s \<Longrightarrow> Cancelled \<notin> set (caught s)"
proof (induction rule: sv_reachable.induct)
  case (sv_starts n p)
  show ?case unfolding try_open_def
    using after_open_caught[of has_task policy "blank n p\<lparr>net := begin_call Open 0 (net (blank n p)), place := Opening\<rparr>"]
    by (auto simp: blank_def)
next
  case (sv_moves s s')
  have ao: "Cancelled \<notin> set (caught (after_open has_task policy t))" if "caught t = caught s" for t
    using after_open_caught[of has_task policy t] that sv_moves(3) by auto
  from sv_moves(2) show ?case
  proof (cases rule: sv_step.cases)
    case own
    then show ?thesis using sv_moves(3)
      by (cases rule: own_step.cases) (auto simp: ao try_open_def leave_nursery_def Let_def)
  next
    case (other e n)
    then show ?thesis using sv_moves(3) by simp
  qed
qed

text \<open>The children of the nursery, once one has been told to stop or the connection has ended, both end.\<close>

lemma watcher_goes:
  assumes "sv_inv s" "place s = InNursery" "ended (net s)"
  obtains s' where "(own_step has_task policy pack)\<^sup>*\<^sup>* s s'" "s' = s\<lparr>watcher := Gone, scope_cancel := scope_cancel s'\<rparr>"
    "scope_cancel s' \<or> outer_cancel s'"
proof -
  let ?own = "own_step has_task policy pack" and ?done = "s\<lparr>watcher := Gone, scope_cancel := True\<rparr>"
  have flag: "is_disconnected_flag (link (net s))" using assms ended_flag by (simp add: sv_inv_def)
  show thesis
  proof (cases "watcher s")
    case NotWaiting
    have 1: "?own s (s\<lparr>watcher := WaitingFor True\<rparr>)"
      using own_step.watcher_starts[OF assms(2) NotWaiting] flag by simp
    have 2: "?own (s\<lparr>watcher := WaitingFor True\<rparr>) ?done"
      using own_step.watcher_ends[of "s\<lparr>watcher := WaitingFor True\<rparr>"] assms(2) by simp
    show thesis
      by (rule that[of ?done], rule converse_rtranclp_into_rtranclp[OF 1 r_into_rtranclp[of ?own, OF 2]]) simp_all
  next
    case (WaitingFor r)
    then have "r" using assms(1,3) by (auto simp: sv_inv_def)
    then have "?own s ?done" using WaitingFor assms(2) own_step.watcher_ends by simp
    then show thesis by (intro that[of ?done]) auto
  next
    case Gone
    then have "scope_cancel s \<or> outer_cancel s" using assms(1,2) by (simp add: sv_inv_def)
    with Gone show thesis by (intro that[of s]) simp_all
  qed
qed

lemma session_drains:
  assumes "sv_inv s" "place s = InNursery" "ended (net s)"
  obtains s' where "(own_step has_task policy pack)\<^sup>*\<^sup>* s s'"
    "s' = s\<lparr>watcher := Gone, scope_cancel := scope_cancel s', task_runs := False\<rparr>"
proof -
  let ?own = "own_step has_task policy pack"
  obtain u where u: "?own\<^sup>*\<^sup>* s u" "u = s\<lparr>watcher := Gone, scope_cancel := scope_cancel u\<rparr>"
      "scope_cancel u \<or> outer_cancel u"
    by (rule watcher_goes[OF assms])
  have pl: "place u = InNursery" by (subst u(2)) (simp add: assms(2))
  show thesis
  proof (cases "task_runs u")
    case True
    have "?own u (u\<lparr>task_runs := False\<rparr>)" by (rule own_step.task_cancelled[OF pl True u(3)])
    then have "?own\<^sup>*\<^sup>* s (u\<lparr>task_runs := False\<rparr>)" using u(1) by (simp add: rtranclp.rtrancl_into_rtrancl)
    moreover have "u\<lparr>task_runs := False\<rparr> =
        s\<lparr>watcher := Gone, scope_cancel := scope_cancel u, task_runs := False\<rparr>"
      by (subst u(2)) simp
    ultimately show thesis by (intro that[of "u\<lparr>task_runs := False\<rparr>"]) simp_all
  next
    case False
    have "u = u\<lparr>task_runs := False\<rparr>" using False by simp
    also have "\<dots> = s\<lparr>watcher := Gone, scope_cancel := scope_cancel u, task_runs := False\<rparr>"
      by (subst u(2)) simp
    finally show thesis using u(1) by (intro that[of u])
  qed
qed

lemma leave_nursery_place:
  "(\<exists>d. place (leave_nursery pack policy s) = Sleeping d) \<or> (\<exists>r. place (leave_nursery pack policy s) = Over r)"
  by (simp add: leave_nursery_def Let_def decide_place fails_place)

lemma leave_nursery_fields [simp]:
  "net (leave_nursery pack policy s) = net s" "task_runs (leave_nursery pack policy s) = task_runs s"
  "outer_cancel (leave_nursery pack policy s) = outer_cancel s"
  by (simp_all add: leave_nursery_def Let_def)

text \<open>
  The steps of a session that nobody disturbs: it is not cancelled from outside, and the task does not
  end before it is cancelled. What is left is what \<open>supervise()\<close> itself brings about.
\<close>

definition driven ::
  "bool \<Rightarrow> 'p policy \<Rightarrow> (exn list \<Rightarrow> exn) \<Rightarrow> 'p supervision \<Rightarrow> 'p supervision \<Rightarrow> bool" where
  "driven has_task policy pack s s' \<longleftrightarrow>
     place s = InNursery \<and> own_step has_task policy pack s s' \<and> s' \<noteq> s \<and> outer_cancel s' = outer_cancel s \<and>
     (task_runs s \<and> \<not> task_runs s' \<longrightarrow> scope_cancel s \<or> outer_cancel s)"

text \<open>How far the children of the nursery are from their ends.\<close>

definition children_left :: "'p supervision \<Rightarrow> nat" where
  "children_left s = (if task_runs s then 1 else 0) + (case watcher s of NotWaiting \<Rightarrow> 2 | WaitingFor _ \<Rightarrow> 1 | Gone \<Rightarrow> 0)"

lemma children_left_le: "children_left s \<le> 3"
  by (simp add: children_left_def split: watcher.split)

lemma driven_step:
  assumes "driven has_task policy pack s s'"
  shows "net s' = net s \<and> (place s' = InNursery \<longrightarrow> children_left s' < children_left s)"
proof -
  have p: "place s = InNursery" and st: "own_step has_task policy pack s s'" and o: "outer_cancel s' = outer_cancel s"
    and ch: "s' \<noteq> s" using assms by (auto simp: driven_def)
  show ?thesis using st
  proof cases
    case nursery_cancelled
    then show ?thesis using o ch by (cases "outer_cancel s") auto
  next
    case nursery_left
    then show ?thesis using leave_nursery_place[of pack policy s] by auto
  qed (use p in \<open>auto simp: children_left_def\<close>)
qed

lemma driven_on:
  assumes "sv_inv s" "place s = InNursery" "ended (net s)"
  shows "\<exists>s'. driven has_task policy pack s s'"
proof (cases "watcher s")
  case NotWaiting
  show ?thesis
    by (rule exI[of _ "s\<lparr>watcher := WaitingFor (is_disconnected_flag (link (net s)))\<rparr>"])
       (use own_step.watcher_starts[OF assms(2) NotWaiting, of has_task policy pack] assms(2) NotWaiting in
         \<open>auto simp: driven_def dest: arg_cong[of _ _ watcher]\<close>)
next
  case (WaitingFor r)
  then have w: "watcher s = WaitingFor True" using assms by (auto simp: sv_inv_def)
  show ?thesis
    by (rule exI[of _ "s\<lparr>watcher := Gone, scope_cancel := True\<rparr>"])
       (use own_step.watcher_ends[OF assms(2) w, of has_task policy pack] assms(2) w in
         \<open>auto simp: driven_def dest: arg_cong[of _ _ watcher]\<close>)
next
  case Gone
  then have c: "scope_cancel s \<or> outer_cancel s" using assms by (auto simp: sv_inv_def)
  show ?thesis
  proof (cases "task_runs s")
    case True
    show ?thesis
      by (rule exI[of _ "s\<lparr>task_runs := False\<rparr>"])
         (use own_step.task_cancelled[OF assms(2) True c, of has_task policy pack] assms(2) True c in
           \<open>auto simp: driven_def dest: arg_cong[of _ _ task_runs]\<close>)
  next
    case False
    have "leave_nursery pack policy s \<noteq> s" using leave_nursery_place[of pack policy s] assms(2) by auto
    then show ?thesis using own_step.nursery_left[OF assms(2) False Gone, of has_task policy pack] assms(2) False
      by (intro exI[of _ "leave_nursery pack policy s"]) (simp add: driven_def)
  qed
qed

lemma driven_own: "driven has_task policy pack s s' \<Longrightarrow> own_step has_task policy pack s s'"
  by (simp add: driven_def)

lemma driven_path:
  assumes "sv_inv s" "ended (net s)" "(driven has_task policy pack ^^ n) s s'" "place s' = InNursery"
  shows "sv_inv s' \<and> ended (net s') \<and> n + children_left s' \<le> children_left s"
  using assms(3,4)
proof (induction n arbitrary: s')
  case 0
  then show ?case using assms(1,2) by simp
next
  case (Suc n)
  obtain u where u: "(driven has_task policy pack ^^ n) s u" "driven has_task policy pack u s'"
    using Suc.prems(1) by auto
  have "place u = InNursery" using u(2) by (simp add: driven_def)
  note IH = Suc.IH[OF u(1) this]
  then have "sv_inv s'" using own_step_inv[OF driven_own[OF u(2)]] by blast
  then show ?case using IH driven_step[OF u(2)] Suc.prems(2) by auto
qed

lemma driven_out:
  assumes "sv_inv s" "place s = InNursery" "ended (net s)"
  shows "\<exists>s'. (driven has_task policy pack)\<^sup>*\<^sup>* s s' \<and> place s' \<noteq> InNursery \<and> \<not> task_runs s'"
  using assms
proof (induction "children_left s" arbitrary: s rule: less_induct)
  case less
  obtain u where u: "driven has_task policy pack s u" using driven_on[OF less.prems] by blast
  have inv: "sv_inv u" by (rule own_step_inv[OF driven_own[OF u] less.prems(1)])
  show ?case
  proof (cases "place u = InNursery")
    case True
    then obtain s' where "(driven has_task policy pack)\<^sup>*\<^sup>* u s'" "place s' \<noteq> InNursery \<and> \<not> task_runs s'"
      using less.hyps[of u] inv driven_step[OF u] less.prems(3) by auto
    then show ?thesis using u by (meson converse_rtranclp_into_rtranclp)
  next
    case False
    then show ?thesis using inv r_into_rtranclp[of "driven has_task policy pack", OF u]
      by (intro exI[of _ u]) (simp add: sv_inv_def session_over_def)
  qed
qed

section \<open>The way back to a connection\<close>

abbreviation steady :: "rat \<Rightarrow> 'p policy" where
  "steady d \<equiv> constant_delay_policy d"

definition up_again :: "'p supervision \<Rightarrow> bool" where
  "up_again s \<longleftrightarrow> conn_state (link (net s)) = CONNECTED \<and> place s \<in> {InNursery, Watching False}"

lemma steady_decides: "place (decide (steady d) ev s) = Sleeping d"
  by (simp add: decide_def tell_def constant_delay_policy_def constant_policy_def action_simps heed_def delay_of_def)

lemma steady_opened:
  "place (opened has_task (steady d) s) =
     (if has_task then InNursery else Watching (is_disconnected_flag (link (net s))))"
  "net (opened has_task (steady d) s) = net s"
  by (simp_all add: opened_def tell_def constant_delay_policy_def constant_policy_def action_simps enter_session_def)

lemma steady_sleeps:
  assumes "sv_reachable has_task (steady d) pack s"
  shows "place s = Sleeping d' \<Longrightarrow> d' = d"
  using assms
proof (induction rule: sv_reachable.induct)
  case (sv_starts n p)
  then show ?case by (auto simp: try_open_def after_open_def steady_opened split: if_splits)
next
  case (sv_moves s s')
  note fin = steady_decides fails_def leave_nursery_def Let_def try_open_def after_open_def steady_opened
  from sv_moves(2) show ?case
  proof (cases rule: sv_step.cases)
    case own
    then show ?thesis using sv_moves(3,4)
      by (cases rule: own_step.cases) (auto simp: fin simp del: step.simps split: if_splits)
  next
    case (other e n)
    then show ?thesis using sv_moves(3,4) by simp
  qed
qed

lemma up_from_hook:
  assumes "place s = Opening" "pcs (net s) 0 = InHook Open" "reachable (net s)"
  shows "\<exists>s'. own_step has_task (steady d) pack s s' \<and> up_again s'"
proof -
  let ?n = "move 0 (Done Open) (change CONNECTED (net s))"
  have st: "step (HookReturns 0) (net s) = Some ?n" using assms(2) by simp
  have "reachable ?n" by (rule next_step[OF assms(3) st])
  then have "\<not> is_disconnected_flag (link ?n)"
    using ended_flag reachable_inv[OF assms(3)] by (auto simp: ended_def tasks_inv_def)
  moreover have "conn_state (link ?n) = CONNECTED"
    using reachable_inv[OF assms(3)] by (auto simp: tasks_inv_def)
  ultimately have "up_again (after_open has_task (steady d) (notice ?n s))"
    by (simp add: up_again_def after_open_def steady_opened pcs_move del: link_move link_change)
  then show ?thesis using own_step.open_returns[OF assms(1) st] by blast
qed

lemma up_from_sleep:
  assumes "place s = Sleeping d" "0 \<le> d" "calm (net s)" "ended (net s)"
  shows "\<exists>s'. (own_step has_task (steady d) pack)\<^sup>*\<^sup>* s s' \<and> up_again s'"
proof -
  let ?u = "try_open has_task (steady d) s"
  have call: "begin_call Open 0 (net s) = enter_hook Open 0 (net s)"
    using assms(4) by (simp add: begin_call_def ended_def)
  have u: "?u = s\<lparr>net := enter_hook Open 0 (net s), place := Opening\<rparr>"
    by (simp add: try_open_def after_open_def call sys_simps)
  have "place ?u = Opening" "pcs (net ?u) 0 = InHook Open" "reachable (net ?u)"
    using reachable_begin[OF assms(3)] by (simp_all add: u call sys_simps)
  then obtain s' where "own_step has_task (steady d) pack ?u s'" "up_again s'"
    using up_from_hook by blast
  then show ?thesis
    using own_step.sleep_ends[OF assms(1,2), of has_task "steady d" pack]
    by (meson converse_rtranclp_into_rtranclp r_into_rtranclp)
qed

lemma up_from_session:
  assumes "sv_inv s" "place s \<in> {InNursery, Watching r}" "ended (net s)" "0 \<le> d" "\<not> outer_cancel s"
    and "Cancelled \<notin> set (caught s)" and pack: "\<forall>es. Cancelled \<notin> set es \<longrightarrow> is_Exception (pack es)"
  shows "\<exists>s'. (own_step has_task (steady d) pack)\<^sup>*\<^sup>* s s' \<and> up_again s'"
proof -
  let ?own = "own_step has_task (steady d) pack"
  have calm: "calm (net s)" using inv_calm[OF assms(1)] assms(2) by auto
  obtain u where u: "?own\<^sup>*\<^sup>* s u" "place u = Sleeping d" "net u = net s"
  proof (cases "place s = InNursery")
    case True
    obtain v where v: "?own\<^sup>*\<^sup>* s v"
        "v = s\<lparr>watcher := Gone, scope_cancel := scope_cancel v, task_runs := False\<rparr>"
      by (rule session_drains[OF assms(1) True assms(3)])
    have f: "place v = InNursery" "\<not> task_runs v" "watcher v = Gone" "net v = net s" "caught v = caught s"
        "\<not> outer_cancel v"
      using True assms(5) by (subst v(2), simp)+
    have "is_Exception (pack (caught v))" using pack assms(6) f(5) by simp
    then have "place (leave_nursery pack (steady d) v) = Sleeping d"
      using f(6) by (simp add: leave_nursery_def Let_def steady_decides fails_def)
    moreover have "?own v (leave_nursery pack (steady d) v)" by (rule own_step.nursery_left[OF f(1-3)])
    ultimately show thesis using v(1) f(4)
      by (intro that[of "leave_nursery pack (steady d) v"]) (simp_all add: rtranclp.rtrancl_into_rtrancl)
  next
    case False
    then have "place s = Watching True" using assms(1-3) by (auto simp: sv_inv_def)
    then have "?own s (decide (steady d) Closed s)" by (rule own_step.watch_ends)
    then show thesis by (intro that[of "decide (steady d) Closed s"]) (simp_all add: steady_decides r_into_rtranclp)
  qed
  obtain s' where "?own\<^sup>*\<^sup>* u s'" "up_again s'"
    using up_from_sleep[OF u(2) assms(4)] u(3) calm assms(3) by auto
  then show ?thesis using u(1) rtranclp_trans by meson
qed


lemma up_from_open:
  assumes "sv_reachable has_task (steady d) pack s" "place s = Opening" "ended (net s)" "0 \<le> d" "\<not> outer_cancel s"
    and stuck: "pcs (net s) 0 \<noteq> Waiting Open CONNECTED False"
    and pack: "\<forall>es. Cancelled \<notin> set es \<longrightarrow> is_Exception (pack es)"
  shows "\<exists>s'. (own_step has_task (steady d) pack)\<^sup>*\<^sup>* s s' \<and> up_again s'"
proof -
  let ?own = "own_step has_task (steady d) pack"
  have inv: "sv_inv s" by (rule sv_reachable_inv[OF assms(1)])
  then have r: "reachable (net s)" and o: "opens (pcs (net s) 0)" using assms(2) by (simp_all add: sv_inv_def)
  show ?thesis
  proof (cases "pcs (net s) 0 = InHook Open")
    case True
    then show ?thesis using up_from_hook[OF assms(2) True r] by blast
  next
    case False
    then obtain st q where w: "pcs (net s) 0 = Waiting Open st q" using o by (auto simp: opens_def)
    have st: "st = CONNECTED \<or> st = DISCONNECTED" and lost: "\<not> q \<longrightarrow> st \<noteq> DISCONNECTED"
      using reachable_inv[OF r] w assms(3) by (fastforce simp: tasks_inv_def waits_wf_def no_lost_wakeup_def ended_def)+
    then have q: "q" using stuck w by auto
    let ?n = "after_wait Open st 0 (net s)" and ?u = "after_open has_task (steady d) (notice (after_wait Open st 0 (net s)) s)"
    have stp: "step (Resume 0) (net s) = Some ?n" using w q by simp
    have u: "?own s ?u" by (rule own_step.open_resumes[OF assms(2) stp])
    have inv_u: "sv_inv ?u" by (rule own_step_inv[OF u inv])
    show ?thesis
    proof (cases "st = CONNECTED")
      case True
      then have n: "pcs ?n 0 = Done Open" "link ?n = link (net s)" by (simp_all add: sys_simps)
      have "place ?u \<in> {InNursery, Watching True}" "net ?u = ?n"
        using n ended_flag[OF r] assms(3) by (simp_all add: after_open_def steady_opened)
      moreover have "\<not> outer_cancel ?u" "Cancelled \<notin> set (caught ?u)"
        using assms(5) no_cancelled_caught[OF assms(1)] after_open_caught[of has_task "steady d" "notice ?n s"]
        by (auto simp: after_open_def opened_def tell_def enter_session_def split: outcome.split prod.split)
      ultimately obtain s' where "?own\<^sup>*\<^sup>* ?u s'" "up_again s'"
        using up_from_session[OF inv_u _ _ assms(4) _ _ pack, of True] n assms(3) by (auto simp: ended_def)
      then show ?thesis using u by (meson converse_rtranclp_into_rtranclp)
    next
      case False
      then have n: "pcs ?n 0 = InHook Open" using st by (auto simp: sys_simps)
      then have "place ?u = Opening" "pcs (net ?u) 0 = InHook Open" "reachable (net ?u)"
        using inv_u assms(2) by (simp_all add: after_open_def sv_inv_def)
      then obtain s' where "?own ?u s'" "up_again s'" using up_from_hook by blast
      then show ?thesis using u by (meson converse_rtranclp_into_rtranclp r_into_rtranclp)
    qed
  qed
qed

section \<open>Two runs\<close>

text \<open>Another task is opening the connection when supervision begins.\<close>

definition busy_sys :: sys where
  "busy_sys = begin_call Open 2 init_sys"

definition joined :: "'p \<Rightarrow> 'p supervision" where
  "joined p = (blank busy_sys p)\<lparr>net := begin_call Open 0 busy_sys\<rparr>"

lemma busy_sys_reachable: "reachable busy_sys" "pcs busy_sys 0 = Idle"
  using next_step[OF reachable.start, of "Call Open 2" busy_sys]
  by (simp_all add: busy_sys_def) (simp_all add: init_sys_def init_connection_def begin_call_def sys_simps)

lemma joined_pcs:
  "pcs (net (joined p)) 0 = Waiting Open CONNECTED False" "pcs (net (joined p)) 2 = InHook Open"
  "t \<noteq> 0 \<Longrightarrow> t \<noteq> 2 \<Longrightarrow> pcs (net (joined p)) t = Idle" "link (net (joined p)) = set_state CONNECTING init_connection"
proof -
  have i: "conn_state (link init_sys) = DISCONNECTED" "link init_sys = init_connection" "pcs init_sys t = Idle" for t
    by (simp_all add: init_sys_def init_connection_def)
  have f: "\<not> is_connected_flag (set_state CONNECTING init_connection)"
    using flags_ok_set_state[OF flags_ok_init, of CONNECTING] by (simp add: flags_ok_def)
  have b: "busy_sys = enter_hook Open 2 init_sys" by (simp add: busy_sys_def begin_call_def i)
  have "conn_state (link busy_sys) = CONNECTING" by (subst b) (simp add: enter_hook_def i)
  then have "begin_call Open 0 busy_sys = wait_for Open CONNECTED 0 busy_sys" by (simp add: begin_call_def)
  then show "pcs (net (joined p)) 0 = Waiting Open CONNECTED False" "pcs (net (joined p)) 2 = InHook Open"
    "t \<noteq> 0 \<Longrightarrow> t \<noteq> 2 \<Longrightarrow> pcs (net (joined p)) t = Idle" "link (net (joined p)) = set_state CONNECTING init_connection"
    using f by (simp_all add: joined_def b sys_simps i)
qed

lemma joined_reachable: "sv_reachable has_task policy pack (joined p)"
proof -
  have "try_open has_task policy (blank busy_sys p) = joined p"
    using joined_pcs(1)[where p = p] by (simp add: try_open_def after_open_def joined_def blank_def)
  then show ?thesis using sv_starts[OF busy_sys_reachable, of has_task policy pack p] by simp
qed

lemma stranded_run:
  fixes policy :: "'p policy"
  shows "\<exists>s. sv_reachable has_task policy pack s \<and> place s = Opening \<and> conn_state (link (net s)) = DISCONNECTED \<and>
     (\<forall>t. t \<noteq> 0 \<longrightarrow> \<not> in_call (pcs (net s) t)) \<and> pcs (net s) 0 = Waiting Open CONNECTED False"
proof -
  fix p :: 'p
  let ?n = "move 2 (Connection_Tasks.Failed Open) (change DISCONNECTED (net (joined p)))"
  let ?s = "notice ?n (joined p)"
  have "step (HookRaises 2) (net (joined p)) = Some ?n" by (simp add: joined_pcs)
  then have "sv_step has_task policy pack (joined p) ?s" by (rule sv_step.other) simp
  then have "sv_reachable has_task policy pack ?s" by (rule sv_moves[OF joined_reachable])
  moreover have "pcs ?n 0 = Waiting Open CONNECTED False" "conn_state (link ?n) = DISCONNECTED"
    using joined_pcs[where p = p] by (simp_all add: pcs_move pcs_change)
  moreover have "\<not> in_call (pcs ?n t)" if "t \<noteq> 0" for t
    using joined_pcs[where p = p] that by (simp add: pcs_move pcs_change)
  moreover have "place ?s = Opening" by (simp add: joined_def blank_def)
  ultimately show ?thesis by (intro exI[of _ ?s]) simp
qed

lemma stuck_steps:
  assumes "own_step has_task policy pack s s'" "place s = Opening" "pcs (net s) 0 = Waiting Open CONNECTED False"
  shows "place s' = Over (Raises Cancelled)"
  using assms by (cases rule: own_step.cases) (auto simp: fails_def)

lemma can_be_cancelled:
  assumes "place s = Opening" "pcs (net s) 0 = Waiting Open CONNECTED False"
  shows "\<exists>s'. own_step has_task policy pack s s'"
proof -
  obtain n where "step (Cancel 0) (net s) = Some n" using assms(2) by (auto simp: sys_simps)
  then show ?thesis using own_step.open_cancelled[OF assms(1)] by blast
qed

lemma late_run:
  "\<exists>s :: 'p supervision. sv_reachable True (steady d) pack s \<and> task_runs s \<and> conn_state (link (net s)) = DISCONNECTED \<and>
     map fst (told s) = [Opened]"
proof -
  fix p :: 'p
  let ?sv = "sv_step True (steady d) pack"
  let ?n1 = "move 2 (Done Open) (change CONNECTED (net (joined p)))"
  let ?n2 = "enter_hook Close 2 ?n1"
  let ?n3 = "move 2 (Done Close) (change DISCONNECTED ?n2)"
  let ?n4 = "move 0 (Done Open) ?n3"
  let ?s1 = "notice ?n1 (joined p)" and ?s2 = "notice ?n2 (notice ?n1 (joined p))"
  let ?s3 = "notice ?n3 (notice ?n2 (notice ?n1 (joined p)))"
  let ?s4 = "after_open True (steady d) (notice ?n4 ?s3)"
  have f: "flags_ok (set_state CONNECTING init_connection)" by simp
  have "step (HookReturns 2) (net (joined p)) = Some ?n1" by (simp add: joined_pcs)
  then have 1: "?sv (joined p) ?s1" by (rule sv_step.other) simp
  have "step (Call Close 2) (net ?s1) = Some ?n2"
    by (simp add: joined_pcs begin_call_def pcs_move f)
  then have 2: "?sv ?s1 ?s2" by (rule sv_step.other) simp
  have "step (HookReturns 2) (net ?s2) = Some ?n3" by (simp add: sys_simps)
  then have 3: "?sv ?s2 ?s3" by (rule sv_step.other) simp
  have p0: "pcs ?n3 0 = Waiting Open CONNECTED True"
    using f by (simp add: sys_simps joined_pcs flags_ok_def)
  then have "step (Resume 0) (net ?s3) = Some ?n4" by (simp add: after_wait_def)
  then have "own_step True (steady d) pack ?s3 ?s4" by (intro own_step.open_resumes) (simp_all add: joined_def blank_def)
  then have 4: "?sv ?s3 ?s4" by (rule sv_step.own)
  have "sv_reachable True (steady d) pack ?s4"
    by (rule sv_moves[OF sv_moves[OF sv_moves[OF sv_moves[OF joined_reachable 1] 2] 3] 4])
  moreover have "net ?s4 = ?n4" "task_runs ?s4" "map fst (told ?s4) = [Opened]"
    by (simp_all add: after_open_def pcs_move opened_def tell_def enter_session_def constant_delay_policy_def
        constant_policy_def action_simps joined_def blank_def)
  moreover have "conn_state (link ?n4) = DISCONNECTED" using f by (simp add: enter_hook_def joined_pcs)
  ultimately show ?thesis by (intro exI[of _ ?s4]) simp
qed

section \<open>Properties\<close>

text \<open>
  C6. The calls of the policy under any interleaving. They come in rounds, one per attempt: the end of
  the attempt, preceded by \<^verbatim>\<open>"open"\<close> if \<^verbatim>\<open>open()\<close> returned; the last round is open exactly while a
  session is. The supervisor sleeps for the delay that the policy has just answered, and it returns
  only when the policy has answered \<^verbatim>\<open>None\<close> or \<^verbatim>\<open>False\<close> to the end of an attempt.
\<close>

theorem interleaved_policy_calls:
  assumes "sv_reachable has_task policy pack s"
  shows "\<exists>rounds tail. map fst (told s) = concat rounds @ tail \<and> (\<forall>x \<in> set rounds. whole_round x) \<and>
    (tail = [] \<or> tail = [Opened]) \<and>
    (place s = Opening \<longrightarrow> tail = []) \<and>
    (place s = InNursery \<or> place s = Watching r \<longrightarrow> tail = [Opened]) \<and>
    (place s = Sleeping d \<longrightarrow> tail = [] \<and> (\<exists>a. last_answer (told s) a \<and> delay_of a = Some d)) \<and>
    (place s = Over (Returns ()) \<longrightarrow> tail = [] \<and> (\<exists>a \<in> {AnswerNone, AnswerBool False}. last_answer (told s) a))"
proof -
  have inv: "log_inv s" by (rule sv_reachable_log[OF assms])
  have ok: "log_ok (told s) t \<Longrightarrow> \<exists>rounds. map fst (told s) = concat rounds @ t \<and> (\<forall>x \<in> set rounds. whole_round x)" for t
    by (auto simp: log_ok_def)
  show ?thesis
  proof (cases "log_ok (told s) [] \<and> place s \<noteq> InNursery \<and> (\<forall>r. place s \<noteq> Watching r)")
    case True
    then obtain rounds where "map fst (told s) = concat rounds @ []" "\<forall>x \<in> set rounds. whole_round x" using ok by blast
    then show ?thesis using inv True
      by (intro exI[of _ rounds] exI[of _ "[]"]) (auto simp: log_inv_def)
  next
    case False
    then have "log_ok (told s) [Opened]" "place s \<noteq> Opening \<and> place s \<noteq> Sleeping d \<and> place s \<noteq> Over (Returns ())"
      using inv by (auto simp: log_inv_def split: place.splits)
    then obtain rounds where "map fst (told s) = concat rounds @ [Opened]" "\<forall>x \<in> set rounds. whole_round x"
      using ok by blast
    then show ?thesis using \<open>place s \<noteq> Opening \<and> _\<close>
      by (intro exI[of _ rounds] exI[of _ "[Opened]"]) simp
  qed
qed

text \<open>
  C7. No task outlives its connection. The task runs only inside its session. Once the connection has
  ended, nobody need cancel the session from outside and the task need not want to end: as long as the
  session lasts, one of its own steps is possible, after at most three of them it is left, and then the
  task is over.
\<close>

theorem task_ends_with_connection:
  assumes "sv_reachable has_task policy pack s"
  shows "(task_runs s \<longrightarrow> place s = InNursery) \<and>
    (place s = InNursery \<and> conn_state (link (net s)) = DISCONNECTED \<longrightarrow>
       (\<forall>n s'. (driven has_task policy pack ^^ n) s s' \<and> place s' = InNursery \<longrightarrow>
          n \<le> 3 \<and> (\<exists>s''. driven has_task policy pack s' s'')) \<and>
       (\<exists>s'. (driven has_task policy pack)\<^sup>*\<^sup>* s s' \<and> place s' \<noteq> InNursery \<and> \<not> task_runs s'))"
proof -
  have inv: "sv_inv s" by (rule sv_reachable_inv[OF assms])
  have "n \<le> 3 \<and> (\<exists>s''. driven has_task policy pack s' s'')"
    if "place s = InNursery" "ended (net s)" "(driven has_task policy pack ^^ n) s s'" "place s' = InNursery" for n s'
    using driven_path[OF inv that(2,3,4)] driven_on[of s' has_task policy pack] that(4) children_left_le[of s] by auto
  moreover have "\<exists>s'. (driven has_task policy pack)\<^sup>*\<^sup>* s s' \<and> place s' \<noteq> InNursery \<and> \<not> task_runs s'"
    if "place s = InNursery" "ended (net s)"
    by (rule driven_out[OF inv that])
  ultimately show ?thesis using inv by (auto simp: sv_inv_def session_over_def ended_def)
qed

text \<open>
  C23. The supervisor reconnects. With a constant delay that is not negative, as by default, from every
  reachable state in which the connection is down and the supervisor has not been cancelled, it can
  bring the connection up again by its own steps and be in a session, provided it is not waiting for
  an attempt of another task (see the next property).
\<close>

theorem supervisor_reconnects:
  assumes "sv_reachable has_task (constant_delay_policy d) pack s" and "0 \<le> d"
    and "conn_state (link (net s)) = DISCONNECTED" and "\<not> outer_cancel s" and "\<And>r. place s \<noteq> Over r"
    and "pcs (net s) 0 \<noteq> Waiting Open CONNECTED False"
    and "\<forall>es. Cancelled \<notin> set es \<longrightarrow> is_Exception (pack es)"
  shows "\<exists>s'. (own_step has_task (constant_delay_policy d) pack)\<^sup>*\<^sup>* s s' \<and>
    conn_state (link (net s')) = CONNECTED \<and> place s' \<in> {InNursery, Watching False}"
proof -
  have inv: "sv_inv s" and e: "ended (net s)"
    using sv_reachable_inv[OF assms(1)] assms(3) by (simp_all add: ended_def)
  have "\<exists>s'. (own_step has_task (steady d) pack)\<^sup>*\<^sup>* s s' \<and> up_again s'"
  proof (cases "place s")
    case Opening
    then show ?thesis using up_from_open[OF assms(1) _ e assms(2,4,6,7)] by simp
  next
    case (Sleeping d')
    have "d' = d" by (rule steady_sleeps[OF assms(1) Sleeping])
    then show ?thesis using Sleeping up_from_sleep[OF _ assms(2) inv_calm[OF inv] e] by simp
  next
    case (Over r)
    then show ?thesis using assms(5) by blast
  qed (use up_from_session[OF inv _ e assms(2,4) no_cancelled_caught[OF assms(1)] assms(7)] in auto)
  then show ?thesis by (simp add: up_again_def)
qed


text \<open>
  A supervisor that is stranded. If supervision begins while another task is opening the connection
  and that attempt fails, \<open>supervise()\<close> neither retries nor calls its policy: the connection is down, no
  other task is doing anything, and the only step left to the supervisor is to be cancelled.
\<close>

theorem supervisor_stranded:
  "\<exists>s. sv_reachable has_task policy pack s \<and> place s = Opening \<and> conn_state (link (net s)) = DISCONNECTED \<and>
     {t. in_call (pcs (net s) t)} = {0} \<and>
     place ` {s'. own_step has_task policy pack s s'} = {Over (Raises Cancelled)}"
proof -
  obtain s where s: "sv_reachable has_task policy pack s" "place s = Opening"
    "conn_state (link (net s)) = DISCONNECTED" "\<forall>t. t \<noteq> 0 \<longrightarrow> \<not> in_call (pcs (net s) t)"
    "pcs (net s) 0 = Waiting Open CONNECTED False"
    using stranded_run[of has_task policy pack] by blast
  have "{t. in_call (pcs (net s) t)} = {0}" using s(4,5) by (auto intro: ccontr)
  moreover have "place ` {s'. own_step has_task policy pack s s'} = {Over (Raises Cancelled)}"
    using stuck_steps[OF _ s(2,5), of has_task policy pack] can_be_cancelled[OF s(2,5), of has_task policy pack]
    by (force simp: image_iff)
  ultimately show ?thesis using s(1-3) by blast
qed

text \<open>
  A task that is started too late. If another task opens the connection and closes it again before the
  supervisor, which has been waiting for it in \<^verbatim>\<open>open()\<close>, moves on, the policy is told \<^verbatim>\<open>"open"\<close> and the
  task is started although the connection is down.
\<close>

theorem task_started_too_late:
  "\<exists>s. sv_reachable True (constant_delay_policy d) pack s \<and> task_runs s \<and>
     conn_state (link (net s)) = DISCONNECTED \<and> map fst (told s) = [Opened]"
  by (rule late_run)

section \<open>Witnesses\<close>

text \<open>Supervision of a new connection, at the hook of \<^verbatim>\<open>open()\<close>.\<close>

definition fresh :: "'p \<Rightarrow> 'p supervision" where
  "fresh p = try_open True (constant_delay_policy 1) (blank init_sys p)"

lemma fresh_reachable: "sv_reachable True (constant_delay_policy 1) pack (fresh p)"
  unfolding fresh_def by (rule sv_starts[OF reachable.start]) (simp add: init_sys_def)

lemma init_link: "conn_state (link init_sys) = DISCONNECTED"
  by (simp add: init_sys_def init_connection_def)

lemma fresh_place: "place (fresh p) = Opening" "pcs (net (fresh p)) 0 = InHook Open" "told (fresh p) = []"
    "\<not> task_runs (fresh p)" "outer_cancel (fresh p) = False"
  by (simp_all add: fresh_def try_open_def after_open_def blank_def begin_call_def init_link enter_hook_def pcs_move)

lemma fresh_fails:
  "\<exists>s :: 'p supervision. sv_reachable True (constant_delay_policy 1) pack s \<and> place s = Sleeping 1 \<and>
     conn_state (link (net s)) = DISCONNECTED \<and> \<not> outer_cancel s \<and> pcs (net s) 0 = Connection_Tasks.Failed Open \<and>
     map fst (told s) = [Supervision.Failed (OSError 111)]"
proof -
  fix p :: 'p
  let ?n = "move 0 (Connection_Tasks.Failed Open) (change DISCONNECTED (net (fresh p)))"
  let ?s = "fails (constant_delay_policy 1) (OSError 111) (notice ?n (fresh p))"
  have st: "step (HookRaises 0) (net (fresh p)) = Some ?n" by (simp add: fresh_place)
  have "sv_reachable True (constant_delay_policy 1) pack ?s"
    by (rule sv_moves[OF fresh_reachable own[OF own_step.open_raises[OF fresh_place(1) st]]])
  moreover have "place ?s = Sleeping 1" "map fst (told ?s) = [Supervision.Failed (OSError 111)]"
    by (simp_all add: fails_def steady_decides) (simp add: decide_def tell_def constant_delay_policy_def constant_policy_def action_simps fresh_place)
  moreover have "conn_state (link ?n) = DISCONNECTED"
    by (simp add: fresh_def try_open_def after_open_def blank_def begin_call_def init_link enter_hook_def pcs_move)
  ultimately show ?thesis by (intro exI[of _ ?s]) (simp add: fresh_place pcs_move)
qed

theorem interleaved_policy_calls_witness:
  "\<exists>s :: unit supervision. \<exists>rounds. map fst (told s) = [Supervision.Failed (OSError 111)] \<and>
     map fst (told s) = concat rounds \<and> (\<forall>x \<in> set rounds. whole_round x) \<and>
     (\<exists>a. last_answer (told s) a \<and> delay_of a = Some 1)"
proof -
  obtain s :: "unit supervision" where s: "sv_reachable True (constant_delay_policy 1) (\<lambda>_. OtherError 0) s"
      "place s = Sleeping 1" "map fst (told s) = [Supervision.Failed (OSError 111)]"
    using fresh_fails[of "\<lambda>_. OtherError 0"] by (elim exE conjE)
  show ?thesis using interleaved_policy_calls[OF s(1), where d = 1] s(2,3)
    by (intro exI[of _ s]) auto
qed

theorem task_ends_with_connection_witness:
  "\<exists>s s' :: unit supervision. task_runs s \<and> conn_state (link (net s)) = DISCONNECTED \<and>
     (driven True (constant_delay_policy 1) (\<lambda>_. OtherError 0))\<^sup>*\<^sup>* s s' \<and> \<not> task_runs s' \<and> place s' \<noteq> InNursery"
proof -
  obtain s :: "unit supervision" where s: "sv_reachable True (constant_delay_policy 1) (\<lambda>_. OtherError 0) s"
      "task_runs s" "conn_state (link (net s)) = DISCONNECTED"
    using late_run[of 1 "\<lambda>_. OtherError 0"] by (elim exE conjE)
  show ?thesis using task_ends_with_connection[OF s(1)] s(2,3) by blast
qed

theorem supervisor_reconnects_witness:
  "\<exists>s s' :: unit supervision. map fst (told s) = [Supervision.Failed (OSError 111)] \<and>
     (own_step True (constant_delay_policy 1) (\<lambda>_. OtherError 0))\<^sup>*\<^sup>* s s' \<and> conn_state (link (net s')) = CONNECTED"
proof -
  obtain s :: "unit supervision" where s: "sv_reachable True (constant_delay_policy 1) (\<lambda>_. OtherError 0) s"
      "place s = Sleeping 1" "conn_state (link (net s)) = DISCONNECTED" "\<not> outer_cancel s"
      "pcs (net s) 0 = Connection_Tasks.Failed Open" "map fst (told s) = [Supervision.Failed (OSError 111)]"
    using fresh_fails[of "\<lambda>_. OtherError 0"] by (elim exE conjE)
  have "\<exists>s'. (own_step True (constant_delay_policy 1) (\<lambda>_. OtherError 0))\<^sup>*\<^sup>* s s' \<and>
      conn_state (link (net s')) = CONNECTED \<and> place s' \<in> {InNursery, Watching False}"
    by (rule supervisor_reconnects[OF s(1) _ s(3,4)]) (use s(2,5) in simp_all)
  then obtain s' where "(own_step True (constant_delay_policy 1) (\<lambda>_. OtherError 0))\<^sup>*\<^sup>* s s'"
      "conn_state (link (net s')) = CONNECTED" by (elim exE conjE)
  then show ?thesis using s(6) by (intro exI[of _ s] exI[of _ s'] conjI)
qed

end
