(* ===== verification/Rpc_Crash.thy ===== *)
theory Rpc_Crash
  imports Rpc_Session
begin

text \<open>
  The RPC sessions of \<open>Rpc_Session\<close> with the exceptions that end them (\<^verbatim>\<open>channels/rpc.py\<close>): of the
  handler of requests, of \<^verbatim>\<open>receive()\<close> and \<^verbatim>\<open>send()\<close> of the channel, and of the body of the
  \<^verbatim>\<open>async with\<close> block, and with a cancellation of the whole block from outside.

  Any of them cancels the nursery of \<^verbatim>\<open>serve_rpc_requests\<close>: from then on a task that is still there
  ends with \<^verbatim>\<open>Cancelled\<close> when it gets to run, or finishes what it had already been resumed for. What
  a task was holding is released on its way out: the inbound task closes the sending end of
  the queue, the outbound task its receiving end, which interrupts those who wait to send. The nursery is left
  when both tasks and the body have ended; \<open>errors\<close> collects the exceptions that they have raised meanwhile, of
  which Trio makes the group that comes out of the block.
\<close>

section \<open>Steps\<close>

record ('m, 'p, 'q, 'r, 'e) crashing_session =
  live :: "('m, 'p, 'q, 'r, 'e) rpc_session"
  dying :: bool
  errors :: "exn list"

definition crashing :: "('m, 'p, 'q, 'r, 'e) rpc_session \<Rightarrow> ('m, 'p, 'q, 'r, 'e) crashing_session" where
  "crashing s = \<lparr>live = s, dying = False, errors = []\<rparr>"

definition collect :: "exn \<Rightarrow> ('m, 'p, 'q, 'r, 'e) crashing_session \<Rightarrow> ('m, 'p, 'q, 'r, 'e) crashing_session" where
  "collect e s = s\<lparr>dying := True, errors := errors s @ [e]\<rparr>"

text \<open>
  The calls that wait in the queue, when one of its ends is closed. A response that waits there is
  that of the inbound task itself.
\<close>

definition interrupt_senders :: "exn \<Rightarrow> (nat \<Rightarrow> ('r, 'e) rpc_call) \<Rightarrow> nat \<Rightarrow> ('r, 'e) rpc_call" where
  "interrupt_senders e cs i = (if cs i = Sending then Finished (Interrupted e) else cs i)"

text \<open>The inbound task leaves \<^verbatim>\<open>async with out_queue_tx\<close> by an exception: the user's scope is not cancelled.\<close>

definition inbound_dies :: "('m, 'p, 'q, 'r, 'e) rpc_session \<Rightarrow> ('m, 'p, 'q, 'r, 'e) rpc_session" where
  "inbound_dies s =
     s\<lparr>core := (core s)\<lparr>queue_closed := True\<rparr>, inbound := InboundEnded, senders := [],
       calls := interrupt_senders ClosedResourceError (calls s)\<rparr>"

text \<open>The outbound task leaves \<^verbatim>\<open>async with out_queue_rx\<close> by an exception.\<close>

definition outbound_dies :: "('m, 'p, 'q, 'r, 'e) rpc_session \<Rightarrow> ('m, 'p, 'q, 'r, 'e) rpc_session" where
  "outbound_dies s =
     s\<lparr>outbound := OutboundEnded, senders := filter (\<lambda>(x, _). x = None) (senders s),
       calls := interrupt_senders BrokenResourceError (calls s)\<rparr>"

inductive crash_step ::
  "('m, 'r, 'e) session_futures \<Rightarrow> ('q \<Rightarrow> 'p option outcome) \<Rightarrow>
   ('m, 'p, 'q, 'r, 'e) crashing_session \<Rightarrow> ('m, 'p, 'q, 'r, 'e) crashing_session \<Rightarrow> bool" for ops handler where
  runs:
    "\<not> dying s \<Longrightarrow> session_step ops handler (live s) l \<Longrightarrow> crash_step ops handler s (s\<lparr>live := l\<rparr>)"
| handler_raises:
    "inbound (live s) = Reading \<Longrightarrow>
     handle_single_inbound_message (future_ops.truncate ops) handler m (core (live s)) = (Raises e, c) \<Longrightarrow>
     crash_step ops handler s
       (collect e (s\<lparr>live := inbound_dies ((live s)\<lparr>core := c, received := received (live s) @ [m]\<rparr>)\<rparr>))"
| receive_raises:
    "inbound (live s) = Reading \<Longrightarrow> e \<noteq> Cancelled \<Longrightarrow>
     crash_step ops handler s (collect e (s\<lparr>live := inbound_dies (live s)\<rparr>))"
| send_raises:
    "outbound (live s) = Transmitting p \<Longrightarrow> e \<noteq> Cancelled \<Longrightarrow>
     crash_step ops handler s (collect e (s\<lparr>live := outbound_dies (live s)\<rparr>))"
| body_raises:
    "body (live s) = BodyRuns \<Longrightarrow> e \<noteq> Cancelled \<Longrightarrow>
     crash_step ops handler s (collect e (s\<lparr>live := (live s)\<lparr>body := BodyLeft\<rparr>\<rparr>))"
| cancelled_from_outside:
    "crash_step ops handler s (s\<lparr>dying := True\<rparr>)"
| inbound_cancelled:
    "dying s \<Longrightarrow> inbound (live s) \<noteq> InboundEnded \<Longrightarrow> crash_step ops handler s (s\<lparr>live := inbound_dies (live s)\<rparr>)"
| response_interrupted:
    "dying s \<Longrightarrow> inbound (live s) = Responding \<Longrightarrow> outbound (live s) = OutboundEnded \<Longrightarrow>
     crash_step ops handler s (collect BrokenResourceError (s\<lparr>live := inbound_dies (live s)\<rparr>))"
| outbound_cancelled:
    "dying s \<Longrightarrow> outbound (live s) \<noteq> OutboundEnded \<Longrightarrow> crash_step ops handler s (s\<lparr>live := outbound_dies (live s)\<rparr>)"
| last_transmission:
    "dying s \<Longrightarrow> outbound (live s) = Transmitting p \<Longrightarrow>
     crash_step ops handler s
       (s\<lparr>live := (live s)\<lparr>outbound := Fetching, transmitted := transmitted (live s) @ [p]\<rparr>\<rparr>)"
| body_cancelled:
    "dying s \<Longrightarrow> body (live s) = BodyRuns \<Longrightarrow> crash_step ops handler s (s\<lparr>live := (live s)\<lparr>body := BodyCancelled\<rparr>\<rparr>)"
| body_ends:
    "dying s \<Longrightarrow> body (live s) = BodyRuns \<Longrightarrow> crash_step ops handler s (s\<lparr>live := (live s)\<lparr>body := BodyLeft\<rparr>\<rparr>)"
| call_ends:
    "dying s \<Longrightarrow> calls (live s) i = Waiting \<Longrightarrow> session_step ops handler (live s) (finish_call ops i k r (live s)) \<Longrightarrow>
     keys (live s) i = Some k \<Longrightarrow>
     crash_step ops handler s (s\<lparr>live := finish_call ops i k r (live s)\<rparr>)"
| waiting_call_cancelled:
    "dying s \<Longrightarrow> calls (live s) i = Waiting \<Longrightarrow> keys (live s) i = Some k \<Longrightarrow>
     crash_step ops handler s (s\<lparr>live := finish_call ops i k (Interrupted Cancelled) (live s)\<rparr>)"
| sending_call_cancelled:
    "dying s \<Longrightarrow> calls (live s) i = Sending \<Longrightarrow>
     crash_step ops handler s (s\<lparr>live := withdraw i (live s)\<rparr>)"
| late_request:
    "dying s \<Longrightarrow> calls (live s) i = NotCalled \<Longrightarrow>
     send_request (future_ops.truncate ops) one_way req (core (live s)) = (Returns key, c) \<Longrightarrow>
     (\<forall>k. key = Some k \<longrightarrow> fut_get ops k (pending (core (live s))) = None) \<Longrightarrow>
     e \<in> {Cancelled, ClosedResourceError, BrokenResourceError} \<Longrightarrow>
     crash_step ops handler s
       (s\<lparr>live := (live s)\<lparr>core := (core (live s))\<lparr>pending := pending c\<rparr>,
          calls := (calls (live s))(i := Finished (Interrupted e))\<rparr>\<rparr>)"

inductive crash_reachable ::
  "('m, 'r, 'e) session_futures \<Rightarrow> ('q \<Rightarrow> 'p option outcome) \<Rightarrow> ('m, 'p, 'q, 'r, 'e) crashing_session \<Rightarrow> bool"
  for ops handler where
  crash_starts: "crash_reachable ops handler (crashing (init_session futures log))"
| crash_moves: "crash_reachable ops handler s \<Longrightarrow> crash_step ops handler s s' \<Longrightarrow> crash_reachable ops handler s'"

section \<open>Invariants\<close>

text \<open>Those of the queue, the futures, the results and what has been sent hold with crashes too.\<close>

definition crash_inv :: "('m, 'r, 'e) session_futures \<Rightarrow> ('m, 'p, 'q, 'r, 'e) crashing_session \<Rightarrow> bool" where
  "crash_inv ops s \<longleftrightarrow> queue_inv (live s) \<and> future_inv ops (live s) \<and> result_inv (live s) \<and> sent_inv (live s) \<and>
     (\<not> dying s \<longrightarrow> order_inv (live s))"

lemma interrupt_senders_simps [simp]:
  "interrupt_senders x cs i \<noteq> Sending" "(interrupt_senders x cs i = Waiting) = (cs i = Waiting)"
  "(interrupt_senders x cs i = Finished (Result r)) = (cs i = Finished (Result r))"
  "(interrupt_senders x cs i = Finished (Error e)) = (cs i = Finished (Error e))"
  "(interrupt_senders x cs i = Finished NoResponse) = (cs i = Finished NoResponse)"
  "active (interrupt_senders x cs i) = (cs i = Waiting)"
  by (auto simp: interrupt_senders_def active_def)

lemma raising_message:
  assumes "handle_single_inbound_message ops handler m s = (Raises e, c)"
  shows "c = s" "answers k m = None"
  using assms by (cases m; auto split: outcome.splits option.splits if_splits)+

lemma since_receive:
  "since s i \<le> length (received s) \<Longrightarrow> since_call (s\<lparr>received := received s @ [m]\<rparr>) i = since_call s i @ [m]"
  by (simp add: since_call_def)

text \<open>The message at which the handler raises answers nothing.\<close>

lemma receive_request_inv:
  assumes "future_inv ops s" "result_inv s" "\<And>k. answers k m = None"
  shows "future_inv ops (s\<lparr>received := received s @ [m]\<rparr>)" "result_inv (s\<lparr>received := received s @ [m]\<rparr>)"
proof -
  have le: "since s i \<le> length (received s)" for i using assms(1) by (simp add: future_inv_def)
  have a: "answer_so_far k (since_call s i @ [m]) = answer_so_far k (since_call s i)" for k i
    using assms(3) by (simp add: answer_so_far_snoc)
  show "future_inv ops (s\<lparr>received := received s @ [m]\<rparr>)"
    using assms(1) le by (auto simp: future_inv_def since_receive a le_SucI)
  show "result_inv (s\<lparr>received := received s @ [m]\<rparr>)"
    using assms(2) le by (fastforce simp: result_inv_def since_receive first_answer_stays)
qed

text \<open>The ends of the tasks.\<close>

text \<open>Senders that are interrupted.\<close>

lemma finished_or_sending:
  "interrupt_senders x cs j \<noteq> NotCalled \<longleftrightarrow> cs j \<noteq> NotCalled"
  "cs j = Finished r \<Longrightarrow> interrupt_senders x cs j = Finished r"
  by (auto simp: interrupt_senders_def)

lemma inbound_dies_inv:
  assumes "future_inv ops s" "result_inv s" "sent_inv s"
  shows "queue_inv (inbound_dies s)" "future_inv ops (inbound_dies s)" "result_inv (inbound_dies s)"
    "sent_inv (inbound_dies s)"
proof -
  show "queue_inv (inbound_dies s)" by (simp add: inbound_dies_def queue_inv_def)
  show "future_inv ops (inbound_dies s)"
    by (rule future_inv_frame[OF assms(1)]) (use assms(1) in \<open>auto simp: inbound_dies_def future_inv_def\<close>)
  show "result_inv (inbound_dies s)"
    using assms(2) by (simp_all add: inbound_dies_def result_inv_def since_call_def)
  show "sent_inv (inbound_dies s)"
    by (rule sent_inv_calls[OF assms(3)]) (simp_all add: inbound_dies_def finished_or_sending)
qed

lemma outbound_dies_inv:
  assumes "queue_inv s" "future_inv ops s" "result_inv s" "sent_inv s"
  shows "queue_inv (outbound_dies s)" "future_inv ops (outbound_dies s)" "result_inv (outbound_dies s)"
    "sent_inv (outbound_dies s)"
proof -
  show "queue_inv (outbound_dies s)"
    using assms(1) by (auto simp: outbound_dies_def queue_inv_def intro: once_filter)
  show "future_inv ops (outbound_dies s)"
    by (rule future_inv_frame[OF assms(2)]) (use assms(2) in \<open>auto simp: outbound_dies_def future_inv_def\<close>)
  show "result_inv (outbound_dies s)"
    using assms(3) by (auto simp: outbound_dies_def result_inv_def since_call_def)
  obtain ts us where o: "map snd (handed s) = outbox (core s)" "\<And>i. waits (Some i) (handed s) \<Longrightarrow> calls s i \<noteq> NotCalled"
    "\<And>i. i \<in> withdrawn s \<Longrightarrow> calls s i = Finished (Interrupted Cancelled)" and sp: "split_at ts us s"
    using assms(4) by (rule sent_invE) blast
  let ?n = "length (transmitted s)"
  have "map snd (take ?n ts) = take ?n (map snd ts)" by (simp add: take_map)
  then have "map snd (take ?n ts) = transmitted s" using sp by (simp add: split_at_def)
  moreover have "kept s = take ?n ts @ (drop ?n ts @ us)" using sp by (simp add: split_at_def)
  moreover have "kept (outbound_dies s) = kept s" by (simp add: outbound_dies_def)
  ultimately have "split_at (take ?n ts) (drop ?n ts @ us) (outbound_dies s)"
    by (simp add: split_at_def outbound_dies_def)
  then show "sent_inv (outbound_dies s)"
    by (rule sent_invI[rotated 3]) (use o in \<open>auto simp: outbound_dies_def finished_or_sending\<close>)
qed

lemma collect_simps [simp]:
  "live (collect e s) = live s" "dying (collect e s)" "errors (collect e s) = errors s @ [e]"
  by (simp_all add: collect_def)

lemma dies_simps [simp]:
  "inbound (inbound_dies s) = InboundEnded" "queue_closed (core (inbound_dies s))"
  "outbound (inbound_dies s) = outbound s" "body (inbound_dies s) = body s"
  "inbound (outbound_dies s) = inbound s" "outbound (outbound_dies s) = OutboundEnded"
  "body (outbound_dies s) = body s" "core (outbound_dies s) = core s"
  "transmitted (inbound_dies s) = transmitted s" "transmitted (outbound_dies s) = transmitted s"
  by (simp_all add: inbound_dies_def outbound_dies_def)

lemma sent_inv_received: "sent_inv (s\<lparr>received := ms\<rparr>) = sent_inv s"
  by (simp add: sent_inv_def split_at_def)

lemma crash_inv_step:
  assumes "crash_step ops handler s s'" and laws: "session_laws ops" and inv: "crash_inv ops s"
  shows "crash_inv ops s'"
proof -
  have i: "queue_inv (live s)" "future_inv ops (live s)" "result_inv (live s)" "sent_inv (live s)"
    using inv by (simp_all add: crash_inv_def)
  note out = outbound_dies_inv[OF i] and inb = inbound_dies_inv[OF i(2-4)]
  from assms(1) show ?thesis
  proof (cases rule: crash_step.cases)
    case (runs l)
    have o: "order_inv (live s)" using runs(2) inv by (simp add: crash_inv_def)
    then show ?thesis
      using runs order_inv_step[OF runs(3) o] queue_inv_step[OF runs(3) i(1)] future_inv_step[OF runs(3) laws i(2,1)]
        result_inv_step[OF runs(3) i(3,2,1)] sent_inv_step[OF runs(3) o i(1,4)]
      by (simp add: crash_inv_def)
  next
    case (handler_raises m e c)
    let ?l = "(live s)\<lparr>received := received (live s) @ [m]\<rparr>"
    note r = raising_message[OF handler_raises(3)]
    have "(live s)\<lparr>core := c, received := received (live s) @ [m]\<rparr> = ?l" using r(1) by simp
    moreover have "sent_inv ?l" using i(4) by (simp add: sent_inv_received)
    ultimately show ?thesis
      using inbound_dies_inv[OF receive_request_inv[OF i(2,3), of m]] r(2) handler_raises(1)
      by (simp add: crash_inv_def)
  next
    case (call_ends i' k r)
    have "queue_inv (live s')" "future_inv ops (live s')" "result_inv (live s')"
      using queue_inv_step[OF call_ends(4) i(1)] future_inv_step[OF call_ends(4) laws i(2,1)]
        result_inv_step[OF call_ends(4) i(3,2,1)] call_ends(1) by simp_all
    moreover have "sent_inv (live s')"
      by (rule sent_inv_calls[OF i(4)]) (use call_ends in \<open>auto split: if_splits\<close>)
    ultimately show ?thesis using call_ends by (simp add: crash_inv_def)
  next
    case (waiting_call_cancelled i' k)
    have "future_inv ops (live s')"
      using future_inv_finish[OF laws i(2) waiting_call_cancelled(3,4)] waiting_call_cancelled(1) by simp
    moreover have "sent_inv (live s')"
      by (rule sent_inv_calls[OF i(4)]) (use waiting_call_cancelled in \<open>auto split: if_splits\<close>)
    ultimately show ?thesis using waiting_call_cancelled i(1,3)
      by (auto simp: crash_inv_def queue_inv_def result_inv_def)
  next
    case (sending_call_cancelled i')
    have "future_inv ops (live s')"
      by (rule future_inv_frame[OF i(2)]) (use sending_call_cancelled(1) i(2) in \<open>auto simp: future_inv_def split: if_splits\<close>)
    moreover have "sent_inv (live s')" using sent_inv_withdraw[OF i(4) sending_call_cancelled(3)] sending_call_cancelled(1) by simp
    ultimately show ?thesis using sending_call_cancelled i(1,3)
      by (auto simp: crash_inv_def queue_inv_def result_inv_def intro: once_filter)
  next
    case (late_request i' one_way req key c e)
    have "future_inv ops (live s')"
      using future_inv_refused[OF laws i(2) late_request(3-5)] late_request(1) by simp
    moreover have "sent_inv (live s')"
      by (rule sent_inv_calls[OF i(4)]) (use late_request in \<open>auto split: if_splits\<close>)
    ultimately show ?thesis using late_request i(1,3)
      by (auto simp: crash_inv_def queue_inv_def result_inv_def)
  next
    case (last_transmission p)
    have "sent_inv (live s')"
      using i(4) last_transmission by (auto simp: sent_inv_def split_at_def)
    then show ?thesis using last_transmission i(1-3)
      by (auto simp: crash_inv_def queue_inv_def result_inv_def future_inv_def since_call_def)
  next
    case body_cancelled
    then show ?thesis using i
      by (auto simp: crash_inv_def queue_inv_def result_inv_def future_inv_def since_call_def sent_inv_def split_at_def)
  next
    case body_ends
    then show ?thesis using i
      by (auto simp: crash_inv_def queue_inv_def result_inv_def future_inv_def since_call_def sent_inv_def split_at_def)
  next
    case (body_raises e)
    then show ?thesis using i
      by (auto simp: crash_inv_def queue_inv_def result_inv_def future_inv_def since_call_def sent_inv_def split_at_def)
  qed (use inv out inb in \<open>simp_all add: crash_inv_def\<close>)
qed

lemma crash_reachable_inv:
  assumes "crash_reachable ops handler s" and "session_laws ops"
  shows "crash_inv ops s"
  using assms(1)
proof induction
  case (crash_starts futures log)
  show ?case
    using session_inv[OF session_starts[of ops handler futures log] assms(2)] by (simp add: crashing_def crash_inv_def)
qed (rule crash_inv_step[OF _ assms(2)])

section \<open>Properties\<close>

text \<open>
  C8. Every call of the peer gets its own answer, in sessions that crash too. In every state that a
  session can reach, whatever the handler, the channel and the body raise, and whether a single
  call, in any of its waits, or the whole session is cancelled: a call that returned a result was answered
  with this result by the first message, of those received since the call was made, that carries its
  key; likewise for an error of the peer; a call returned without waiting only where no response is
  expected. What has been sent is a prefix, in its order, of what was handed to the queue, less the
  requests that were withdrawn from it, each by a call that has ended with \<^verbatim>\<open>Cancelled\<close>.
\<close>

theorem answers_despite_crashes:
  assumes "crash_reachable ops handler s" and "session_laws ops"
  shows "map snd (handed (live s)) = outbox (core (live s)) \<and>
    prefix (transmitted (live s)) (map snd (filter (\<lambda>(x, _). x \<notin> Some ` withdrawn (live s)) (handed (live s)))) \<and>
    (\<forall>j \<in> withdrawn (live s). calls (live s) j = Finished (Interrupted Cancelled)) \<and>
    (case calls (live s) i of
      Finished (Result r) \<Rightarrow> \<exists>k. keys (live s) i = Some k \<and> first_answer k (since_call (live s) i) = Some (Resolved r)
    | Finished (Error e) \<Rightarrow> \<exists>k. keys (live s) i = Some k \<and> first_answer k (since_call (live s) i) = Some (Failed e)
    | Finished NoResponse \<Rightarrow> keys (live s) i = None
    | Waiting \<Rightarrow> \<exists>k. keys (live s) i = Some k \<and>
        fut_get ops k (pending (core (live s))) = Some (answer_so_far k (since_call (live s) i))
    | _ \<Rightarrow> True)"
proof -
  have inv: "future_inv ops (live s)" "result_inv (live s)" "sent_inv (live s)"
    using crash_reachable_inv[OF assms] by (simp_all add: crash_inv_def)
  have "\<exists>k. keys (live s) i = Some k \<and>
      fut_get ops k (pending (core (live s))) = Some (answer_so_far k (since_call (live s) i))"
    if w: "calls (live s) i = Waiting"
  proof -
    have "active (calls (live s) i)" using w by simp
    then show ?thesis using inv(1) w by (auto simp: future_inv_def)
  qed
  then show ?thesis
    using inv(2,3) sent_prefix[OF inv(3)]
    by (auto simp: result_inv_def sent_inv_def kept_def split: rpc_call.split call_result.split)
qed

text \<open>
  A withdrawn request leaves its future behind: its call has ended, and nothing takes its key out of
  the map of the pending requests.
\<close>

lemma withdrawn_future_stays:
  assumes "future_inv ops s" and "calls s i = Sending" and "keys s i = Some k"
  shows "session_step ops handler s (withdraw i s) \<and> calls (withdraw i s) i = Finished (Interrupted Cancelled) \<and>
    fut_get ops k (pending (core (withdraw i s))) = Some (answer_so_far k (since_call s i))"
proof -
  have "active (calls s i)" using assms(2) by simp
  then have "fut_get ops k (pending (core s)) = Some (answer_so_far k (since_call s i))"
    using assms(1,3) unfolding future_inv_def by blast
  then show ?thesis using request_withdrawn[of s i ops handler, OF assms(2)] by simp
qed

section \<open>Witnesses\<close>

lemma live_runs:
  "session_reachable ops handler l \<Longrightarrow> crash_reachable ops handler (crashing l)"
proof (induction rule: session_reachable.induct)
  case (session_moves l l')
  have "crash_step ops handler (crashing l) ((crashing l)\<lparr>live := l'\<rparr>)"
    by (rule runs) (use session_moves(2) in \<open>simp_all add: crashing_def\<close>)
  then show ?case using crash_moves[OF session_moves(3)] by (simp add: crashing_def)
qed (rule crash_starts)

text \<open>The sample session of \<open>Rpc_Session\<close>, whose channel then breaks.\<close>

lemma broken_session:
  "\<exists>s. crash_reachable session_map echo s \<and> dying s \<and> errors s = [OSError 104] \<and>
     calls (live s) 0 = Finished (Result ''yes'') \<and> keys (live s) 0 = Some (StrId ''a'')"
proof -
  obtain l where l: "session_reachable session_map echo l" "calls l 0 = Finished (Result ''yes'')"
      "keys l 0 = Some (StrId ''a'')" "inbound l = Reading"
    using sample_session by (elim exE conjE)
  let ?s = "collect (OSError 104) ((crashing l)\<lparr>live := inbound_dies (live (crashing l))\<rparr>)"
  have "crash_step session_map echo (crashing l) ?s"
    by (rule receive_raises) (simp_all add: crashing_def l)
  then have "crash_reachable session_map echo ?s" by (rule crash_moves[OF live_runs[OF l(1)]])
  moreover have "calls (inbound_dies l) 0 = Finished (Result ''yes'')" "keys (inbound_dies l) 0 = Some (StrId ''a'')"
    using l by (simp_all add: inbound_dies_def)
  ultimately show ?thesis by (intro exI[of _ ?s]) (simp add: crashing_def)
qed

theorem answers_despite_crashes_witness:
  "\<exists>s. crash_reachable session_map echo s \<and> errors s = [OSError 104] \<and>
     first_answer (StrId ''a'') (since_call (live s) 0) = Some (Resolved ''yes'')"
proof -
  obtain s where s: "crash_reachable session_map echo s" "errors s = [OSError 104]"
      "calls (live s) 0 = Finished (Result ''yes'')" "keys (live s) 0 = Some (StrId ''a'')"
    using broken_session by (elim exE conjE)
  then show ?thesis using answers_despite_crashes[OF s(1) session_map_laws, of 0] by (intro exI[of _ s]) simp
qed

end
