(* ===== verification/Spec2Isabelle.thy ===== *)
theory Spec2Isabelle
  imports Connection_Tasks Task_Connection Task_Callers Stream_Callers Trio_Listener Listener_Tasks Hexdump Channels Rpc_Session Supervisor_Tasks Factory
    File_Connection Serial Stream_Sockets Process_Connection Socket_Listeners Middleware
    Message_Loopback Registry Supervised_Connection Rpc_Crash
begin

text \<open>
  A verification of \<^verbatim>\<open>flockwave-conn\<close>: asynchronous connections to files, serial ports, sockets,
  processes and in-memory channels, listeners, message channels over connections, a factory that
  makes connections from URLs, and a supervisor that keeps them open. The Python sources are under
  \<^verbatim>\<open>src/src/flockwave/\<close>; paths below are relative to it.

  \<^bold>\<open>The program.\<close> \<^verbatim>\<open>ConnectionBase\<close> (\<^verbatim>\<open>connections/base.py\<close>) is the state machine of all connections:
  \<^verbatim>\<open>open()\<close> and \<^verbatim>\<open>close()\<close> run the hooks \<^verbatim>\<open>_open()\<close> and \<^verbatim>\<open>_close()\<close> of a subclass and announce every
  change of state by signals and by two \<^verbatim>\<open>AsyncBool\<close> flags. The subclasses differ in their hooks and
  in how they read and write. \<^verbatim>\<open>ListenerBase\<close> (\<^verbatim>\<open>listeners/base.py\<close>) is the like machine of listeners.
  Channels and RPC sit on top of connections and turn bytes into messages; the supervisor calls
  \<^verbatim>\<open>open()\<close> and waits for the end of the connection again and again; the factory builds connections
  and wraps them into middleware.

  \<^bold>\<open>How it is modelled.\<close> An operation is an \<open>action\<close>: a function from a state to an outcome (a value, an
  exception, or a suspension that only another task ends) and the new state (theory \<open>Prelude\<close>). An
  object is a record; a subclass extends the record of its base class and passes its hooks as
  arguments. What several Trio tasks do to one object is a step relation or a step function, a
  step being what one task does from one suspension point to the next. Streams, sockets, devices,
  processes, files and the clock belong to the operating system or to other packages: they are
  arguments, mostly records of the calls the code makes, acting on a world that the object carries.

  \<^bold>\<open>The theories.\<close>
    \<^item> \<open>Prelude\<close>: exceptions, outcomes, sequencing, \<^verbatim>\<open>try/finally\<close>, \<^verbatim>\<open>try/except\<close>; Python's \<^verbatim>\<open>strip\<close>,
      \<^verbatim>\<open>split\<close>, \<^verbatim>\<open>partition\<close>, \<^verbatim>\<open>join\<close> and slices; invariants of actions (\<open>preserves\<close>).
    \<^item> \<open>Lifecycle\<close>: the locales \<open>announced_state\<close> and \<open>lifecycle\<close>, the contract that connections and
      listeners share, with its consequences: what \<^verbatim>\<open>open()\<close> and \<^verbatim>\<open>close()\<close> lead to, what observers see.
    \<^item> \<open>Connection_Base\<close> (\<^verbatim>\<open>connections/base.py\<close>, \<^verbatim>\<open>ConnectionState\<close> and \<^verbatim>\<open>ConnectionBase\<close>): interprets the
      contract; \<^verbatim>\<open>open()\<close> and \<^verbatim>\<open>async with\<close> by the outcomes of the hooks and the body.
    \<^item> \<open>Connection_Tasks\<close>: the same methods called by any number of tasks in any order: an invariant
      of states, flags, signals and waiting tasks, one hook at a time on prompt schedules, and what goes
      wrong on others, from every state in which it can.
    \<^item> \<open>Task_Connection\<close> (\<^verbatim>\<open>TaskConnectionBase\<close>) and \<open>Trio_Listener\<close> (\<^verbatim>\<open>TrioListenerBase\<close>): step relations
      with an inductive invariant each, one call at a time; \<open>Listener_Base\<close> (\<^verbatim>\<open>listeners/base.py\<close>).
    \<^item> \<open>Listener_Renaming\<close>: listeners have the life cycle of connections, renamed. \<open>Listener_Tasks\<close> and
      \<open>Task_Callers\<close>: Trio listeners and task connections with any number of callers in any state, with
      cancelled callers and nurseries. Both refine \<open>Connection_Tasks\<close> and inherit its invariants; on orderly
      schedules the object follows its background task, and concrete runs show what other schedules do.
      \<open>Stream_Callers\<close>: a stream connection with callers and readers, and what becomes of its streams.
    \<^item> \<open>Stream_Connection\<close> (\<^verbatim>\<open>stream.py\<close>), \<open>Memory_Connections\<close> (\<^verbatim>\<open>dummy.py\<close>, \<^verbatim>\<open>channel.py\<close>),
      \<open>File_Connection\<close> (\<^verbatim>\<open>FDConnectionBase\<close>, \<^verbatim>\<open>file.py\<close>), \<open>Serial\<close> (\<^verbatim>\<open>serial.py\<close>), \<open>Sockets\<close>
      (\<^verbatim>\<open>socket.py\<close>), \<open>Process_Connection\<close> (\<^verbatim>\<open>process.py\<close>): the concrete connections.
    \<^item> \<open>Unix_Server\<close> (\<^verbatim>\<open>servers.py\<close>): the file of a Unix domain socket over a model of the file system
      in which any system call may fail. \<open>Stream_Sockets\<close> (the stream connections of \<^verbatim>\<open>socket.py\<close>) has
      its clients, \<open>Socket_Listeners\<close> (\<^verbatim>\<open>listeners/socket.py\<close>) joins it with the listener of
      \<open>Trio_Listener\<close>: a refinement of both, with what a client finds at the path in every state.
    \<^item> \<open>Channels\<close> (\<^verbatim>\<open>channels/parser.py\<close>, \<^verbatim>\<open>encoder.py\<close>, \<^verbatim>\<open>message.py\<close>, \<^verbatim>\<open>lossy.py\<close>): the locales
      \<open>message_source\<close>, \<open>chunk_source\<close> and \<open>byte_stream\<close> and what a reader of a channel gets;
      \<open>Rpc\<close> (\<^verbatim>\<open>channels/rpc.py\<close>): which message settles the future of a request; \<open>Rpc_Session\<close>: the
      session with its inbound and outbound task, its unbuffered queue and any number of calls as a
      step relation, with invariants of the queue, the futures and the results, and its shutdown;
      \<open>Rpc_Crash\<close>: the sessions in which the handler, the channel or the body raises, or which are
      cancelled from outside, with the same invariants.
    \<^item> \<open>Supervision\<close> (\<^verbatim>\<open>supervision.py\<close>): the locale \<open>supervisable\<close>, the loop and the supervisor's queue;
      \<open>Supervisor_Tasks\<close>: its main loop, the tasks it starts and the users, interleaved: an invariant, and
      what a removal does;
      \<open>Supervised_Connection\<close>: \<^verbatim>\<open>supervise()\<close> interleaved with other tasks that open and close the same
      connection (\<open>Connection_Tasks\<close>), and with the two children of its nursery.
    \<^item> \<open>Urls\<close> and \<open>Factory\<close> (\<^verbatim>\<open>factory.py\<close>): the parts of \<^verbatim>\<open>urllib.parse\<close> and \<^verbatim>\<open>int()\<close> that the factory
      uses, the factory, and the locale \<open>fifo_channel\<close> behind the loopback pair.
      \<open>Message_Loopback\<close>: message channels over this pair, down to the \<^verbatim>\<open>close()\<close> of one of its ends.
    \<^item> \<open>Errors\<close> (\<^verbatim>\<open>errors.py\<close>): the classes of exceptions, what \<^verbatim>\<open>except\<close> clauses catch, and the messages.
    \<^item> \<open>Registry\<close>: \<^verbatim>\<open>create_connection\<close> and \<^verbatim>\<open>create_listener\<close> (\<^verbatim>\<open>listeners/factory.py\<close>) as the package sets
      them up: the thirteen registered names, the calls of their classes with the arguments that a URL or a
      dictionary gives, the built-in middleware, the capabilities of what comes out, and what becomes of the
      settings of serial ports and UDP listeners on the way.
    \<^item> \<open>Capabilities\<close> (\<^verbatim>\<open>capabilities.py\<close>): the class hierarchy, Python's method resolution, and the
      capabilities as the methods that a lookup on the class finds.
    \<^item> \<open>Middleware\<close> (\<^verbatim>\<open>middleware/\<close>) and \<open>Hexdump\<close> (\<^verbatim>\<open>utils/hexdump.py\<close>).

  \<^bold>\<open>Loops and bounds.\<close> \<^verbatim>\<open>supervise()\<close>, \<^verbatim>\<open>receive()\<close> of a channel and the loops of the serial streams
  are partial functions in the option type: \<open>None\<close> is a loop that does not end, and where the code
  returns, this is proved. The round trip of the hex dump needs addresses below \<open>16 ^ 31\<close>, since
  \<^verbatim>\<open>restore()\<close> looks for the colon in the first 32 characters; that of URLs needs integers of at
  most 4300 digits, Python's limit for \<^verbatim>\<open>int()\<close>. The loopback pair is proved for queues of any length.

  \<^bold>\<open>Not modelled.\<close> The type aliases and the protocols have no behaviour. In \<open>Rpc_Session\<close> the exceptions that
  cancel the nursery end a run; \<open>Rpc_Crash\<close> goes on from there; the group of exceptions that comes out of the
  block is Trio's. In \<open>Supervisor_Tasks\<close> an exception that cancels the nursery of \<^verbatim>\<open>run()\<close> ends the run. Receivers of signals are taken not to raise and
  not to call back. Characters are the code points up to U+00FF.
\<close>

end
